(* ===== verification/Werf_Prelude.thy ===== *)
theory Werf_Prelude
  imports Main "HOL-Library.AList" "HOL-Library.Multiset"
begin

text \<open>
  The prelude of the werf development: the collections of rewrite rules the components
  share, the model of Go's maps as association lists, and the generic facts on lists and
  association lists that the component proofs use.

  A Go map is an association list with distinct keys. The order of the list is the order
  in which a \<open>range\<close> loop visits the map; Go leaves that order open, so a theorem that
  quantifies over the list holds for every order of iteration.
\<close>

named_theorems go_map_simps \<open>lookup and domain of Go maps after an update\<close>
named_theorems stage_manager_simps \<open>projections of the stage manager's operations\<close>

type_synonym ('k, 'v) go_map = "('k \<times> 'v) list"

abbreviation map_keys :: "('k, 'v) go_map \<Rightarrow> 'k set" where
  "map_keys m \<equiv> fst ` set m"

abbreviation map_ok :: "('k, 'v) go_map \<Rightarrow> bool" where
  "map_ok m \<equiv> distinct (map fst m)"

subsection \<open>Maps to slices\<close>

text \<open>
  \<open>m[k]\<close> of a map to slices is the nil slice for an absent key, and
  \<open>m[k] = append(m[k], xs...)\<close> is the idiom the cleanup code uses everywhere.
\<close>

definition slice_get :: "('k, 'v list) go_map \<Rightarrow> 'k \<Rightarrow> 'v list" where
  "slice_get m k = (case map_of m k of None \<Rightarrow> [] | Some xs \<Rightarrow> xs)"

definition slice_append :: "'k \<Rightarrow> 'v list \<Rightarrow> ('k, 'v list) go_map \<Rightarrow> ('k, 'v list) go_map" where
  "slice_append k xs m = AList.update k (slice_get m k @ xs) m"

lemma map_of_update [go_map_simps]:
  "map_of (AList.update k v m) k' = (if k' = k then Some v else map_of m k')"
  by (simp add: update_conv')

lemma map_keys_update [go_map_simps]: "map_keys (AList.update k v m) = insert k (map_keys m)"
  by (simp flip: dom_map_of_conv_image_fst add: update_conv')

lemma map_ok_update [go_map_simps]: "map_ok m \<Longrightarrow> map_ok (AList.update k v m)"
  by (rule distinct_update)

lemma map_ok_delete [go_map_simps]: "map_ok m \<Longrightarrow> map_ok (AList.delete k m)"
  by (rule distinct_delete)

lemma slice_get_update [go_map_simps]:
  "slice_get (AList.update k v m) k' = (if k' = k then v else slice_get m k')"
  by (simp add: slice_get_def map_of_update)

lemma slice_get_append [go_map_simps]:
  "slice_get (slice_append k xs m) k' = (if k' = k then slice_get m k @ xs else slice_get m k')"
  by (simp add: slice_append_def slice_get_def go_map_simps)

lemma map_keys_slice_append [go_map_simps]:
  "map_keys (slice_append k xs m) = insert k (map_keys m)"
  by (simp add: slice_append_def map_keys_update)

lemma map_ok_slice_append [go_map_simps]: "map_ok m \<Longrightarrow> map_ok (slice_append k xs m)"
  by (simp add: slice_append_def map_ok_update)

lemma slice_get_empty [simp]: "slice_get [] k = []"
  by (simp add: slice_get_def)

lemma slice_get_mem: "map_ok m \<Longrightarrow> (k, xs) \<in> set m \<Longrightarrow> slice_get m k = xs"
  by (simp add: slice_get_def)

lemma map_of_eq_None_keys: "map_of m k = None \<longleftrightarrow> k \<notin> map_keys m"
  by (simp add: map_of_eq_None_iff)

lemma slice_get_notin: "k \<notin> map_keys m \<Longrightarrow> slice_get m k = []"
  by (simp add: slice_get_def map_of_eq_None_keys [THEN iffD2])

subsection \<open>Maps to maps to slices\<close>

text \<open>
  The code keeps tables such as image name \<open>\<rightarrow>\<close> stage ID \<open>\<rightarrow>\<close> commits and appends to them with
  \<open>inner, ok := m[k]; if !ok { inner = map{} }; inner[j] = append(inner[j], xs...); m[k] = inner\<close>.
\<close>

definition map_get :: "('k, ('j, 'v) go_map) go_map \<Rightarrow> 'k \<Rightarrow> ('j, 'v) go_map" where
  "map_get m k = (case map_of m k of None \<Rightarrow> [] | Some inner \<Rightarrow> inner)"

definition slice_append2 ::
  "'k \<Rightarrow> 'j \<Rightarrow> 'v list \<Rightarrow> ('k, ('j, 'v list) go_map) go_map \<Rightarrow> ('k, ('j, 'v list) go_map) go_map" where
  "slice_append2 k j xs m = AList.update k (slice_append j xs (map_get m k)) m"

lemma map_get_empty [simp]: "map_get [] k = []"
  by (simp add: map_get_def)

lemma map_get_append2 [go_map_simps]:
  "map_get (slice_append2 k j xs m) k' =
     (if k' = k then slice_append j xs (map_get m k) else map_get m k')"
  by (simp add: slice_append2_def map_get_def go_map_simps)

lemma map_keys_append2 [go_map_simps]: "map_keys (slice_append2 k j xs m) = insert k (map_keys m)"
  by (simp add: slice_append2_def map_keys_update)

lemma map_ok_append2 [go_map_simps]: "map_ok m \<Longrightarrow> map_ok (slice_append2 k j xs m)"
  by (simp add: slice_append2_def map_ok_update)

lemma map_get_mem: "map_ok m \<Longrightarrow> (k, inner) \<in> set m \<Longrightarrow> map_get m k = inner"
  by (simp add: map_get_def)

lemma map_get_notin: "k \<notin> map_keys m \<Longrightarrow> map_get m k = []"
  by (simp add: map_get_def map_of_eq_None_keys [THEN iffD2])

text \<open>The tables a loop builds by appending one entry per selected element.\<close>

lemma slice_get_fold_append:
  "slice_get (foldl (\<lambda>r x. if P x then slice_append (k x) (v x) r else r) r0 xs) k' =
     slice_get r0 k' @ concat (map v (filter (\<lambda>x. P x \<and> k x = k') xs))"
  by (induction xs arbitrary: r0) (auto simp: go_map_simps)

lemma map_keys_fold_append:
  "map_keys (foldl (\<lambda>r x. if P x then slice_append (k x) (v x) r else r) r0 xs) =
     map_keys r0 \<union> k ` {x \<in> set xs. P x}"
  by (induction xs arbitrary: r0) (auto simp: map_keys_slice_append)

lemma map_ok_fold_append:
  "map_ok r0 \<Longrightarrow> map_ok (foldl (\<lambda>r x. if P x then slice_append (k x) (v x) r else r) r0 xs)"
  by (induction xs arbitrary: r0) (simp_all add: map_ok_slice_append)

lemma map_get_fold_append2:
  "map_get (foldl (\<lambda>r x. if P x then slice_append2 (n x) (k x) (v x) r else r) r0 xs) n' =
     foldl (\<lambda>r x. if P x \<and> n x = n' then slice_append (k x) (v x) r else r) (map_get r0 n') xs"
  by (induction xs arbitrary: r0) (auto simp: map_get_append2)

lemma map_keys_fold_append2:
  "map_keys (foldl (\<lambda>r x. if P x then slice_append2 (n x) (k x) (v x) r else r) r0 xs) =
     map_keys r0 \<union> n ` {x \<in> set xs. P x}"
  by (induction xs arbitrary: r0) (auto simp: map_keys_append2)

lemma map_ok_fold_append2:
  "map_ok r0 \<Longrightarrow> map_ok (foldl (\<lambda>r x. if P x then slice_append2 (n x) (k x) (v x) r else r) r0 xs)"
  by (induction xs arbitrary: r0) (simp_all add: map_ok_append2)

lemmas fold_append_simps =
  slice_get_fold_append map_keys_fold_append map_ok_fold_append
  map_get_fold_append2 map_keys_fold_append2 map_ok_fold_append2

lemma foldl_filter: "foldl f a (filter P xs) = foldl (\<lambda>a x. if P x then f a x else a) a xs"
  by (induction xs arbitrary: a) auto

lemma map_keys_nonempty: "map_keys m = {} \<longleftrightarrow> m = []"
  by (cases m) auto

lemma map_ok_card: "map_ok m \<Longrightarrow> card (map_keys m) = length m"
  by (metis distinct_card length_map list.set_map)

subsection \<open>Slices as sets\<close>

text \<open>The in-place idiom \<open>append unless present\<close> (\<open>appendUnique\<close> and its kin).\<close>

definition append_new :: "'a list \<Rightarrow> 'a \<Rightarrow> 'a list" where
  "append_new xs x = (if x \<in> set xs then xs else xs @ [x])"

lemma set_append_new [simp]: "set (append_new xs x) = insert x (set xs)"
  by (auto simp: append_new_def)

lemma distinct_append_new [simp]: "distinct xs \<Longrightarrow> distinct (append_new xs x)"
  by (simp add: append_new_def)

lemma set_foldl_append_new [simp]: "set (foldl append_new xs ys) = set xs \<union> set ys"
  by (induction ys arbitrary: xs) auto

lemma distinct_foldl_append_new [simp]: "distinct xs \<Longrightarrow> distinct (foldl append_new xs ys)"
  by (induction ys arbitrary: xs) auto

lemma find_append_eq:
  "find P (xs @ ys) = (case find P xs of None \<Rightarrow> find P ys | Some x \<Rightarrow> Some x)"
  by (induction xs) auto

lemma find_SomeD: "find P xs = Some x \<Longrightarrow> x \<in> set xs \<and> P x"
  by (auto simp: find_Some_iff)

subsection \<open>Results\<close>

text \<open>
  A function of the program that returns \<open>(T, error)\<close> is a function into a sum; a loop
  whose body may fail stops at the first error.
\<close>

fun fold_res :: "('s \<Rightarrow> 'a \<Rightarrow> 'e + 's) \<Rightarrow> 's \<Rightarrow> 'a list \<Rightarrow> 'e + 's" where
  "fold_res f s [] = Inr s"
| "fold_res f s (x # xs) = (case f s x of Inl e \<Rightarrow> Inl e | Inr s' \<Rightarrow> fold_res f s' xs)"

lemma fold_res_append:
  "fold_res f s (xs @ ys) =
     (case fold_res f s xs of Inl e \<Rightarrow> Inl e | Inr s' \<Rightarrow> fold_res f s' ys)"
  by (induction xs arbitrary: s) (auto split: sum.splits)

lemma fold_res_invariant:
  assumes "fold_res f s xs = Inr s'" and "P s"
    and "\<And>s x s'. x \<in> set xs \<Longrightarrow> P s \<Longrightarrow> f s x = Inr s' \<Longrightarrow> P s'"
  shows "P s'"
  using assms
proof (induction xs arbitrary: s)
  case Nil
  then show ?case by simp
next
  case (Cons x xs)
  from Cons.prems(1) obtain t where t: "f s x = Inr t" "fold_res f t xs = Inr s'"
    by (auto split: sum.splits)
  have "P t" using Cons.prems(2) Cons.prems(3) [of x s t] t(1) by simp
  then show ?case using Cons.prems(3) by (intro Cons.IH [OF t(2)]) auto
qed

end
