(* ===== verification/Parallel_Tasks.thy ===== *)
theory Parallel_Tasks
  imports Werf_Prelude
begin

text \<open>
  The task runner of \<open>src/pkg/util/parallel/parallel.go\<close>: how \<open>DoTasks\<close> splits the
  tasks \<open>0, \<dots>, n-1\<close> over its workers (\<open>calculateTasksDistribution\<close>,
  \<open>calculateTaskId\<close>) and how the workers run them.
\<close>

definition calculateTaskId :: "nat \<Rightarrow> nat \<Rightarrow> nat \<Rightarrow> nat \<Rightarrow> nat" where
  "calculateTaskId tasksNumber workersNumber workerInd workerTaskId =
     (let taskId = workerInd * (tasksNumber div workersNumber) + workerTaskId;
          rest = tasksNumber mod workersNumber
      in if rest \<noteq> 0
         then if rest > workerInd then taskId + workerInd else taskId + rest
         else taskId)"

definition calculateTasksDistribution :: "nat \<Rightarrow> int \<Rightarrow> nat \<times> nat list" where
  "calculateTasksDistribution numberOfTasks maxNumberOfWorkers =
     (let numberOfWorkers =
            (if maxNumberOfWorkers \<le> 0 \<or> maxNumberOfWorkers > int numberOfTasks
             then numberOfTasks else nat maxNumberOfWorkers)
      in (numberOfWorkers,
          map (\<lambda>i. let workerNumberOfTasks = numberOfTasks div numberOfWorkers;
                        rest = numberOfTasks mod numberOfWorkers
                    in if rest > i then workerNumberOfTasks + 1 else workerNumberOfTasks)
              [0..<numberOfWorkers]))"

text \<open>The tasks of one worker, in the order in which it runs them.\<close>

definition worker_tasks :: "nat \<Rightarrow> int \<Rightarrow> nat \<Rightarrow> nat list" where
  "worker_tasks numberOfTasks maxNumberOfWorkers w =
     (let (numberOfWorkers, perWorker) = calculateTasksDistribution numberOfTasks maxNumberOfWorkers
      in map (calculateTaskId numberOfTasks numberOfWorkers w) [0..<perWorker ! w])"

lemma concat_intervals:
  assumes "\<And>i. s i \<le> s (Suc i)"
  shows "concat (map (\<lambda>i. [s i..<s (Suc i)]) [0..<n]) = [s 0..<s n]"
proof (induction n)
  case (Suc n)
  have le: "s 0 \<le> s n" using assms by (rule lift_Suc_mono_le) simp
  show ?case using Suc upt_add_eq_append [OF le, of "s (Suc n) - s n"] assms [of n] by simp
qed simp

lemma calculateTaskId_offset:
  "calculateTaskId n w i j = calculateTaskId n w i 0 + j"
  by (simp add: calculateTaskId_def Let_def)

lemma calculateTaskId_start:
  "0 < w \<Longrightarrow> calculateTaskId n w i 0 = i * (n div w) + min i (n mod w)"
  by (auto simp: calculateTaskId_def Let_def min_def)

lemma worker_tasks_interval:
  assumes "i < fst (calculateTasksDistribution n m)"
  defines "w \<equiv> fst (calculateTasksDistribution n m)"
  defines "s \<equiv> \<lambda>i. i * (n div w) + min i (n mod w)"
  shows "worker_tasks n m i = [s i..<s (Suc i)]"
proof -
  have w: "0 < w" "i < w" using assms(1) by (auto simp: w_def)
  have per: "snd (calculateTasksDistribution n m) ! i =
      (if n mod w > i then n div w + 1 else n div w)"
    using w by (simp add: w_def calculateTasksDistribution_def Let_def)
  have step: "s (Suc i) = s i + snd (calculateTasksDistribution n m) ! i"
    unfolding per by (simp add: s_def min_def)
  have "worker_tasks n m i =
      map (\<lambda>j. s i + j) [0..<snd (calculateTasksDistribution n m) ! i]"
    using w calculateTaskId_start [of w n i] calculateTaskId_offset [of n w i]
    by (simp add: worker_tasks_def w_def s_def case_prod_beta)
  also have "\<dots> = [s i..<s i + snd (calculateTasksDistribution n m) ! i]"
    by (rule nth_equalityI) auto
  finally show ?thesis unfolding step .
qed

lemma worker_tasks_concat:
  "concat (map (worker_tasks n m) [0..<fst (calculateTasksDistribution n m)]) = [0..<n]"
proof -
  define w where "w = fst (calculateTasksDistribution n m)"
  define s where "s = (\<lambda>i. i * (n div w) + min i (n mod w))"
  have "map (worker_tasks n m) [0..<w] = map (\<lambda>i. [s i..<s (Suc i)]) [0..<w]"
    by (rule map_cong) (auto simp: worker_tasks_interval w_def s_def)
  moreover have "\<And>i. s i \<le> s (Suc i)" by (simp add: s_def min_def)
  ultimately have "concat (map (worker_tasks n m) [0..<w]) = [s 0..<s w]"
    by (simp only: concat_intervals)
  moreover have "s w = n"
  proof (cases "w = 0")
    case True
    then have "n = 0" by (auto simp: w_def calculateTasksDistribution_def Let_def split: if_splits)
    with True show ?thesis by (simp add: s_def)
  next
    case False
    then have "min w (n mod w) = n mod w" using mod_less_divisor [of w n] by linarith
    then show ?thesis by (simp add: s_def)
  qed
  ultimately show ?thesis by (simp add: w_def s_def)
qed

subsection \<open>Running the tasks\<close>

text \<open>
  A state of the errgroup of \<open>DoTasks\<close>: for each worker the loop variable
  \<open>workerTaskId\<close> and whether its goroutine still runs, has returned nil, has returned
  the error of a task or has returned \<open>ctx.Err()\<close>; whether the group's context is
  cancelled; and the tasks started so far, in the order of their start. A worker checks the
  context before every task. The errgroup cancels the context some time after the first
  goroutine has returned an error, and the caller's context may be cancelled at any time
  (SIGINT, SIGTERM). \<open>taskFails\<close> says which tasks return an error.
\<close>

datatype worker_status = Running | Returned_nil | Returned_task_error nat | Returned_ctx_err

record task_group =
  workerTaskId :: "nat \<Rightarrow> nat"
  status :: "nat \<Rightarrow> worker_status"
  canceled :: bool
  started :: "nat list"

definition init_group :: task_group where
  "init_group = \<lparr>workerTaskId = (\<lambda>_. 0), status = (\<lambda>_. Running), canceled = False, started = []\<rparr>"

abbreviation numberOfWorkers :: "nat \<Rightarrow> int \<Rightarrow> nat" where
  "numberOfWorkers n m \<equiv> fst (calculateTasksDistribution n m)"

abbreviation tasksPerWorker :: "nat \<Rightarrow> int \<Rightarrow> nat \<Rightarrow> nat" where
  "tasksPerWorker n m w \<equiv> snd (calculateTasksDistribution n m) ! w"

inductive task_step :: "nat \<Rightarrow> int \<Rightarrow> (nat \<Rightarrow> bool) \<Rightarrow> task_group \<Rightarrow> task_group \<Rightarrow> bool"
  for n m taskFails where
  task_ok: "w < numberOfWorkers n m \<Longrightarrow> status g w = Running \<Longrightarrow> \<not> canceled g \<Longrightarrow>
    workerTaskId g w < tasksPerWorker n m w \<Longrightarrow>
    t = calculateTaskId n (numberOfWorkers n m) w (workerTaskId g w) \<Longrightarrow> \<not> taskFails t \<Longrightarrow>
    task_step n m taskFails g
      (g\<lparr>workerTaskId := (workerTaskId g)(w := Suc (workerTaskId g w)), started := started g @ [t]\<rparr>)"
| task_error: "w < numberOfWorkers n m \<Longrightarrow> status g w = Running \<Longrightarrow> \<not> canceled g \<Longrightarrow>
    workerTaskId g w < tasksPerWorker n m w \<Longrightarrow>
    t = calculateTaskId n (numberOfWorkers n m) w (workerTaskId g w) \<Longrightarrow> taskFails t \<Longrightarrow>
    task_step n m taskFails g
      (g\<lparr>status := (status g)(w := Returned_task_error t), started := started g @ [t]\<rparr>)"
| ctx_done: "w < numberOfWorkers n m \<Longrightarrow> status g w = Running \<Longrightarrow> canceled g \<Longrightarrow>
    workerTaskId g w < tasksPerWorker n m w \<Longrightarrow>
    task_step n m taskFails g (g\<lparr>status := (status g)(w := Returned_ctx_err)\<rparr>)"
| worker_end: "w < numberOfWorkers n m \<Longrightarrow> status g w = Running \<Longrightarrow>
    workerTaskId g w = tasksPerWorker n m w \<Longrightarrow>
    task_step n m taskFails g (g\<lparr>status := (status g)(w := Returned_nil)\<rparr>)"
| cancel: "task_step n m taskFails g (g\<lparr>canceled := True\<rparr>)"

inductive_cases task_stepE: "task_step n m taskFails g g'"

text \<open>\<open>g.Wait()\<close> returns once every goroutine has returned, and its result is nil only if
  every worker returned nil (the printer's goroutine, whose failure cancels the context, and
  the setup of a worker can fail besides).\<close>

definition all_returned :: "nat \<Rightarrow> int \<Rightarrow> task_group \<Rightarrow> bool" where
  "all_returned n m g \<longleftrightarrow> (\<forall>w < numberOfWorkers n m. status g w \<noteq> Running)"

definition DoTasks_nil :: "nat \<Rightarrow> int \<Rightarrow> task_group \<Rightarrow> bool" where
  "DoTasks_nil n m g \<longleftrightarrow> (\<forall>w < numberOfWorkers n m. status g w = Returned_nil)"

text \<open>How many tasks a worker has started.\<close>

definition n_started :: "task_group \<Rightarrow> nat \<Rightarrow> nat" where
  "n_started g w =
     (case status g w of Returned_task_error _ \<Rightarrow> Suc (workerTaskId g w) | _ \<Rightarrow> workerTaskId g w)"

definition group_inv :: "nat \<Rightarrow> int \<Rightarrow> (nat \<Rightarrow> bool) \<Rightarrow> task_group \<Rightarrow> bool" where
  "group_inv n m taskFails g \<longleftrightarrow>
     mset (started g) = (\<Sum>w < numberOfWorkers n m. mset (take (n_started g w) (worker_tasks n m w))) \<and>
     (\<forall>w < numberOfWorkers n m. n_started g w \<le> tasksPerWorker n m w) \<and>
     (\<forall>w < numberOfWorkers n m. status g w = Returned_nil \<longrightarrow> workerTaskId g w = tasksPerWorker n m w) \<and>
     (\<forall>w < numberOfWorkers n m. \<forall>t. status g w = Returned_task_error t \<longrightarrow> taskFails t) \<and>
     (\<forall>t \<in> set (started g). taskFails t \<longrightarrow>
        (\<exists>w < numberOfWorkers n m. status g w = Returned_task_error t))"

lemma length_worker_tasks [simp]: "length (worker_tasks n m w) = tasksPerWorker n m w"
  by (simp add: worker_tasks_def case_prod_beta)

lemma nth_worker_tasks:
  "i < tasksPerWorker n m w \<Longrightarrow> worker_tasks n m w ! i = calculateTaskId n (numberOfWorkers n m) w i"
  by (simp add: worker_tasks_def case_prod_beta)

lemma sum_mset_started:
  "(\<Sum>w < numberOfWorkers n m. mset (worker_tasks n m w)) = mset [0..<n]"
proof -
  have "mset (concat (map f [0..<k])) = (\<Sum>w < k. mset (f w))" for f :: "nat \<Rightarrow> nat list" and k
    by (induction k) (simp_all add: add.commute)
  then show ?thesis using worker_tasks_concat [of n m] by metis
qed

lemma sum_lessThan_bump:
  fixes f f' :: "nat \<Rightarrow> 'a multiset"
  assumes "w < k" and "f' w = f w + {#t#}" and "\<And>v. v \<noteq> w \<Longrightarrow> f' v = f v"
  shows "(\<Sum>v < k. f' v) = (\<Sum>v < k. f v) + {#t#}"
proof -
  have "(\<Sum>v < k. f' v) = f' w + (\<Sum>v \<in> {..<k} - {w}. f' v)"
    using assms(1) by (simp add: sum.remove)
  also have "(\<Sum>v \<in> {..<k} - {w}. f' v) = (\<Sum>v \<in> {..<k} - {w}. f v)"
    using assms(3) by (intro sum.cong) auto
  also have "f' w + \<dots> = (\<Sum>v < k. f v) + {#t#}"
    using assms(1,2) by (simp add: sum.remove [of "{..<k}" w f])
  finally show ?thesis .
qed

lemma mset_started_bump:
  assumes "group_inv n m taskFails g" and "w < numberOfWorkers n m"
    and "n_started g w = workerTaskId g w" and "workerTaskId g w < tasksPerWorker n m w"
    and "t = calculateTaskId n (numberOfWorkers n m) w (workerTaskId g w)"
    and "n_started g' w = Suc (workerTaskId g w)"
    and "\<And>v. v \<noteq> w \<Longrightarrow> n_started g' v = n_started g v"
  shows "mset (started g @ [t]) =
    (\<Sum>v < numberOfWorkers n m. mset (take (n_started g' v) (worker_tasks n m v)))"
proof -
  have "mset (take (n_started g' w) (worker_tasks n m w)) =
      mset (take (n_started g w) (worker_tasks n m w)) + {#t#}"
    using assms(3-6) by (simp add: take_Suc_conv_app_nth nth_worker_tasks)
  from sum_lessThan_bump [OF assms(2), of "\<lambda>v. mset (take (n_started g' v) (worker_tasks n m v))"
      "\<lambda>v. mset (take (n_started g v) (worker_tasks n m v))", OF this]
  show ?thesis using assms(1,7) by (simp add: group_inv_def)
qed

lemma group_inv_init: "group_inv n m taskFails init_group"
  by (simp add: group_inv_def init_group_def n_started_def)

lemma n_started_ok:
  "n_started (g\<lparr>workerTaskId := (workerTaskId g)(w := Suc (workerTaskId g w)), started := ts\<rparr>) =
     (n_started g)(w := Suc (n_started g w))"
  by (auto simp: n_started_def fun_eq_iff split: worker_status.splits)

lemma n_started_error:
  "n_started (g\<lparr>status := (status g)(w := Returned_task_error t), started := ts\<rparr>) =
     (n_started g)(w := Suc (workerTaskId g w))"
  by (auto simp: n_started_def fun_eq_iff split: worker_status.splits)

lemma other_error_kept:
  assumes "\<exists>v < k. f v = Returned_task_error x" and "f w = Running"
  shows "\<exists>v < k. (f(w := s)) v = Returned_task_error x"
proof -
  from assms(1) obtain v where "v < k" "f v = Returned_task_error x" by blast
  with assms(2) show ?thesis by (intro exI [of _ v]) auto
qed

lemma task_step_inv:
  assumes "task_step n m taskFails g g'" and inv: "group_inv n m taskFails g"
  shows "group_inv n m taskFails g'"
  using assms(1)
proof (cases rule: task_step.cases)
  case (task_ok w t)
  then have run: "n_started g w = workerTaskId g w" by (simp add: n_started_def)
  with task_ok have "mset (started g @ [t]) =
      (\<Sum>v < numberOfWorkers n m. mset (take (n_started g' v) (worker_tasks n m v)))"
    by (intro mset_started_bump [OF inv]) (auto simp: n_started_ok)
  with task_ok run inv show ?thesis by (auto simp: group_inv_def n_started_ok)
next
  case (task_error w t)
  then have run: "n_started g w = workerTaskId g w" by (simp add: n_started_def)
  with task_error have ms: "mset (started g @ [t]) =
      (\<Sum>v < numberOfWorkers n m. mset (take (n_started g' v) (worker_tasks n m v)))"
    by (intro mset_started_bump [OF inv]) (auto simp: n_started_error)
  have "\<exists>v < numberOfWorkers n m. status g' v = Returned_task_error x"
    if "x \<in> set (started g')" "taskFails x" for x
  proof (cases "x = t")
    case False
    with that task_error inv obtain v where "v < numberOfWorkers n m" "status g v = Returned_task_error x"
      by (auto simp: group_inv_def)
    with task_error show ?thesis by (intro exI [of _ v]) auto
  qed (use task_error in auto)
  with ms task_error run inv show ?thesis by (auto simp: group_inv_def n_started_error)
next
  case (ctx_done w)
  have "n_started g' = n_started g" using ctx_done by (auto simp: n_started_def fun_eq_iff split: worker_status.splits)
  moreover have "\<exists>v < numberOfWorkers n m. status g' v = Returned_task_error x"
    if "\<exists>v < numberOfWorkers n m. status g v = Returned_task_error x" for x
    using other_error_kept [OF that ctx_done(3), of Returned_ctx_err] ctx_done(1) by simp
  ultimately show ?thesis using ctx_done inv by (auto simp: group_inv_def)
next
  case (worker_end w)
  have "n_started g' = n_started g" using worker_end by (auto simp: n_started_def fun_eq_iff split: worker_status.splits)
  moreover have "\<exists>v < numberOfWorkers n m. status g' v = Returned_task_error x"
    if "\<exists>v < numberOfWorkers n m. status g v = Returned_task_error x" for x
    using other_error_kept [OF that worker_end(3), of Returned_nil] worker_end(1) by simp
  ultimately show ?thesis using worker_end inv by (auto simp: group_inv_def)
next
  case cancel
  then have "n_started g' = n_started g" by (auto simp: n_started_def fun_eq_iff split: worker_status.splits)
  with cancel show ?thesis using inv by (simp add: group_inv_def)
qed

definition group_run :: "nat \<Rightarrow> int \<Rightarrow> (nat \<Rightarrow> bool) \<Rightarrow> task_group \<Rightarrow> bool" where
  "group_run n m taskFails = (task_step n m taskFails)\<^sup>*\<^sup>* init_group"

lemma group_run_inv: "group_run n m taskFails g \<Longrightarrow> group_inv n m taskFails g"
  unfolding group_run_def
  by (induction rule: rtranclp_induct) (auto intro: group_inv_init task_step_inv)

text \<open>The tasks \<open>0, \<dots>, n-1\<close> are split over the workers without loss or overlap:
  written one after the other in the order of the workers, the tasks of the workers are
  exactly \<open>0, \<dots>, n-1\<close>, for every number of tasks and every limit on the workers.\<close>

theorem task_distribution_exact:
  "concat (map (\<lambda>w. map (calculateTaskId n (numberOfWorkers n m) w) [0..<tasksPerWorker n m w])
            [0..<numberOfWorkers n m]) = [0..<n]"
  using worker_tasks_concat [of n m] unfolding worker_tasks_def by (simp add: case_prod_beta)

text \<open>The tasks started so far and those still to come make up \<open>0, \<dots>, n-1\<close>.\<close>

lemma started_part:
  assumes "group_inv n m taskFails g"
  obtains ts where "mset (started g @ ts) = mset [0..<n]"
    and "DoTasks_nil n m g \<longrightarrow> ts = []"
proof -
  let ?W = "{..<numberOfWorkers n m}"
  let ?rest = "\<Sum>w \<in> ?W. mset (drop (n_started g w) (worker_tasks n m w))"
  have "mset (started g) + ?rest = (\<Sum>w \<in> ?W. mset (worker_tasks n m w))"
    using assms by (simp add: group_inv_def flip: sum.distrib mset_append)
  then have split: "mset (started g) + ?rest = mset [0..<n]" by (simp add: sum_mset_started)
  obtain ts where ts: "mset ts = ?rest" using ex_mset by blast
  have "?rest = {#}" if "DoTasks_nil n m g"
    using that assms by (auto simp: DoTasks_nil_def group_inv_def n_started_def intro!: sum.neutral)
  then have "DoTasks_nil n m g \<longrightarrow> ts = []" using ts by (metis mset_zero_iff)
  then show thesis using split ts by (intro that [of ts]) simp_all
qed

text \<open>C32: in every interleaving of the workers no task is started twice, and when \<open>DoTasks\<close>
  returns nil every task has run exactly once and none of them returned an error.\<close>

theorem DoTasks_runs_each_task_once:
  assumes "group_run n m taskFails g"
  shows "distinct (started g) \<and> set (started g) \<subseteq> {..<n} \<and>
    (DoTasks_nil n m g \<longrightarrow> set (started g) = {..<n} \<and> (\<forall>t < n. \<not> taskFails t))"
proof -
  have inv: "group_inv n m taskFails g" using assms by (rule group_run_inv)
  then obtain ts where ts: "mset (started g @ ts) = mset [0..<n]"
    and nil: "DoTasks_nil n m g \<longrightarrow> ts = []" by (rule started_part)
  from ts have set: "set (started g) \<union> set ts = {..<n}"
    by (metis atLeast_upt mset_eq_setD set_append)
  from ts have "distinct (started g @ ts)" by (metis distinct_upt mset_eq_imp_distinct_iff)
  moreover have "\<not> taskFails t" if "DoTasks_nil n m g" "t < n" for t
  proof
    assume "taskFails t"
    moreover have "t \<in> set (started g)" using set nil that by auto
    ultimately obtain w where "w < numberOfWorkers n m" "status g w = Returned_task_error t"
      using inv by (auto simp: group_inv_def)
    with that(1) show False by (simp add: DoTasks_nil_def)
  qed
  ultimately show ?thesis using set nil by auto
qed

theorem DoTasks_runs_each_task_once_witness:
  "let g = \<lparr>workerTaskId = (\<lambda>_. 0)(0 := 1), status = (\<lambda>_. Running), canceled = False, started = [0]\<rparr>
   in group_run 2 2 (\<lambda>_. False) g \<and> distinct (started g) \<and> set (started g) \<subseteq> {..<2}"
proof -
  let ?g = "\<lparr>workerTaskId = (\<lambda>_. 0)(0 := 1), status = (\<lambda>_. Running), canceled = False, started = [0]\<rparr>"
  have d: "calculateTasksDistribution 2 2 = (2, [1, 1])" by code_simp
  have "task_step 2 2 (\<lambda>_. False) init_group ?g"
    using task_ok [of 0 2 2 init_group 0 "\<lambda>_. False"]
    by (simp add: d init_group_def calculateTaskId_def)
  then have run: "group_run 2 2 (\<lambda>_. False) ?g" by (simp add: group_run_def r_into_rtranclp)
  show ?thesis using run DoTasks_runs_each_task_once [OF run] by (simp add: Let_def)
qed

text \<open>A measure of what the workers still have to do.\<close>

definition work_left :: "nat \<Rightarrow> int \<Rightarrow> task_group \<Rightarrow> nat" where
  "work_left n m g =
     (\<Sum>w < numberOfWorkers n m. if status g w = Running then Suc (tasksPerWorker n m w - workerTaskId g w) else 0)
     + (if canceled g then 0 else 1)"

lemma sum_lessThan_drop:
  fixes f f' :: "nat \<Rightarrow> nat"
  assumes "w < k" and "f' w < f w" and "\<And>v. v \<noteq> w \<Longrightarrow> f' v = f v"
  shows "(\<Sum>v < k. f' v) < (\<Sum>v < k. f v)"
proof (rule sum_strict_mono_ex1)
  show "\<forall>v \<in> {..<k}. f' v \<le> f v" using assms(2,3) by (metis order.refl less_imp_le)
  show "\<exists>v \<in> {..<k}. f' v < f v" using assms(1,2) by blast
qed simp

lemma task_step_work:
  assumes "task_step n m taskFails g g'"
  shows "g' = g \<or> work_left n m g' < work_left n m g"
  using assms
proof (cases rule: task_step.cases)
  case (task_ok w t)
  then show ?thesis unfolding work_left_def
    by (intro disjI2 add_less_le_mono sum_lessThan_drop [of w]) auto
next
  case (task_error w t)
  then show ?thesis unfolding work_left_def
    by (intro disjI2 add_less_le_mono sum_lessThan_drop [of w]) auto
next
  case (ctx_done w)
  then show ?thesis unfolding work_left_def
    by (intro disjI2 add_less_le_mono sum_lessThan_drop [of w]) auto
next
  case (worker_end w)
  then show ?thesis unfolding work_left_def
    by (intro disjI2 add_less_le_mono sum_lessThan_drop [of w]) auto
next
  case cancel
  then show ?thesis by (cases "canceled g") (simp_all add: work_left_def cong: if_cong)
qed

lemma running_has_step:
  assumes "group_inv n m taskFails g" and "w < numberOfWorkers n m" and "status g w = Running"
  shows "\<exists>g'. task_step n m taskFails g g' \<and> (status g' w \<noteq> Running \<or> started g' \<noteq> started g)"
proof -
  let ?t = "calculateTaskId n (numberOfWorkers n m) w (workerTaskId g w)"
  have "n_started g w \<le> tasksPerWorker n m w" using assms by (simp add: group_inv_def)
  then consider (fin) "workerTaskId g w = tasksPerWorker n m w"
    | (ctx) "workerTaskId g w < tasksPerWorker n m w" "canceled g"
    | (bad) "workerTaskId g w < tasksPerWorker n m w" "\<not> canceled g" "taskFails ?t"
    | (good) "workerTaskId g w < tasksPerWorker n m w" "\<not> canceled g" "\<not> taskFails ?t"
    using assms(3) by (fastforce simp: n_started_def)
  then show ?thesis
  proof cases
    case fin
    then show ?thesis using assms(2,3) by (intro exI conjI, rule_tac worker_end [of w]) auto
  next
    case ctx
    then show ?thesis using assms(2,3) by (intro exI conjI, rule_tac ctx_done [of w]) auto
  next
    case bad
    then show ?thesis using assms(2,3) by (intro exI conjI, rule_tac task_error [of w]) auto
  next
    case good
    then show ?thesis using assms(2,3) by (intro exI conjI, rule_tac task_ok [of w]) auto
  qed
qed

text \<open>C33: \<open>DoTasks\<close> never hangs on its workers: while some goroutine has not returned there is
  a step, every step that changes the state reduces the work that is left, and once all workers
  have returned, all of them returned nil unless a task failed or the context was cancelled.\<close>

theorem DoTasks_progress:
  assumes "group_inv n m taskFails g"
  shows "(\<not> all_returned n m g \<longrightarrow>
            (\<exists>g'. task_step n m taskFails g g' \<and> work_left n m g' < work_left n m g)) \<and>
         (\<forall>g'. task_step n m taskFails g g' \<longrightarrow> g' = g \<or> work_left n m g' < work_left n m g) \<and>
         (all_returned n m g \<and> \<not> DoTasks_nil n m g \<longrightarrow>
            (\<exists>w < numberOfWorkers n m. status g w = Returned_ctx_err \<or>
               (\<exists>t. taskFails t \<and> status g w = Returned_task_error t)))"
proof (intro conjI impI allI)
  assume "\<not> all_returned n m g"
  then show "\<exists>g'. task_step n m taskFails g g' \<and> work_left n m g' < work_left n m g"
    using running_has_step [OF assms] task_step_work by (metis all_returned_def)
next
  fix g' assume "task_step n m taskFails g g'"
  then show "g' = g \<or> work_left n m g' < work_left n m g" by (rule task_step_work)
next
  assume "all_returned n m g \<and> \<not> DoTasks_nil n m g"
  then obtain w where w: "w < numberOfWorkers n m" "status g w \<noteq> Running" "status g w \<noteq> Returned_nil"
    by (auto simp: all_returned_def DoTasks_nil_def)
  with assms show "\<exists>w < numberOfWorkers n m. status g w = Returned_ctx_err \<or>
      (\<exists>t. taskFails t \<and> status g w = Returned_task_error t)"
    by (intro exI [of _ w]) (cases "status g w"; auto simp: group_inv_def)
qed

theorem DoTasks_progress_witness:
  "group_inv 3 2 (\<lambda>_. True) init_group \<and> \<not> all_returned 3 2 init_group \<and>
   (\<exists>g'. task_step 3 2 (\<lambda>_. True) init_group g' \<and> work_left 3 2 g' < work_left 3 2 init_group)"
proof -
  have inv: "group_inv 3 2 (\<lambda>_. True) init_group" by (rule group_inv_init)
  have "calculateTasksDistribution 3 2 = (2, [2, 1])" by code_simp
  then have "\<not> all_returned 3 2 init_group"
    by (auto simp: all_returned_def init_group_def intro: exI [of _ 0])
  then show ?thesis using inv DoTasks_progress [OF inv] by blast
qed

end
