(* ===== verification/Go_Strings.thy ===== *)
theory Go_Strings
  imports Werf_Prelude "HOL-Library.Sublist"
begin

text \<open>
  The part of Go's packages \<open>strings\<close>, \<open>strconv\<close> and \<open>fmt\<close> that the modelled code uses. A
  Go string is a sequence of bytes, here a list of characters. Separators are never empty in
  the modelled code; the behaviour on an empty separator is Go's all the same.
\<close>

subsection \<open>Prefixes, suffixes and substrings\<close>

definition HasPrefix :: "string \<Rightarrow> string \<Rightarrow> bool" where
  "HasPrefix s p \<longleftrightarrow> take (length p) s = p"

definition HasSuffix :: "string \<Rightarrow> string \<Rightarrow> bool" where
  "HasSuffix s p \<longleftrightarrow> length p \<le> length s \<and> drop (length s - length p) s = p"

definition TrimPrefix :: "string \<Rightarrow> string \<Rightarrow> string" where
  "TrimPrefix s p = (if HasPrefix s p then drop (length p) s else s)"

definition TrimSuffix :: "string \<Rightarrow> string \<Rightarrow> string" where
  "TrimSuffix s p = (if HasSuffix s p then take (length s - length p) s else s)"

text \<open>\<open>strings.Cut\<close>: the text before and after the first occurrence of the separator.\<close>

fun Cut :: "string \<Rightarrow> string \<Rightarrow> (string \<times> string) option" where
  "Cut [] sep = (if sep = [] then Some ([], []) else None)"
| "Cut (c # cs) sep =
     (if HasPrefix (c # cs) sep then Some ([], drop (length sep) (c # cs))
      else case Cut cs sep of None \<Rightarrow> None | Some (a, b) \<Rightarrow> Some (c # a, b))"

definition Contains :: "string \<Rightarrow> string \<Rightarrow> bool" where
  "Contains s sub \<longleftrightarrow> Cut s sub \<noteq> None"

lemma HasPrefix_iff [simp]: "HasPrefix s p \<longleftrightarrow> (\<exists>t. s = p @ t)"
proof
  assume "HasPrefix s p"
  then have "s = p @ drop (length p) s" unfolding HasPrefix_def by (metis append_take_drop_id)
  then show "\<exists>t. s = p @ t" ..
qed (auto simp: HasPrefix_def)

lemma HasSuffix_iff [simp]: "HasSuffix s p \<longleftrightarrow> (\<exists>t. s = t @ p)"
proof
  assume "HasSuffix s p"
  then have "s = take (length s - length p) s @ p" unfolding HasSuffix_def by (metis append_take_drop_id)
  then show "\<exists>t. s = t @ p" ..
qed (auto simp: HasSuffix_def)

lemma TrimPrefix_append [simp]: "TrimPrefix (p @ s) p = s"
  by (simp add: TrimPrefix_def)

lemma TrimSuffix_append [simp]: "TrimSuffix (s @ p) p = s"
  by (simp add: TrimSuffix_def)

lemma Cut_SomeD: "Cut s sep = Some (a, b) \<Longrightarrow> s = a @ sep @ b"
proof (induction s sep arbitrary: a rule: Cut.induct)
  case (2 c cs sep)
  show ?case
  proof (cases "HasPrefix (c # cs) sep")
    case True
    with 2(2) show ?thesis by (auto simp del: HasPrefix_iff) (metis HasPrefix_def append_take_drop_id)
  next
    case False
    with 2(2) obtain a' where "Cut cs sep = Some (a', b)" "a = c # a'"
      by (auto simp del: HasPrefix_iff split: option.splits)
    with 2(1) [OF False] show ?thesis by simp
  qed
qed (auto split: if_splits)

lemma Cut_shorter: "Cut s sep = Some (a, b) \<Longrightarrow> sep \<noteq> [] \<Longrightarrow> length b < length s"
  by (drule Cut_SomeD) (cases sep, auto)

lemma Cut_None_notin: "c \<notin> set s \<Longrightarrow> Cut s [c] = None"
  by (induction s) auto

lemma Cut_single: "c \<notin> set a \<Longrightarrow> Cut (a @ c # b) [c] = Some (a, b)"
  by (induction a) auto

lemma Contains_iff: "Contains s sub \<longleftrightarrow> (\<exists>a b. s = a @ sub @ b)"
proof
  assume "Contains s sub"
  then show "\<exists>a b. s = a @ sub @ b" unfolding Contains_def using Cut_SomeD by fastforce
next
  have "Cut (a @ sub @ b) sub \<noteq> None" for a b
  proof (induction a)
    case Nil
    show ?case by (cases "sub @ b") (simp_all, metis)
  next
    case (Cons c a)
    then show ?case by (auto split: option.splits)
  qed
  then show "\<exists>a b. s = a @ sub @ b \<Longrightarrow> Contains s sub" unfolding Contains_def by auto
qed

subsection \<open>Splitting and joining\<close>

text \<open>\<open>strings.SplitN\<close> for a positive count and a nonempty separator.\<close>

fun SplitN :: "string \<Rightarrow> string \<Rightarrow> nat \<Rightarrow> string list" where
  "SplitN s sep 0 = []"
| "SplitN s sep (Suc 0) = [s]"
| "SplitN s sep (Suc (Suc n)) =
     (case Cut s sep of None \<Rightarrow> [s] | Some (a, b) \<Rightarrow> a # SplitN b sep (Suc n))"

function Split :: "string \<Rightarrow> string \<Rightarrow> string list" where
  "Split s sep =
     (if sep = [] then map (\<lambda>c. [c]) s
      else case Cut s sep of None \<Rightarrow> [s] | Some (a, b) \<Rightarrow> a # Split b sep)"
  by auto
termination by (relation "measure (\<lambda>(s, _). length s)") (auto dest: Cut_shorter)

declare Split.simps [simp del]

fun Join :: "string list \<Rightarrow> string \<Rightarrow> string" where
  "Join [] sep = []"
| "Join [x] sep = x"
| "Join (x # y # xs) sep = x @ sep @ Join (y # xs) sep"

lemma Split_nonempty: "sep \<noteq> [] \<Longrightarrow> Split s sep \<noteq> []"
  by (subst Split.simps) (auto split: option.splits)

lemma Join_Cons: "xs \<noteq> [] \<Longrightarrow> Join (x # xs) sep = x @ sep @ Join xs sep"
  by (cases xs) auto

lemma Join_Split: "sep \<noteq> [] \<Longrightarrow> Join (Split s sep) sep = s"
proof (induction s sep rule: Split.induct)
  case (1 s sep)
  then show ?case
    by (subst Split.simps) (auto split: option.splits dest: Cut_SomeD simp: Join_Cons Split_nonempty)
qed

lemma Split_single_notin: "c \<notin> set s \<Longrightarrow> Split s [c] = [s]"
  by (subst Split.simps) (simp add: Cut_None_notin)

lemma Split_single_append: "c \<notin> set a \<Longrightarrow> Split (a @ c # b) [c] = a # Split b [c]"
  by (subst Split.simps) (simp add: Cut_single)

lemma Split_parts_notin: "x \<in> set (Split s [c]) \<Longrightarrow> c \<notin> set x"
proof (induction s "[c]" arbitrary: x rule: Split.induct)
  case (1 s)
  have notin: "c \<notin> set a" if "Cut s [c] = Some (a, b)" for a b
    using that by (induction s arbitrary: a) (auto split: if_splits option.splits)
  have none: "c \<notin> set s" if "Cut s [c] = None"
    using that by (induction s) (auto split: if_splits option.splits)
  show ?case using 1 by (subst (asm) (2) Split.simps) (auto split: option.splits dest: notin none)
qed

subsection \<open>Decimal numbers\<close>

text \<open>\<open>%d\<close> of \<open>fmt\<close> for a signed 64-bit integer, and \<open>strconv.ParseInt(s, 10, 64)\<close>.\<close>

definition digit_char :: "nat \<Rightarrow> char" where
  "digit_char d = char_of (48 + d)"

fun nat_dec :: "nat \<Rightarrow> string" where
  "nat_dec n = (if n < 10 then [digit_char n] else nat_dec (n div 10) @ [digit_char (n mod 10)])"

definition int_dec :: "int \<Rightarrow> string" where
  "int_dec z = (if z < 0 then CHR ''-'' # nat_dec (nat (- z)) else nat_dec (nat z))"

definition is_digit :: "char \<Rightarrow> bool" where
  "is_digit c \<longleftrightarrow> 48 \<le> (of_char c :: nat) \<and> (of_char c :: nat) \<le> 57"

definition parse_digits :: "string \<Rightarrow> nat option" where
  "parse_digits s =
     (if s \<noteq> [] \<and> list_all is_digit s then Some (foldl (\<lambda>n c. 10 * n + (of_char c - 48)) 0 s) else None)"

definition int64_ok :: "int \<Rightarrow> bool" where
  "int64_ok z \<longleftrightarrow> - (2 ^ 63) \<le> z \<and> z < 2 ^ 63"

definition ParseInt :: "string \<Rightarrow> int option" where
  "ParseInt s =
     (let signed = (\<lambda>neg ds. case parse_digits ds of
            None \<Rightarrow> None
          | Some n \<Rightarrow> (let z = (if neg then - int n else int n) in if int64_ok z then Some z else None))
      in case s of
           [] \<Rightarrow> None
         | c # cs \<Rightarrow> if c = CHR ''-'' then signed True cs
                     else if c = CHR ''+'' then signed False cs
                     else signed False s)"

declare nat_dec.simps [simp del]

lemma of_char_digit_char: "d < 10 \<Longrightarrow> of_char (digit_char d) = 48 + d"
  by (simp add: digit_char_def)

lemma is_digit_digit_char: "d < 10 \<Longrightarrow> is_digit (digit_char d)"
  by (simp add: is_digit_def of_char_digit_char)

lemma nat_dec_digits: "c \<in> set (nat_dec n) \<Longrightarrow> is_digit c"
  by (induction n rule: nat_dec.induct) (subst (asm) (2) nat_dec.simps, auto split: if_splits intro: is_digit_digit_char)

lemma nat_dec_nonempty: "nat_dec n \<noteq> []"
  by (subst nat_dec.simps) simp

lemma parse_digits_nat_dec: "parse_digits (nat_dec n) = Some n"
proof -
  have "foldl (\<lambda>n c. 10 * n + (of_char c - 48)) 0 (nat_dec n) = n"
    by (induction n rule: nat_dec.induct) (subst nat_dec.simps, simp add: of_char_digit_char)
  then show ?thesis
    by (simp add: parse_digits_def nat_dec_nonempty list_all_iff nat_dec_digits)
qed

lemma digit_not_sign: "is_digit c \<Longrightarrow> c \<noteq> CHR ''-'' \<and> c \<noteq> CHR ''+'' \<and> c \<noteq> CHR ''_''"
  by (auto simp: is_digit_def)

lemma ParseInt_int_dec: "int64_ok z \<Longrightarrow> ParseInt (int_dec z) = Some z"
proof (cases "z < 0")
  case False
  assume "int64_ok z"
  obtain c cs where cs: "nat_dec (nat z) = c # cs" using nat_dec_nonempty by (cases "nat_dec (nat z)") auto
  then have "is_digit c" using nat_dec_digits by (metis list.set_intros(1))
  with False cs \<open>int64_ok z\<close> show ?thesis
    using parse_digits_nat_dec [of "nat z"] by (auto simp: ParseInt_def int_dec_def Let_def digit_not_sign)
qed (simp add: ParseInt_def int_dec_def parse_digits_nat_dec)

lemma int_dec_nonneg_chars: "0 \<le> z \<Longrightarrow> c \<in> set (int_dec z) \<Longrightarrow> is_digit c"
  by (auto simp: int_dec_def nat_dec_digits split: if_splits)

lemma nat_dec_inj: "nat_dec m = nat_dec n \<Longrightarrow> m = n"
  using parse_digits_nat_dec by (metis option.inject)

lemma int_dec_inj: "int_dec y = int_dec z \<Longrightarrow> y = z"
proof -
  have no_minus: "nat_dec n \<noteq> CHR ''-'' # cs" for n cs
    using nat_dec_digits [of "CHR ''-''" n] digit_not_sign by (metis list.set_intros(1))
  assume "int_dec y = int_dec z"
  then show ?thesis using no_minus no_minus [symmetric] by (auto simp: int_dec_def dest!: nat_dec_inj split: if_splits)
qed

end
