(* ===== verification/Stage_Desc.thy ===== *)
theory Stage_Desc
  imports Go_Strings
begin

text \<open>
  Stage identifiers and image descriptions: \<open>src/pkg/image/stage.go\<close>,
  \<open>src/pkg/image/info.go\<close> and the label names of \<open>src/pkg/image/const.go\<close>.

  A \<open>*StageDesc\<close> is compared by address in the cleanup code (it is the key of Go maps and the
  element of \<open>mapset.Set\<close>). A description is never written after it has been loaded, so a
  pointer is modelled by the description together with its address: two descriptions are the
  same pointer exactly when they are equal.
\<close>

subsection \<open>Identifiers\<close>

record StageID =
  Digest :: string
  CreationTs :: int
  IsMultiplatform :: bool

definition NewStageID :: "string \<Rightarrow> int \<Rightarrow> StageID" where
  "NewStageID digest creationTs =
     \<lparr>Digest = digest, CreationTs = creationTs, IsMultiplatform = (creationTs = 0)\<rparr>"

definition StageID_String :: "StageID \<Rightarrow> string" where
  "StageID_String i =
     (if CreationTs i = 0 then Digest i else Digest i @ ''-'' @ int_dec (CreationTs i))"

definition StageID_IsEqual :: "StageID \<Rightarrow> StageID \<Rightarrow> bool" where
  "StageID_IsEqual i another \<longleftrightarrow> Digest i = Digest another \<and> CreationTs i = CreationTs another"

definition ParseCreationTs :: "string \<Rightarrow> int option" where
  "ParseCreationTs = ParseInt"

text \<open>\<open>time.Unix(sec, nsec)\<close> as nanoseconds since the epoch; Go's integer division and
  remainder truncate towards zero.\<close>

definition go_div :: "int \<Rightarrow> int \<Rightarrow> int" where
  "go_div a b = sgn a * sgn b * (\<bar>a\<bar> div \<bar>b\<bar>)"

definition go_mod :: "int \<Rightarrow> int \<Rightarrow> int" where
  "go_mod a b = a - go_div a b * b"

definition time_Unix :: "int \<Rightarrow> int \<Rightarrow> int" where
  "time_Unix sec nsec = sec * 1000000000 + nsec"

definition CreationTsToTime :: "StageID \<Rightarrow> int" where
  "CreationTsToTime i = time_Unix (go_div (CreationTs i) 1000) (go_mod (CreationTs i) 1000)"

subsection \<open>Image descriptions\<close>

datatype Info = Info
  (iName: string) (iRepository: string) (iTag: string) (iRepoDigest: string)
  (iOnBuild: "string list") (iEnv: "string list") (iID: string) (iParentID: string)
  (iLabels: "(string, string) go_map") (iSize: int) (iCreatedAtUnixNano: int)
  (iVolumes: "string list") (iIsIndex: bool) (iIndex: "Info list")

datatype go_error = Err string | Panic string

definition WerfBaseImageIDLabel :: string where "WerfBaseImageIDLabel = ''werf.io/base-image-id''"

text \<open>\<open>GetDigest\<close> panics on a repo digest that does not consist of two parts.\<close>

definition GetDigest :: "Info \<Rightarrow> go_error + string" where
  "GetDigest info =
     (if iRepoDigest info = [] then Inr []
      else let parts = Split (iRepoDigest info) ''@''
           in if length parts \<noteq> 2 then Inl (Panic (''bad repo digest '' @ iRepoDigest info))
              else Inr (parts ! 1))"

definition SetCreatedAtUnix :: "int \<Rightarrow> Info \<Rightarrow> Info" where
  "SetCreatedAtUnix seconds info =
     (case info of Info a b c d e f g h l s _ v x i \<Rightarrow> Info a b c d e f g h l s (seconds * 1000000000) v x i)"

definition GetCreatedAt :: "Info \<Rightarrow> int" where
  "GetCreatedAt info =
     time_Unix (go_div (iCreatedAtUnixNano info) 1000000000) (go_mod (iCreatedAtUnixNano info) 1000000000)"

fun GetCopy :: "Info \<Rightarrow> Info" where
  "GetCopy (Info nm repo tag rd ob env i p l s c v x idx) =
     Info nm repo tag rd ob env i p l s c v x (map GetCopy idx)"

definition LogName :: "Info \<Rightarrow> string" where
  "LogName info = (if iName info = ''<none>:<none>'' then iID info else iName info)"

text \<open>\<open>util.Reverse\<close> comes from another repository and is a parameter.\<close>

definition ParseRepositoryAndTag :: "(string \<Rightarrow> string) \<Rightarrow> string \<Rightarrow> string \<times> string" where
  "ParseRepositoryAndTag Reverse ref =
     (let parts = SplitN (Reverse ref) '':'' 2
      in if length parts \<noteq> 2 then (ref, [])
         else (Reverse (parts ! 1), Reverse (parts ! 0)))"

definition NormalizeRepository :: "string \<Rightarrow> string" where
  "NormalizeRepository repository =
     TrimPrefix (TrimPrefix repository ''index.docker.io/library/'') ''docker.io/library/''"

fun ExtractRepoDigest :: "string list \<Rightarrow> string \<Rightarrow> string" where
  "ExtractRepoDigest [] repository = []"
| "ExtractRepoDigest (inspectRepoDigest # rest) repository =
     (let repoAndDigest = SplitN inspectRepoDigest ''@sha256:'' 2;
          repo = NormalizeRepository (repoAndDigest ! 0)
      in if length repoAndDigest = 2 \<and> NormalizeRepository repository = repo
         then repo @ ''@sha256:'' @ (repoAndDigest ! 1)
         else ExtractRepoDigest rest repository)"

record StageDesc =
  desc_addr :: nat
  desc_id :: StageID
  desc_info :: Info

abbreviation desc_stageID :: "StageDesc \<Rightarrow> string" where
  "desc_stageID d \<equiv> StageID_String (desc_id d)"

subsection \<open>Labels\<close>

definition WerfParentStageID :: string where
  "WerfParentStageID = ''werf.io/parent-stage-id''"

definition WerfImportChecksumLabelPrefix :: string where
  "WerfImportChecksumLabelPrefix = ''werf-import-checksum-''"

definition WerfDependencySourceStageIDLabelPrefix :: string where
  "WerfDependencySourceStageIDLabelPrefix = ''werf-dependency-stage-id-''"

definition WerfImportSourceExternalImagePrefix :: string where
  "WerfImportSourceExternalImagePrefix = ''external-image''"

subsection \<open>Facts\<close>

lemma go_mod_div: "go_div a b * b + go_mod a b = a"
  by (simp add: go_mod_def)

lemma GetCreatedAt_nano [simp]: "GetCreatedAt info = iCreatedAtUnixNano info"
  by (simp add: GetCreatedAt_def time_Unix_def go_mod_div)

lemma go_div_mono: "a \<le> c \<Longrightarrow> 0 < b \<Longrightarrow> go_div a b \<le> go_div c b"
proof (cases "0 \<le> a")
  case False
  assume "a \<le> c" "0 < b"
  have neg: "go_div a b = - ((- a) div b)" using False \<open>0 < b\<close> by (simp add: go_div_def)
  show ?thesis
  proof (cases "0 \<le> c")
    case True
    then have "0 \<le> go_div c b" using \<open>0 < b\<close>
      by (cases "c = 0") (simp_all add: go_div_def pos_imp_zdiv_nonneg_iff)
    moreover have "0 \<le> (- a) div b" using False \<open>0 < b\<close> by (simp add: pos_imp_zdiv_nonneg_iff)
    ultimately show ?thesis using neg by simp
  next
    case False
    then have "go_div c b = - ((- c) div b)" using \<open>0 < b\<close> by (simp add: go_div_def)
    moreover have "(- c) div b \<le> (- a) div b" using \<open>a \<le> c\<close> \<open>0 < b\<close> by (intro zdiv_mono1) auto
    ultimately show ?thesis using neg by simp
  qed
next
  case True
  assume "a \<le> c" "0 < b"
  have "go_div x b = x div b" if "0 \<le> x" for x
    using that \<open>0 < b\<close> by (cases "x = 0") (simp_all add: go_div_def)
  then show ?thesis using True \<open>a \<le> c\<close> \<open>0 < b\<close> by (simp add: zdiv_mono1)
qed

lemma CreationTsToTime_eq:
  "CreationTsToTime i = CreationTs i + go_div (CreationTs i) 1000 * 999999000"
  using go_mod_div [of "CreationTs i" 1000] by (simp add: CreationTsToTime_def time_Unix_def)

lemma GetDigest_pair:
  "CHR ''@'' \<notin> set repo \<Longrightarrow> CHR ''@'' \<notin> set digest \<Longrightarrow> iRepoDigest info = repo @ ''@'' @ digest \<Longrightarrow>
   GetDigest info = Inr digest"
  by (simp add: GetDigest_def Split_single_append Split_single_notin)

lemma GetCopy_same: "GetCopy info = info"
  by (induction info rule: GetCopy.induct) (simp add: map_idI)

lemma SplitN_2: "SplitN s sep 2 = (case Cut s sep of None \<Rightarrow> [s] | Some (a, b) \<Rightarrow> [a, b])"
  by (simp add: numeral_2_eq_2 split: option.splits)

text \<open>Sorting stages by \<open>CreationTsToTime\<close>, as the selection of a suitable stage does,
  is sorting them by their creation timestamp.\<close>

theorem CreationTsToTime_order:
  "(CreationTsToTime i < CreationTsToTime j) = (CreationTs i < CreationTs j)"
proof -
  have less: "CreationTsToTime i < CreationTsToTime j" if "CreationTs i < CreationTs j" for i j
    using that go_div_mono [of "CreationTs i" "CreationTs j" 1000] by (simp add: CreationTsToTime_eq)
  have "CreationTsToTime i = CreationTsToTime j" if "CreationTs i = CreationTs j"
    using that by (simp add: CreationTsToTime_def)
  then show ?thesis using less [of i j] less [of j i] by linarith
qed

text \<open>A reference \<open>repository:tag\<close> is split at its last colon, so a port in the
  registry's address stays in the repository; a reference without a colon has no tag.\<close>

theorem ParseRepositoryAndTag_last_colon:
  assumes "\<And>s. Reverse s = rev s" and "CHR '':'' \<notin> set tag"
  shows "ParseRepositoryAndTag Reverse (repository @ '':'' @ tag) = (repository, tag) \<and>
         ParseRepositoryAndTag Reverse tag = (tag, [])"
  using assms by (simp add: ParseRepositoryAndTag_def SplitN_2 Cut_single Cut_None_notin)

theorem ParseRepositoryAndTag_last_colon_witness:
  "ParseRepositoryAndTag rev (''localhost:5000/app'' @ '':'' @ ''v1'') = (''localhost:5000/app'', ''v1'')"
  using ParseRepositoryAndTag_last_colon [of rev "''v1''" "''localhost:5000/app''"] by simp

end
