(* ===== verification/Keep_Policy.thy ===== *)
theory Keep_Policy
  imports Stage_Desc
begin

text \<open>
  The cleanup section of the configuration: \<open>src/pkg/config/meta_cleanup.go\<close> (the policies and
  their defaults) and \<open>src/pkg/config/raw_meta_cleanup.go\<close> (the checks on the decoded YAML and
  its translation).

  A duration is a number of nanoseconds. A compiled regular expression is the predicate
  \<open>MatchString\<close>; \<open>Compile\<close>, Go's regular expression compiler, is a parameter.
\<close>

type_synonym regexp = "string \<Rightarrow> bool"
type_synonym Operator = string

abbreviation OrOperator :: Operator where "OrOperator \<equiv> ''Or''"
abbreviation AndOperator :: Operator where "AndOperator \<equiv> ''And''"

subsection \<open>Policies\<close>

record metaCleanupKeepPolicyLimit =
  limit_last :: "int option"
  limit_in :: "int option"
  limit_operator :: "Operator option"

record MetaCleanupKeepPolicyReferences =
  TagRegexp :: "regexp option"
  BranchRegexp :: "regexp option"
  Limit :: "metaCleanupKeepPolicyLimit option"

record MetaCleanupKeepPolicy =
  References :: MetaCleanupKeepPolicyReferences
  ImagesPerReference :: metaCleanupKeepPolicyLimit

record MetaCleanup =
  DisableCleanup :: bool
  DisableKubernetesBasedPolicy :: bool
  DisableGitHistoryBasedPolicy :: bool
  DisableBuiltWithinLastNHoursPolicy :: bool
  KeepImagesBuiltWithinLastNHours :: nat
  KeepPolicies :: "MetaCleanupKeepPolicy list"

definition defaultReferencesLimitLast :: int where "defaultReferencesLimitLast = -1"
definition defaultReferencesLimitOperator :: Operator where "defaultReferencesLimitOperator = AndOperator"
definition defaultImagesPerReferenceLast :: int where "defaultImagesPerReferenceLast = 1"
definition defaultImagesPerReferenceOperator :: Operator where "defaultImagesPerReferenceOperator = AndOperator"

definition NewMetaCleanupKeepPolicyReferencesLimit ::
  "int option \<Rightarrow> int option \<Rightarrow> Operator option \<Rightarrow> metaCleanupKeepPolicyLimit" where
  "NewMetaCleanupKeepPolicyReferencesLimit lst inn operator =
     \<lparr>limit_last = lst, limit_in = inn, limit_operator = operator\<rparr>"

definition ReferencesLimit_Last :: "metaCleanupKeepPolicyLimit \<Rightarrow> int" where
  "ReferencesLimit_Last c = (case limit_last c of None \<Rightarrow> defaultReferencesLimitLast | Some n \<Rightarrow> n)"

definition ReferencesLimit_Operator :: "metaCleanupKeepPolicyLimit \<Rightarrow> Operator" where
  "ReferencesLimit_Operator c =
     (case limit_operator c of None \<Rightarrow> defaultReferencesLimitOperator
      | Some o' \<Rightarrow> if o' = [] then defaultReferencesLimitOperator else o')"

definition NewMetaCleanupKeepPolicyImagesPerReference ::
  "int option \<Rightarrow> int option \<Rightarrow> Operator option \<Rightarrow> metaCleanupKeepPolicyLimit" where
  "NewMetaCleanupKeepPolicyImagesPerReference lst inn operator =
     \<lparr>limit_last = lst, limit_in = inn, limit_operator = operator\<rparr>"

definition ImagesPerReference_Last :: "metaCleanupKeepPolicyLimit \<Rightarrow> int" where
  "ImagesPerReference_Last c = (case limit_last c of None \<Rightarrow> defaultImagesPerReferenceLast | Some n \<Rightarrow> n)"

definition ImagesPerReference_Operator :: "metaCleanupKeepPolicyLimit \<Rightarrow> Operator" where
  "ImagesPerReference_Operator c =
     (case limit_operator c of None \<Rightarrow> defaultImagesPerReferenceOperator
      | Some o' \<Rightarrow> if o' = [] then defaultImagesPerReferenceOperator else o')"

definition limit_In :: "metaCleanupKeepPolicyLimit \<Rightarrow> int option" where
  "limit_In c = limit_in c"

text \<open>The zero value of the struct, used when the section is absent.\<close>

definition zero_limit :: metaCleanupKeepPolicyLimit where
  "zero_limit = \<lparr>limit_last = None, limit_in = None, limit_operator = None\<rparr>"

subsection \<open>The decoded YAML\<close>

record rawMetaCleanupKeepPolicyReferencesLimit =
  raw_Last :: "int option"
  raw_In :: "int option"
  raw_Operator :: "Operator option"

record rawMetaCleanupKeepPolicyReferences =
  raw_Tag :: string
  raw_Branch :: string
  raw_Limit :: "rawMetaCleanupKeepPolicyReferencesLimit option"
  raw_TagRegexp :: "regexp option"
  raw_BranchRegexp :: "regexp option"

record rawMetaCleanupKeepPolicy =
  raw_References :: "rawMetaCleanupKeepPolicyReferences option"
  raw_ImagesPerReference :: "rawMetaCleanupKeepPolicyReferencesLimit option"

record rawMetaCleanup =
  raw_DisableCleanup :: bool
  raw_DisableKubernetesBasedPolicy :: bool
  raw_DisableGitHistoryBasedPolicy :: bool
  raw_DisableBuiltWithinLastNHoursPolicy :: bool
  raw_KeepPolicies :: "rawMetaCleanupKeepPolicy list"
  raw_KeepImagesBuiltWithinLastNHours :: "nat option"

definition DefaultKeepImagesBuiltWithinLastNHours :: nat where
  "DefaultKeepImagesBuiltWithinLastNHours = 2"

text \<open>\<open>regexp.QuoteMeta\<close>: a backslash before every metacharacter.\<close>

definition backslash :: char where "backslash = CHR 0x5C"

definition is_meta :: "char \<Rightarrow> bool" where
  "is_meta c \<longleftrightarrow> c = backslash \<or> c \<in> set ''.+*?()|[]{}^$''"

definition QuoteMeta :: "string \<Rightarrow> string" where
  "QuoteMeta s = concat (map (\<lambda>c. if is_meta c then [backslash, c] else [c]) s)"

definition regexp_source :: "string \<Rightarrow> string" where
  "regexp_source configValue =
     (let value = (if HasPrefix configValue ''/'' \<and> HasSuffix configValue ''/''
                   then TrimSuffix (TrimPrefix configValue ''/'') ''/''
                   else QuoteMeta configValue)
      in ''^'' @ value @ ''$'')"

definition processRegexpString ::
  "(string \<Rightarrow> regexp option) \<Rightarrow> string \<Rightarrow> string \<Rightarrow> go_error + regexp" where
  "processRegexpString Compile nm configValue =
     (case Compile (regexp_source configValue) of
        None \<Rightarrow> Inl (Err (''invalid value '' @ configValue @ '' for '' @ nm))
      | Some r \<Rightarrow> Inr r)"

text \<open>The checks of \<open>UnmarshalYAML\<close> after the decoding of the fields.\<close>

definition check_Limit ::
  "rawMetaCleanupKeepPolicyReferencesLimit \<Rightarrow> go_error + rawMetaCleanupKeepPolicyReferencesLimit" where
  "check_Limit c =
     (case raw_Operator c of
        None \<Rightarrow> Inr c
      | Some o' \<Rightarrow> if o' \<noteq> ''Or'' \<and> o' \<noteq> ''And'' then Inl (Err ''unsupported value for operator'') else Inr c)"

definition check_References ::
  "(string \<Rightarrow> regexp option) \<Rightarrow> rawMetaCleanupKeepPolicyReferences \<Rightarrow> go_error + rawMetaCleanupKeepPolicyReferences" where
  "check_References Compile c =
     (if raw_Tag c = [] \<and> raw_Branch c = [] then Inl (Err ''tag or branch required for cleanup keep policy'')
      else if raw_Tag c \<noteq> [] \<and> raw_Branch c \<noteq> [] then Inl (Err ''specify only tag or branch for cleanup keep policy'')
      else if raw_Branch c \<noteq> []
      then (case processRegexpString Compile ''branch'' (raw_Branch c) of
              Inl e \<Rightarrow> Inl e | Inr r \<Rightarrow> Inr (c\<lparr>raw_BranchRegexp := Some r\<rparr>))
      else (case processRegexpString Compile ''tag'' (raw_Tag c) of
              Inl e \<Rightarrow> Inl e | Inr r \<Rightarrow> Inr (c\<lparr>raw_TagRegexp := Some r\<rparr>)))"

definition check_KeepPolicy :: "rawMetaCleanupKeepPolicy \<Rightarrow> go_error + rawMetaCleanupKeepPolicy" where
  "check_KeepPolicy c =
     (if raw_References c = None then Inl (Err ''cleanup keep policy must have references section!'') else Inr c)"

text \<open>
  The decoding of a policy runs the checks from the inside out: the limit, the references, the
  policy. The type of \<open>imagesPerReference\<close> is declared from the type of the limit and so does
  not have its methods: its operator is not checked.
\<close>

definition unmarshal_KeepPolicy ::
  "(string \<Rightarrow> regexp option) \<Rightarrow> rawMetaCleanupKeepPolicy \<Rightarrow> go_error + rawMetaCleanupKeepPolicy" where
  "unmarshal_KeepPolicy Compile c =
     (case raw_References c of
        None \<Rightarrow> check_KeepPolicy c
      | Some refs \<Rightarrow>
          (case (case raw_Limit refs of None \<Rightarrow> Inr None
                 | Some l \<Rightarrow> (case check_Limit l of Inl e \<Rightarrow> Inl e | Inr l' \<Rightarrow> Inr (Some l'))) of
             Inl e \<Rightarrow> Inl e
           | Inr l \<Rightarrow> (case check_References Compile (refs\<lparr>raw_Limit := l\<rparr>) of
                Inl e \<Rightarrow> Inl e
              | Inr refs' \<Rightarrow> check_KeepPolicy (c\<lparr>raw_References := Some refs'\<rparr>))))"

definition toMetaCleanupKeepPolicyReferences ::
  "rawMetaCleanupKeepPolicyReferences \<Rightarrow> MetaCleanupKeepPolicyReferences" where
  "toMetaCleanupKeepPolicyReferences c =
     \<lparr>TagRegexp = raw_TagRegexp c, BranchRegexp = raw_BranchRegexp c,
      Limit = map_option (\<lambda>l. NewMetaCleanupKeepPolicyReferencesLimit (raw_Last l) (raw_In l) (raw_Operator l)) (raw_Limit c)\<rparr>"

definition toMetaCleanupKeepPolicy :: "rawMetaCleanupKeepPolicy \<Rightarrow> MetaCleanupKeepPolicy" where
  "toMetaCleanupKeepPolicy c =
     \<lparr>References = (case raw_References c of
          None \<Rightarrow> \<lparr>TagRegexp = None, BranchRegexp = None, Limit = None\<rparr>
        | Some refs \<Rightarrow> toMetaCleanupKeepPolicyReferences refs),
      ImagesPerReference = (case raw_ImagesPerReference c of
          None \<Rightarrow> zero_limit
        | Some l \<Rightarrow> NewMetaCleanupKeepPolicyImagesPerReference (raw_Last l) (raw_In l) (raw_Operator l))\<rparr>"

definition toMetaCleanup :: "rawMetaCleanup \<Rightarrow> MetaCleanup" where
  "toMetaCleanup c =
     \<lparr>DisableCleanup = raw_DisableCleanup c,
      DisableKubernetesBasedPolicy = raw_DisableKubernetesBasedPolicy c,
      DisableGitHistoryBasedPolicy = raw_DisableGitHistoryBasedPolicy c,
      DisableBuiltWithinLastNHoursPolicy = raw_DisableBuiltWithinLastNHoursPolicy c,
      KeepImagesBuiltWithinLastNHours = (case raw_KeepImagesBuiltWithinLastNHours c of
          None \<Rightarrow> DefaultKeepImagesBuiltWithinLastNHours | Some n \<Rightarrow> n),
      KeepPolicies = map toMetaCleanupKeepPolicy (raw_KeepPolicies c)\<rparr>"

subsection \<open>Facts\<close>

lemmas limit_defs =
  ReferencesLimit_Last_def ReferencesLimit_Operator_def ImagesPerReference_Last_def
  ImagesPerReference_Operator_def limit_In_def defaultReferencesLimitLast_def
  defaultReferencesLimitOperator_def defaultImagesPerReferenceLast_def
  defaultImagesPerReferenceOperator_def zero_limit_def
  NewMetaCleanupKeepPolicyReferencesLimit_def NewMetaCleanupKeepPolicyImagesPerReference_def

lemma regexp_source_literal:
  "\<not> (HasPrefix s ''/'' \<and> HasSuffix s ''/'') \<Longrightarrow> regexp_source s = ''^'' @ QuoteMeta s @ ''$''"
  by (auto simp: regexp_source_def)

lemma regexp_source_regexp: "regexp_source (''/'' @ s @ ''/'') = ''^'' @ s @ ''$''"
  using TrimPrefix_append [of "''/''" "s @ ''/''"] TrimSuffix_append [of s "''/''"]
  by (simp add: regexp_source_def)

text \<open>A keep policy that passes the checks of the configuration selects either tags or
  branches, never both and never neither, and the operator of its reference limit is one of the
  two the cleanup knows.\<close>

theorem accepted_policy_shape:
  assumes "unmarshal_KeepPolicy Compile c = Inr c'"
    and "raw_References c = Some refs" and "raw_TagRegexp refs = None" and "raw_BranchRegexp refs = None"
  shows "let p = toMetaCleanupKeepPolicy c'
    in ((TagRegexp (References p) = None) \<noteq> (BranchRegexp (References p) = None)) \<and>
       (case Limit (References p) of None \<Rightarrow> True
        | Some l \<Rightarrow> ReferencesLimit_Operator l = OrOperator \<or> ReferencesLimit_Operator l = AndOperator)"
  using assms
  by (auto simp: unmarshal_KeepPolicy_def check_KeepPolicy_def check_References_def check_Limit_def
      processRegexpString_def toMetaCleanupKeepPolicy_def toMetaCleanupKeepPolicyReferences_def
      limit_defs Let_def split: option.splits sum.splits if_splits)

theorem accepted_policy_shape_witness:
  "\<exists>c'. unmarshal_KeepPolicy (\<lambda>_. Some (\<lambda>_. True))
       \<lparr>raw_References = Some \<lparr>raw_Tag = [], raw_Branch = ''main'', raw_Limit = None, raw_TagRegexp = None,
          raw_BranchRegexp = None\<rparr>, raw_ImagesPerReference = None\<rparr> = Inr c' \<and>
     (TagRegexp (References (toMetaCleanupKeepPolicy c')) = None) \<noteq>
     (BranchRegexp (References (toMetaCleanupKeepPolicy c')) = None)"
proof -
  let ?refs = "\<lparr>raw_Tag = [], raw_Branch = ''main'', raw_Limit = None, raw_TagRegexp = None, raw_BranchRegexp = None\<rparr>"
  let ?c = "\<lparr>raw_References = Some ?refs, raw_ImagesPerReference = None\<rparr>"
  obtain c' where c': "unmarshal_KeepPolicy (\<lambda>_. Some (\<lambda>_. True)) ?c = Inr c'"
    by (simp add: unmarshal_KeepPolicy_def check_References_def processRegexpString_def check_KeepPolicy_def)
  show ?thesis using c' accepted_policy_shape [OF c', of ?refs] by (auto simp: Let_def)
qed

text \<open>An unknown operator is refused in the reference limit but accepted in
  \<open>imagesPerReference\<close>, where the cleanup then treats it as Or.\<close>

theorem images_operator_unchecked:
  assumes "op \<noteq> ''And''" and "op \<noteq> ''Or''" and "op \<noteq> []" and "Compile (regexp_source b) = Some r" and "b \<noteq> []"
  defines "lim \<equiv> \<lparr>raw_Last = None, raw_In = None, raw_Operator = Some op\<rparr>"
  defines "refs \<equiv> \<lambda>l. \<lparr>raw_Tag = [], raw_Branch = b, raw_Limit = l, raw_TagRegexp = None, raw_BranchRegexp = None\<rparr>"
  shows "(\<exists>e. unmarshal_KeepPolicy Compile \<lparr>raw_References = Some (refs (Some lim)), raw_ImagesPerReference = None\<rparr> = Inl e) \<and>
    (\<exists>c'. unmarshal_KeepPolicy Compile \<lparr>raw_References = Some (refs None), raw_ImagesPerReference = Some lim\<rparr> = Inr c' \<and>
          ImagesPerReference_Operator (ImagesPerReference (toMetaCleanupKeepPolicy c')) = op)"
  using assms
  by (simp add: unmarshal_KeepPolicy_def check_Limit_def check_References_def processRegexpString_def
      check_KeepPolicy_def toMetaCleanupKeepPolicy_def limit_defs)

theorem images_operator_unchecked_witness:
  "\<exists>c'. unmarshal_KeepPolicy (\<lambda>_. Some (\<lambda>_. True))
       \<lparr>raw_References = Some \<lparr>raw_Tag = [], raw_Branch = ''main'', raw_Limit = None, raw_TagRegexp = None,
          raw_BranchRegexp = None\<rparr>,
        raw_ImagesPerReference = Some \<lparr>raw_Last = None, raw_In = None, raw_Operator = Some ''Xor''\<rparr>\<rparr> = Inr c' \<and>
     ImagesPerReference_Operator (ImagesPerReference (toMetaCleanupKeepPolicy c')) = ''Xor''"
  using images_operator_unchecked [of "''Xor''" "\<lambda>_. Some (\<lambda>_. True)" "''main''" "\<lambda>_. True"] by simp

end
