(* ===== verification/Git_References.thy ===== *)
theory Git_References
  imports Keep_Policy
begin

text \<open>
  The references of the git history policy:
  \<open>src/pkg/cleaning/git_history_based_cleanup/reference_to_scan.go\<close>. The repository (go-git) is
  a parameter: its references, commits and tag objects. \<open>time.Now()\<close> is the parameter \<open>now\<close>,
  and \<open>sort.Slice\<close>, which need not be stable, is the parameter \<open>srt\<close> with the law \<open>sort_ok\<close>.

  A \<open>*ReferenceToScan\<close> is an index into the list of references that \<open>ReferencesToScan\<close> builds;
  the policies write the images policy of a reference through it.
\<close>

subsection \<open>The repository\<close>

record commit =
  commit_hash :: string
  commit_when :: int
  commit_parents :: "string list"

record git_reference =
  ref_isRemote :: bool
  ref_isTag :: bool
  ref_short :: string
  ref_hash :: string
  ref_isZero :: bool

text \<open>A git object: an annotated tag of a commit, an annotated tag of something else, a commit,
  or another object.\<close>

datatype git_object =
    Tag_of_commit string
  | Tag_of_object "go_error + git_object"
  | Commit_object string
  | Other_object

datatype tag_answer = TagNotFound | TagError go_error | TaggerWhen int

record git_repository =
  repo_References :: "go_error + git_reference list"
  CommitObject :: "string \<Rightarrow> go_error + commit"
  TagObject :: "string \<Rightarrow> tag_answer"
  reference_object :: "git_reference \<Rightarrow> go_error + git_object"

subsection \<open>References to scan\<close>

record ReferenceToScan =
  Reference :: git_reference
  CreatedAt :: int
  HeadCommit :: commit
  scanDepthLimit :: int
  imagesCleanupKeepPolicy :: metaCleanupKeepPolicyLimit

type_synonym refs = "ReferenceToScan list"
type_synonym ref_ptr = nat

primrec object_commit :: "git_object \<Rightarrow> go_error + string" where
  "object_commit (Tag_of_commit h) = Inr h"
| "object_commit (Tag_of_object t) = (case map_sum id object_commit t of Inl e \<Rightarrow> Inl e | Inr r \<Rightarrow> r)"
| "object_commit (Commit_object h) = Inr h"
| "object_commit Other_object = Inl (Err ''unsupported tag target'')"

definition getCommitHashForReference :: "git_repository \<Rightarrow> git_reference \<Rightarrow> go_error + string" where
  "getCommitHashForReference repo r =
     (case reference_object repo r of Inl e \<Rightarrow> Inl e | Inr obj \<Rightarrow> object_commit obj)"

text \<open>The callback of \<open>rs.ForEach\<close>: what one reference adds.\<close>

definition reference_to_scan :: "git_repository \<Rightarrow> git_reference \<Rightarrow> go_error + ReferenceToScan option" where
  "reference_to_scan repo r =
     (if \<not> (ref_isRemote r \<or> ref_isTag r) then Inr None
      else if ref_isRemote r \<and> \<not> HasPrefix (ref_short r) ''origin/'' then Inr None
      else if \<not> ref_isTag r
      then (if ref_isZero r then Inr None
            else case CommitObject repo (ref_hash r) of
                   Inl e \<Rightarrow> Inl e
                 | Inr c \<Rightarrow> Inr (Some \<lparr>Reference = r, CreatedAt = commit_when c, HeadCommit = c,
                                       scanDepthLimit = -1, imagesCleanupKeepPolicy = zero_limit\<rparr>))
      else (case getCommitHashForReference repo r of
              Inl e \<Rightarrow> Inl e
            | Inr h \<Rightarrow> (case CommitObject repo h of
                Inl e \<Rightarrow> Inl e
              | Inr c \<Rightarrow>
                  (let found = (\<lambda>t. Inr (Some \<lparr>Reference = r, CreatedAt = t, HeadCommit = c,
                                       scanDepthLimit = 1, imagesCleanupKeepPolicy = zero_limit\<rparr>))
                   in case TagObject repo (ref_hash r) of
                        TagNotFound \<Rightarrow> found (commit_when c)
                      | TagError e \<Rightarrow> Inl e
                      | TaggerWhen t \<Rightarrow> found t))))"

definition collect_references :: "git_repository \<Rightarrow> go_error + refs" where
  "collect_references repo =
     (case repo_References repo of
        Inl e \<Rightarrow> Inl e
      | Inr rs \<Rightarrow> fold_res (\<lambda>refs r. case reference_to_scan repo r of
            Inl e \<Rightarrow> Inl e
          | Inr None \<Rightarrow> Inr refs
          | Inr (Some ref) \<Rightarrow> Inr (refs @ [ref])) [] rs)"

subsection \<open>Selection\<close>

definition selectBranchReferencesByRegexp :: "refs \<Rightarrow> ref_ptr list \<Rightarrow> regexp \<Rightarrow> go_error + ref_ptr list" where
  "selectBranchReferencesByRegexp store branchesRefs re =
     fold_res (\<lambda>result p.
         let parts = SplitN (ref_short (Reference (store ! p))) ''/'' 2
         in if length parts \<le> 1 then Inl (Panic ''index out of range [1]'')
            else Inr (if re (parts ! 1) then result @ [p] else result)) [] branchesRefs"

definition selectTagReferencesByRegexp :: "refs \<Rightarrow> ref_ptr list \<Rightarrow> regexp \<Rightarrow> ref_ptr list" where
  "selectTagReferencesByRegexp store tagsRefs re = filter (\<lambda>p. re (ref_short (Reference (store ! p)))) tagsRefs"

definition filterReferencesByIn :: "int \<Rightarrow> refs \<Rightarrow> ref_ptr list \<Rightarrow> int option \<Rightarrow> ref_ptr list" where
  "filterReferencesByIn now store ps inn =
     (case inn of None \<Rightarrow> ps | Some d \<Rightarrow> filter (\<lambda>p. CreatedAt (store ! p) > now - d) ps)"

type_synonym sorter = "(ref_ptr \<Rightarrow> int) \<Rightarrow> ref_ptr list \<Rightarrow> ref_ptr list"

definition sort_ok :: "(('a \<Rightarrow> int) \<Rightarrow> 'a list \<Rightarrow> 'a list) \<Rightarrow> bool" where
  "sort_ok srt \<longleftrightarrow> (\<forall>key xs. mset (srt key xs) = mset xs \<and> sorted_wrt (\<lambda>x y. key x \<ge> key y) (srt key xs))"

text \<open>\<open>filterReferencesByLast\<close> sorts its argument in place; the second component is that slice
  after the call.\<close>

definition filterReferencesByLast ::
  "sorter \<Rightarrow> refs \<Rightarrow> ref_ptr list \<Rightarrow> int \<Rightarrow> ref_ptr list \<times> ref_ptr list" where
  "filterReferencesByLast srt store ps last_n =
     (if last_n < 0 then (ps, ps)
      else let sorted_ps = srt (\<lambda>p. CreatedAt (store ! p)) ps
           in (if int (length sorted_ps) < last_n then sorted_ps else take (nat last_n) sorted_ps, sorted_ps))"

definition mergeReferences :: "ref_ptr list \<Rightarrow> ref_ptr list \<Rightarrow> ref_ptr list" where
  "mergeReferences refs1 refs2 = refs2 @ filter (\<lambda>p. p \<notin> set refs2) refs1"

definition referencesOr :: "ref_ptr list \<Rightarrow> ref_ptr list \<Rightarrow> ref_ptr list" where
  "referencesOr refs1 refs2 = mergeReferences refs1 refs2"

definition referencesAnd :: "ref_ptr list \<Rightarrow> ref_ptr list \<Rightarrow> ref_ptr list" where
  "referencesAnd refs1 refs2 = filter (\<lambda>p. p \<in> set refs2) refs1"

text \<open>Without \<open>in\<close> the slice of \<open>filterReferencesByIn\<close> is the argument itself, so the later
  in-place sort shows in it. (The appends of \<open>mergeReferences\<close> may write into the spare
  capacity of the sorted slice; they write the elements that are already there.)\<close>

definition applyReferencesLimit ::
  "sorter \<Rightarrow> int \<Rightarrow> refs \<Rightarrow> ref_ptr list \<Rightarrow> metaCleanupKeepPolicyLimit option \<Rightarrow> ref_ptr list" where
  "applyReferencesLimit srt now store ps limit =
     (case limit of
        None \<Rightarrow> ps
      | Some l \<Rightarrow>
          (let policyIn = filterReferencesByIn now store ps (limit_In l);
               (policyLastRefs, sorted_ps) = filterReferencesByLast srt store ps (ReferencesLimit_Last l);
               policyInRefs = (if limit_In l = None then sorted_ps else policyIn)
           in if ReferencesLimit_Operator l = OrOperator then referencesOr policyInRefs policyLastRefs
              else referencesAnd policyInRefs policyLastRefs))"

definition applyImagesPerReference :: "refs \<Rightarrow> ref_ptr list \<Rightarrow> metaCleanupKeepPolicyLimit \<Rightarrow> refs" where
  "applyImagesPerReference store ps imagesPerReference =
     foldl (\<lambda>st p. st[p := (st ! p)\<lparr>imagesCleanupKeepPolicy := imagesPerReference\<rparr>]) store ps"

definition applyCleanupKeepPolicy ::
  "sorter \<Rightarrow> int \<Rightarrow> refs \<Rightarrow> ref_ptr list \<Rightarrow> MetaCleanupKeepPolicy \<Rightarrow> ref_ptr list \<times> refs" where
  "applyCleanupKeepPolicy srt now store ps policy =
     (let ps' = applyReferencesLimit srt now store ps (Limit (References policy))
      in (ps', applyImagesPerReference store ps' (ImagesPerReference policy)))"

subsection \<open>The whole list\<close>

abbreviation hour :: int where "hour \<equiv> 3600000000000"

definition default_policies :: "(string \<Rightarrow> regexp option) \<Rightarrow> MetaCleanupKeepPolicy list" where
  "default_policies Compile =
     [\<lparr>References = \<lparr>TagRegexp = Compile ''.*'', BranchRegexp = None,
         Limit = Some (NewMetaCleanupKeepPolicyReferencesLimit (Some 10) None None)\<rparr>,
       ImagesPerReference = zero_limit\<rparr>,
      \<lparr>References = \<lparr>TagRegexp = None, BranchRegexp = Compile ''.*'',
         Limit = Some (NewMetaCleanupKeepPolicyReferencesLimit (Some 10) (Some (hour * 24 * 7)) (Some AndOperator))\<rparr>,
       ImagesPerReference = NewMetaCleanupKeepPolicyImagesPerReference (Some 2) (Some (hour * 24 * 7)) (Some AndOperator)\<rparr>,
      \<lparr>References = \<lparr>TagRegexp = None, BranchRegexp = Compile ''^(main|master|staging|production)$'', Limit = None\<rparr>,
       ImagesPerReference = NewMetaCleanupKeepPolicyImagesPerReference (Some 10) None None\<rparr>]"

definition apply_policy ::
  "sorter \<Rightarrow> int \<Rightarrow> ref_ptr list \<Rightarrow> ref_ptr list \<Rightarrow>
   refs \<times> ref_ptr list \<times> ref_ptr list \<Rightarrow> MetaCleanupKeepPolicy \<Rightarrow> go_error + refs \<times> ref_ptr list \<times> ref_ptr list" where
  "apply_policy srt now branchesRefs tagsRefs = (\<lambda>(store, resultBranchesRefs, resultTagsRefs) policy.
     case BranchRegexp (References policy) of
       Some re \<Rightarrow>
         (case selectBranchReferencesByRegexp store branchesRefs re of
            Inl e \<Rightarrow> Inl e
          | Inr ps \<Rightarrow> (let (ps', store') = applyCleanupKeepPolicy srt now store ps policy
                        in Inr (store', mergeReferences resultBranchesRefs ps', resultTagsRefs)))
     | None \<Rightarrow>
         (case TagRegexp (References policy) of
            Some re \<Rightarrow>
              (let ps = selectTagReferencesByRegexp store tagsRefs re;
                   (ps', store') = applyCleanupKeepPolicy srt now store ps policy
               in Inr (store', resultBranchesRefs, mergeReferences resultTagsRefs ps'))
          | None \<Rightarrow> Inl (Panic ''nil regexp in policy.String()'')))"

definition ReferencesToScan ::
  "sorter \<Rightarrow> int \<Rightarrow> (string \<Rightarrow> regexp option) \<Rightarrow> git_repository \<Rightarrow> MetaCleanupKeepPolicy list \<Rightarrow> go_error + refs" where
  "ReferencesToScan srt now Compile repo keepPolicies =
     (case collect_references repo of
        Inl e \<Rightarrow> Inl e
      | Inr store \<Rightarrow>
          (let branchesRefs = filter (\<lambda>p. \<not> ref_isTag (Reference (store ! p))) [0..<length store];
               tagsRefs = filter (\<lambda>p. ref_isTag (Reference (store ! p))) [0..<length store];
               policies = (if keepPolicies = [] then default_policies Compile else keepPolicies)
           in case fold_res (apply_policy srt now branchesRefs tagsRefs) (store, [], []) policies of
                Inl e \<Rightarrow> Inl e
              | Inr (store', resultBranchesRefs, resultTagsRefs) \<Rightarrow>
                  (let key = (\<lambda>p. CreatedAt (store' ! p))
                   in Inr (map (\<lambda>p. store' ! p) (srt key resultBranchesRefs @ srt key resultTagsRefs)))))"

subsection \<open>Facts on the selection\<close>

lemma sort_okD:
  assumes "sort_ok srt"
  shows "set (srt key xs) = set xs" and "distinct (srt key xs) = distinct xs"
    and "length (srt key xs) = length xs" and "sorted_wrt (\<lambda>x y. key x \<ge> key y) (srt key xs)"
proof -
  have m: "mset (srt key xs) = mset xs" using assms by (simp add: sort_ok_def)
  show "set (srt key xs) = set xs" using m by (rule mset_eq_setD)
  show "distinct (srt key xs) = distinct xs" using m by (rule mset_eq_imp_distinct_iff)
  show "length (srt key xs) = length xs" using m by (rule mset_eq_length)
  show "sorted_wrt (\<lambda>x y. key x \<ge> key y) (srt key xs)" using assms by (simp add: sort_ok_def)
qed

lemma set_mergeReferences [simp]: "set (mergeReferences r1 r2) = set r1 \<union> set r2"
  by (auto simp: mergeReferences_def)

lemma distinct_mergeReferences: "distinct r1 \<Longrightarrow> distinct r2 \<Longrightarrow> distinct (mergeReferences r1 r2)"
  by (auto simp: mergeReferences_def)

lemma filterReferencesByLast_props:
  assumes "sort_ok srt" and "filterReferencesByLast srt store ps n = (kept, rest)"
  shows "set rest = set ps" and "set kept \<subseteq> set ps" and "distinct ps \<Longrightarrow> distinct kept \<and> distinct rest"
    and "distinct ps \<Longrightarrow> 0 \<le> n \<Longrightarrow> length kept = min (nat n) (length ps)"
    and "n < 0 \<Longrightarrow> kept = ps"
    and "distinct ps \<Longrightarrow> 0 \<le> n \<Longrightarrow> p \<in> set kept \<Longrightarrow> q \<in> set ps - set kept \<Longrightarrow> CreatedAt (store ! q) \<le> CreatedAt (store ! p)"
proof -
  let ?key = "\<lambda>p. CreatedAt (store ! p)"
  let ?s = "srt ?key ps"
  note s = sort_okD [OF assms(1), of ?key ps]
  have kept: "kept = (if n < 0 then ps else take (nat n) ?s)" and rest: "rest = (if n < 0 then ps else ?s)"
    using assms(2) by (auto simp: filterReferencesByLast_def Let_def split: if_splits)
  show "set rest = set ps" "n < 0 \<Longrightarrow> kept = ps" using rest kept s(1) by auto
  show "set kept \<subseteq> set ps" using kept s(1) by (auto dest: in_set_takeD)
  show "distinct ps \<Longrightarrow> distinct kept \<and> distinct rest" using kept rest s(2) by auto
  show "distinct ps \<Longrightarrow> 0 \<le> n \<Longrightarrow> length kept = min (nat n) (length ps)" using kept s(3) by (simp add: min_def)
  assume "distinct ps" "0 \<le> n" and p: "p \<in> set kept" and q: "q \<in> set ps - set kept"
  have split: "?s = take (nat n) ?s @ drop (nat n) ?s" by simp
  have "p \<in> set (take (nat n) ?s)" "q \<in> set (drop (nat n) ?s)"
    using p q kept \<open>0 \<le> n\<close> s(1) split by (auto simp del: append_take_drop_id) (metis Un_iff set_append)
  then show "CreatedAt (store ! q) \<le> CreatedAt (store ! p)"
    using s(4) split by (metis (no_types, lifting) sorted_wrt_append)
qed

lemma set_applyReferencesLimit:
  assumes "sort_ok srt" and "filterReferencesByLast srt store ps (ReferencesLimit_Last l) = (kept, rest)"
  shows "set (applyReferencesLimit srt now store ps (Some l)) =
    (let young = set (filterReferencesByIn now store ps (limit_In l))
     in if ReferencesLimit_Operator l = OrOperator then young \<union> set kept else young \<inter> set kept)"
  using filterReferencesByLast_props(1,2) [OF assms] assms(2)
  by (auto simp: applyReferencesLimit_def Let_def referencesOr_def referencesAnd_def filterReferencesByIn_def
      split: option.splits)

lemma applyReferencesLimit_subset:
  assumes "sort_ok srt"
  shows "set (applyReferencesLimit srt now store ps limit) \<subseteq> set ps"
    and "distinct ps \<Longrightarrow> distinct (applyReferencesLimit srt now store ps limit)"
proof -
  obtain kept rest where k: "filterReferencesByLast srt store ps (ReferencesLimit_Last (the limit)) = (kept, rest)"
    by (metis surj_pair)
  note f = filterReferencesByLast_props [OF assms k]
  have sub: "set (filterReferencesByIn now store ps x) \<subseteq> set ps" for x
    by (auto simp: filterReferencesByIn_def split: option.splits)
  have dis: "distinct ps \<Longrightarrow> distinct (filterReferencesByIn now store ps x)" for x
    by (auto simp: filterReferencesByIn_def split: option.splits)
  show "set (applyReferencesLimit srt now store ps limit) \<subseteq> set ps"
    using f(2) sub k by (cases limit) (auto simp: set_applyReferencesLimit [OF assms] applyReferencesLimit_def [of _ _ _ _ None] Let_def)
  show "distinct ps \<Longrightarrow> distinct (applyReferencesLimit srt now store ps limit)"
    using f(3) k dis by (cases limit)
      (auto simp: applyReferencesLimit_def referencesOr_def referencesAnd_def distinct_mergeReferences)
qed

subsection \<open>Facts on the store\<close>

lemma applyImages_nth [simp]:
  "Reference (applyImagesPerReference store ps pol ! p) = Reference (store ! p)"
  "CreatedAt (applyImagesPerReference store ps pol ! p) = CreatedAt (store ! p)"
  "length (applyImagesPerReference store ps pol) = length store"
proof -
  have upd: "Reference (st[q := (st ! q)\<lparr>imagesCleanupKeepPolicy := pol\<rparr>] ! p) = Reference (st ! p)"
    "CreatedAt (st[q := (st ! q)\<lparr>imagesCleanupKeepPolicy := pol\<rparr>] ! p) = CreatedAt (st ! p)" for st q
    by (cases "q < length st"; cases "p = q"; simp add: list_update_beyond)+
  show "Reference (applyImagesPerReference store ps pol ! p) = Reference (store ! p)"
    "CreatedAt (applyImagesPerReference store ps pol ! p) = CreatedAt (store ! p)"
    "length (applyImagesPerReference store ps pol) = length store"
    unfolding applyImagesPerReference_def by (induction ps arbitrary: store) (simp_all add: upd)
qed

lemma applyImages_policy:
  "p < length store \<Longrightarrow>
   applyImagesPerReference store ps pol ! p =
     (if p \<in> set ps then (store ! p)\<lparr>imagesCleanupKeepPolicy := pol\<rparr> else store ! p)"
  unfolding applyImagesPerReference_def
proof (induction ps arbitrary: store)
  case (Cons q ps)
  then show ?case by (cases "q = p") simp_all
qed simp

lemma SplitN_origin: "SplitN (''origin/'' @ b) ''/'' 2 = [''origin'', b]"
  using Cut_single [of "CHR ''/''" "''origin''" b] by (simp add: SplitN_2)

definition branch_name :: "ReferenceToScan \<Rightarrow> string" where
  "branch_name ref = drop (length ''origin/'') (ref_short (Reference ref))"

lemma selectBranch_eq:
  assumes "\<forall>p \<in> set ps. \<exists>b. ref_short (Reference (store ! p)) = ''origin/'' @ b"
  shows "selectBranchReferencesByRegexp store ps re = Inr (filter (\<lambda>p. re (branch_name (store ! p))) ps)"
proof -
  have "fold_res (\<lambda>result p. let parts = SplitN (ref_short (Reference (store ! p))) ''/'' 2
         in if length parts \<le> 1 then Inl (Panic ''index out of range [1]'')
            else Inr (if re (parts ! 1) then result @ [p] else result)) acc ps =
       Inr (acc @ filter (\<lambda>p. re (branch_name (store ! p))) ps)" for acc
    using assms
  proof (induction ps arbitrary: acc)
    case (Cons p ps)
    then obtain b where "ref_short (Reference (store ! p)) = ''origin/'' @ b" by auto
    then show ?case using Cons SplitN_origin [of b] by (simp add: branch_name_def)
  qed simp
  then show ?thesis by (simp add: selectBranchReferencesByRegexp_def)
qed

subsection \<open>The result of ReferencesToScan\<close>

definition branch_ptrs :: "refs \<Rightarrow> ref_ptr list" where
  "branch_ptrs store = filter (\<lambda>p. \<not> ref_isTag (Reference (store ! p))) [0..<length store]"

definition tag_ptrs :: "refs \<Rightarrow> ref_ptr list" where
  "tag_ptrs store = filter (\<lambda>p. ref_isTag (Reference (store ! p))) [0..<length store]"

text \<open>The references a single policy selects, and the images policy that governs a reference
  after a list of policies: the one of the last policy that selects it.\<close>

definition policy_refs :: "sorter \<Rightarrow> int \<Rightarrow> refs \<Rightarrow> MetaCleanupKeepPolicy \<Rightarrow> ref_ptr list" where
  "policy_refs srt now store policy =
     (case BranchRegexp (References policy) of
        Some re \<Rightarrow> applyReferencesLimit srt now store (filter (\<lambda>p. re (branch_name (store ! p))) (branch_ptrs store))
                    (Limit (References policy))
      | None \<Rightarrow>
          (case TagRegexp (References policy) of
             Some re \<Rightarrow> applyReferencesLimit srt now store (filter (\<lambda>p. re (ref_short (Reference (store ! p)))) (tag_ptrs store))
                         (Limit (References policy))
           | None \<Rightarrow> []))"

definition governing :: "sorter \<Rightarrow> int \<Rightarrow> refs \<Rightarrow> MetaCleanupKeepPolicy list \<Rightarrow> ref_ptr \<Rightarrow> metaCleanupKeepPolicyLimit" where
  "governing srt now store policies p =
     (let pols = filter (\<lambda>pol. p \<in> set (policy_refs srt now store pol)) policies
      in if pols = [] then imagesCleanupKeepPolicy (store ! p) else ImagesPerReference (last pols))"

definition has_regexp :: "MetaCleanupKeepPolicy \<Rightarrow> bool" where
  "has_regexp policy \<longleftrightarrow> BranchRegexp (References policy) \<noteq> None \<or> TagRegexp (References policy) \<noteq> None"

definition refs_ok :: "refs \<Rightarrow> bool" where
  "refs_ok store \<longleftrightarrow> (\<forall>ref \<in> set store.
     if ref_isTag (Reference ref) then scanDepthLimit ref = 1
     else scanDepthLimit ref = -1 \<and> (\<exists>b. ref_short (Reference ref) = ''origin/'' @ b))"

lemma reference_to_scan_ok:
  "reference_to_scan repo r = Inr (Some ref) \<Longrightarrow> refs_ok [ref]"
  by (auto simp: reference_to_scan_def refs_ok_def Let_def split: if_splits sum.splits tag_answer.splits)

lemma collect_references_ok: "collect_references repo = Inr store \<Longrightarrow> refs_ok store"
proof -
  assume collected: "collect_references repo = Inr store"
  then obtain rs where rs: "repo_References repo = Inr rs" by (auto simp: collect_references_def split: sum.splits)
  show ?thesis
    by (rule fold_res_invariant [where P = refs_ok, OF collected [unfolded collect_references_def rs sum.case]])
      (use reference_to_scan_ok in \<open>fastforce simp: refs_ok_def split: sum.splits option.splits\<close>)+
qed

definition same_refs :: "refs \<Rightarrow> refs \<Rightarrow> bool" where
  "same_refs st store \<longleftrightarrow> length st = length store \<and>
     (\<forall>p. Reference (st ! p) = Reference (store ! p) \<and> CreatedAt (st ! p) = CreatedAt (store ! p))"

lemma same_refs_limit: "same_refs st store \<Longrightarrow>
   applyReferencesLimit srt now st ps l = applyReferencesLimit srt now store ps l"
  by (simp add: same_refs_def applyReferencesLimit_def filterReferencesByIn_def filterReferencesByLast_def
      split: option.splits)

lemma apply_policy_step:
  fixes srt :: sorter and now :: int
  assumes "refs_ok store" and "same_refs st store" and "has_regexp pol"
  defines "ps \<equiv> policy_refs srt now store pol"
  shows "apply_policy srt now (branch_ptrs store) (tag_ptrs store) (st, rb, rt) pol =
    Inr (applyImagesPerReference st ps (ImagesPerReference pol),
         if BranchRegexp (References pol) \<noteq> None then mergeReferences rb ps else rb,
         if BranchRegexp (References pol) \<noteq> None then rt else mergeReferences rt ps)"
proof -
  have same: "Reference (st ! p) = Reference (store ! p)" for p using assms(2) by (simp add: same_refs_def)
  have "\<forall>p \<in> set (branch_ptrs store). \<exists>b. ref_short (Reference (st ! p)) = ''origin/'' @ b"
    using assms(1) by (auto simp: same branch_ptrs_def refs_ok_def split: if_splits)
  then show ?thesis using assms(3) same_refs_limit [OF assms(2)]
    by (auto simp: apply_policy_def selectBranch_eq applyCleanupKeepPolicy_def selectTagReferencesByRegexp_def
        ps_def policy_refs_def has_regexp_def branch_name_def same Let_def split: option.splits)
qed

lemma same_refs_apply: "same_refs st store \<Longrightarrow> same_refs (applyImagesPerReference st ps pol) store"
  by (simp add: same_refs_def)

lemma policy_refs_in:
  assumes "sort_ok srt"
  shows "set (policy_refs srt now store pol) \<subseteq>
      set (if BranchRegexp (References pol) \<noteq> None then branch_ptrs store else tag_ptrs store)"
    and "distinct (policy_refs srt now store pol)"
proof -
  note sub = applyReferencesLimit_subset [OF assms]
  have dist: "distinct (branch_ptrs store)" "distinct (tag_ptrs store)"
    by (simp_all add: branch_ptrs_def tag_ptrs_def)
  have sub': "p \<in> set (applyReferencesLimit srt now store (filter P ptrs) l) \<Longrightarrow> p \<in> set ptrs" for p P ptrs l
    using sub(1) [of now store "filter P ptrs" l] by auto
  show "set (policy_refs srt now store pol) \<subseteq>
      set (if BranchRegexp (References pol) \<noteq> None then branch_ptrs store else tag_ptrs store)"
    by (auto simp: policy_refs_def dest!: sub' split: option.splits)
  show "distinct (policy_refs srt now store pol)"
    unfolding policy_refs_def by (auto intro!: sub(2) distinct_filter dist split: option.split)
qed

lemma governing_snoc:
  "governing srt now store (pols @ [pol]) p =
     (if p \<in> set (policy_refs srt now store pol) then ImagesPerReference pol else governing srt now store pols p)"
  by (simp add: governing_def Let_def)

definition fold_inv where
  "fold_inv srt now store pols = (\<lambda>(st, rb, rt).
     same_refs st store \<and> distinct rb \<and> distinct rt \<and>
     set rb = {p \<in> set (branch_ptrs store). \<exists>pol \<in> set pols. p \<in> set (policy_refs srt now store pol)} \<and>
     set rt = {p \<in> set (tag_ptrs store). \<exists>pol \<in> set pols. p \<in> set (policy_refs srt now store pol)} \<and>
     (\<forall>p < length store. st ! p = (store ! p)\<lparr>imagesCleanupKeepPolicy := governing srt now store pols p\<rparr>))"

lemma policies_fold:
  assumes "sort_ok srt" and "refs_ok store" and "\<forall>pol \<in> set pols. has_regexp pol"
  shows "\<exists>s. fold_res (apply_policy srt now (branch_ptrs store) (tag_ptrs store)) (store, [], []) pols = Inr s \<and>
    fold_inv srt now store pols s"
  using assms(3)
proof (induction pols rule: rev_induct)
  case Nil
  then show ?case by (simp add: fold_inv_def same_refs_def governing_def)
next
  case (snoc pol pols)
  then obtain st rb rt where IH: "fold_res (apply_policy srt now (branch_ptrs store) (tag_ptrs store)) (store, [], []) pols =
      Inr (st, rb, rt)" and inv: "fold_inv srt now store pols (st, rb, rt)" by auto
  let ?ps = "policy_refs srt now store pol"
  have same: "same_refs st store" using inv by (simp add: fold_inv_def)
  note step = apply_policy_step [OF assms(2) same, of pol srt now rb rt]
  have disj: "set (branch_ptrs store) \<inter> set (tag_ptrs store) = {}" by (auto simp: branch_ptrs_def tag_ptrs_def)
  have len: "length st = length store" using same by (simp add: same_refs_def)
  have "fold_inv srt now store (pols @ [pol])
      (applyImagesPerReference st ?ps (ImagesPerReference pol),
         if BranchRegexp (References pol) \<noteq> None then mergeReferences rb ?ps else rb,
         if BranchRegexp (References pol) \<noteq> None then rt else mergeReferences rt ?ps)"
    using inv policy_refs_in [OF assms(1), of now store pol] disj
    by (auto simp: fold_inv_def same_refs_apply distinct_mergeReferences applyImages_policy len governing_snoc
        split: if_splits)
  then show ?case using IH step snoc.prems by (simp add: fold_res_append)
qed

text \<open>C19: \<open>ReferencesToScan\<close> never fails on a repository that can be read and policies that
  name a tag or branch pattern, and its result is exactly this: every reference that some policy
  selects, once; each governed by the images policy of the last policy that selects it; the
  branches first and then the tags, each part from the newest to the oldest.\<close>

theorem ReferencesToScan_result:
  assumes "sort_ok srt" and "collect_references repo = Inr store"
    and "policies = (if keepPolicies = [] then default_policies Compile else keepPolicies)"
    and "\<forall>pol \<in> set policies. has_regexp pol"
  shows "\<exists>bs ts. ReferencesToScan srt now Compile repo keepPolicies =
      Inr (map (\<lambda>p. (store ! p)\<lparr>imagesCleanupKeepPolicy := governing srt now store policies p\<rparr>) (bs @ ts)) \<and>
    distinct bs \<and> distinct ts \<and>
    set bs = {p \<in> set (branch_ptrs store). \<exists>pol \<in> set policies. p \<in> set (policy_refs srt now store pol)} \<and>
    set ts = {p \<in> set (tag_ptrs store). \<exists>pol \<in> set policies. p \<in> set (policy_refs srt now store pol)} \<and>
    sorted_wrt (\<lambda>p q. CreatedAt (store ! p) \<ge> CreatedAt (store ! q)) bs \<and>
    sorted_wrt (\<lambda>p q. CreatedAt (store ! p) \<ge> CreatedAt (store ! q)) ts"
proof -
  obtain st rb rt where fold: "fold_res (apply_policy srt now (branch_ptrs store) (tag_ptrs store)) (store, [], []) policies =
      Inr (st, rb, rt)" and inv: "fold_inv srt now store policies (st, rb, rt)"
    using policies_fold [OF assms(1) collect_references_ok [OF assms(2)] assms(4), of now] by auto
  let ?key = "\<lambda>p. CreatedAt (store ! p)"
  have key: "(\<lambda>p. CreatedAt (st ! p)) = ?key" using inv by (auto simp: fold_inv_def same_refs_def)
  have "st ! p = (store ! p)\<lparr>imagesCleanupKeepPolicy := governing srt now store policies p\<rparr>"
    if "p \<in> set (srt ?key rb @ srt ?key rt)" for p
    using that inv sort_okD(1) [OF assms(1)] by (auto simp: fold_inv_def branch_ptrs_def tag_ptrs_def)
  then have "map (\<lambda>p. st ! p) (srt ?key rb @ srt ?key rt) =
      map (\<lambda>p. (store ! p)\<lparr>imagesCleanupKeepPolicy := governing srt now store policies p\<rparr>) (srt ?key rb @ srt ?key rt)"
    by (intro map_cong) auto
  then have "ReferencesToScan srt now Compile repo keepPolicies =
      Inr (map (\<lambda>p. (store ! p)\<lparr>imagesCleanupKeepPolicy := governing srt now store policies p\<rparr>)
             (srt ?key rb @ srt ?key rt))"
    using fold unfolding ReferencesToScan_def Let_def assms(3) [symmetric] branch_ptrs_def [symmetric]
      tag_ptrs_def [symmetric] assms(2)
    by (simp only: sum.case fold prod.case key)
  then show ?thesis using inv sort_okD [OF assms(1), of ?key]
    by (intro exI [of _ "srt ?key rb"] exI [of _ "srt ?key rt"]) (simp add: fold_inv_def)
qed

text \<open>The limit of a policy keeps exactly the references that are young enough and among the
  newest \<open>last\<close> ones (one of the two under the operator Or); the kept newest ones are as many as
  asked for and none that is dropped is newer than one that is kept.\<close>

theorem applyReferencesLimit_result:
  assumes "sort_ok srt" and "distinct ps"
    and "n = ReferencesLimit_Last l" and "kept = fst (filterReferencesByLast srt store ps n)"
    and "young = {p \<in> set ps. case limit_In l of None \<Rightarrow> True | Some d \<Rightarrow> CreatedAt (store ! p) > now - d}"
  shows "set (applyReferencesLimit srt now store ps (Some l)) =
      (if ReferencesLimit_Operator l = OrOperator then young \<union> set kept else young \<inter> set kept) \<and>
    (if n < 0 then set kept = set ps
     else card (set kept) = min (nat n) (length ps) \<and> set kept \<subseteq> set ps \<and>
          (\<forall>p \<in> set kept. \<forall>q \<in> set ps - set kept. CreatedAt (store ! q) \<le> CreatedAt (store ! p)))"
proof -
  obtain rest where k: "filterReferencesByLast srt store ps n = (kept, rest)"
    using assms(4) by (metis prod.collapse)
  note f = filterReferencesByLast_props [OF assms(1) k]
  have "set (filterReferencesByIn now store ps (limit_In l)) = young"
    using assms(5) by (auto simp: filterReferencesByIn_def split: option.splits)
  then have "set (applyReferencesLimit srt now store ps (Some l)) =
      (if ReferencesLimit_Operator l = OrOperator then young \<union> set kept else young \<inter> set kept)"
    using set_applyReferencesLimit [OF assms(1) k [unfolded assms(3)], of now] by (simp add: Let_def)
  moreover have "card (set kept) = length kept" using f(3) [OF assms(2)] by (simp add: distinct_card)
  moreover have "if n < 0 then set kept = set ps
     else length kept = min (nat n) (length ps) \<and> set kept \<subseteq> set ps \<and>
          (\<forall>p \<in> set kept. \<forall>q \<in> set ps - set kept. CreatedAt (store ! q) \<le> CreatedAt (store ! p))"
  proof (cases "n < 0")
    case True
    then show ?thesis using f(5) by simp
  next
    case False
    then have "0 \<le> n" by simp
    from f(4) [OF assms(2) this] f(6) [OF assms(2) this] f(2) False show ?thesis by (metis (no_types))
  qed
  ultimately show ?thesis by simp
qed

definition desc_sort :: "('a \<Rightarrow> int) \<Rightarrow> 'a list \<Rightarrow> 'a list" where
  "desc_sort key xs = rev (sort_key key xs)"

lemma desc_sort_ok: "sort_ok desc_sort"
proof -
  have "sorted_wrt (\<lambda>x y. key x \<le> key y) (sort_key key xs)" for key :: "'a \<Rightarrow> int" and xs
    using sorted_sort_key [of key xs] by (simp only: sorted_map)
  then show ?thesis by (simp add: sort_ok_def desc_sort_def sorted_wrt_rev)
qed

definition demo_ref :: "string \<Rightarrow> int \<Rightarrow> ReferenceToScan" where
  "demo_ref nm t = \<lparr>Reference = \<lparr>ref_isRemote = True, ref_isTag = False, ref_short = ''origin/'' @ nm, ref_hash = nm, ref_isZero = False\<rparr>,
     CreatedAt = t, HeadCommit = \<lparr>commit_hash = nm, commit_when = t, commit_parents = []\<rparr>, scanDepthLimit = -1,
     imagesCleanupKeepPolicy = zero_limit\<rparr>"

definition demo_repo :: git_repository where
  "demo_repo = \<lparr>repo_References = Inr [Reference (demo_ref ''main'' 5), Reference (demo_ref ''dev'' 9)],
     CommitObject = (\<lambda>h. Inr \<lparr>commit_hash = h, commit_when = (if h = ''main'' then 5 else 9), commit_parents = []\<rparr>),
     TagObject = (\<lambda>_. TagNotFound), reference_object = (\<lambda>_. Inr Other_object)\<rparr>"

definition demo_policy :: MetaCleanupKeepPolicy where
  "demo_policy = \<lparr>References = \<lparr>TagRegexp = None, BranchRegexp = Some (\<lambda>_. True), Limit = None\<rparr>, ImagesPerReference = zero_limit\<rparr>"

theorem ReferencesToScan_result_witness:
  "\<exists>bs ts. ReferencesToScan desc_sort 10 (\<lambda>_. None) demo_repo [demo_policy] =
      Inr (map (\<lambda>p. ([demo_ref ''main'' 5, demo_ref ''dev'' 9] ! p)\<lparr>imagesCleanupKeepPolicy :=
             governing desc_sort 10 [demo_ref ''main'' 5, demo_ref ''dev'' 9] [demo_policy] p\<rparr>) (bs @ ts)) \<and> distinct bs"
proof -
  have "collect_references demo_repo = Inr [demo_ref ''main'' 5, demo_ref ''dev'' 9]"
    by (simp add: collect_references_def demo_repo_def demo_ref_def reference_to_scan_def)
  from ReferencesToScan_result [OF desc_sort_ok this, of "[demo_policy]" "[demo_policy]" "\<lambda>_. None" 10]
  show ?thesis by (auto simp: has_regexp_def demo_policy_def)
qed

theorem applyReferencesLimit_result_witness:
  "set (applyReferencesLimit desc_sort 10 [demo_ref ''main'' 5, demo_ref ''dev'' 9] [0, 1]
      (Some \<lparr>limit_last = Some 1, limit_in = Some 3, limit_operator = None\<rparr>)) = {1}"
proof -
  let ?l = "\<lparr>limit_last = Some 1, limit_in = Some 3, limit_operator = None\<rparr>"
  let ?store = "[demo_ref ''main'' 5, demo_ref ''dev'' 9]"
  have kept: "fst (filterReferencesByLast desc_sort ?store [0, 1] (ReferencesLimit_Last ?l)) = [1]"
    by (simp add: filterReferencesByLast_def desc_sort_def limit_defs demo_ref_def)
  have "{p \<in> set [0::nat, 1]. case limit_In ?l of None \<Rightarrow> True | Some d \<Rightarrow> CreatedAt (?store ! p) > 10 - d} = {1}"
    by (auto simp: limit_defs demo_ref_def)
  with applyReferencesLimit_result [OF desc_sort_ok, of "[0, 1]" _ ?l _ ?store _ 10] kept
  show ?thesis by (simp add: limit_defs)
qed

end
