(* ===== verification/History_Scanner.thy ===== *)
theory History_Scanner
  imports Git_References
begin

text \<open>
  The scan of the git history: \<open>src/pkg/cleaning/git_history_based_cleanup/scanner.go\<close>.

  A commit is named by its hash. The repository with its commit cache
  (\<open>repo_with_cache.go\<close>) is the function \<open>CommitObject\<close>; the cache makes a commit object the
  same pointer each time, so commit objects are compared as values.
  \<open>util.AddNewStringsToStringArray\<close> of another repository is the parameter \<open>addNew\<close>; it adds the
  new strings to a slice without duplicates.
\<close>

type_synonym commit_source = "string \<Rightarrow> go_error + commit"
type_synonym commit_table = "(string, string list) go_map"

record commitHistoryScanner =
  expectedStageIDCommitList :: commit_table
  reachedStageIDCommitList :: commit_table
  reachedCommitList :: "string list"
  stopCommitList :: "string list"
  isAlreadyScannedCommit :: "string list"
  scanDepth :: int
  s_scanDepthLimit :: int
  s_imagesCleanupKeepPolicy :: metaCleanupKeepPolicyLimit

text \<open>The three results of the scan of one reference: the reached stage IDs, the stop commits and
  the commits that were hit.\<close>

type_synonym scan_result = "string list \<times> string list \<times> commit_table"

definition applyImagesCleanupInPolicy ::
  "commit_source \<Rightarrow> int \<Rightarrow> commit_table \<Rightarrow> int option \<Rightarrow> go_error + commit_table" where
  "applyImagesCleanupInPolicy git now stageIDCommitList inn =
     (case inn of
        None \<Rightarrow> Inr stageIDCommitList
      | Some d \<Rightarrow>
          fold_res (\<lambda>result (stageID, commits).
              case fold_res (\<lambda>acc c. case git c of
                     Inl e \<Rightarrow> Inl (Panic ''unexpected condition'')
                   | Inr co \<Rightarrow> Inr (if commit_when co > now - d then acc @ [c] else acc)) [] commits of
                Inl e \<Rightarrow> Inl e
              | Inr resultCommits \<Rightarrow>
                  Inr (if resultCommits \<noteq> [] then AList.update stageID resultCommits result else result))
            [] stageIDCommitList)"

definition reachedStageIDList :: "commitHistoryScanner \<Rightarrow> string list" where
  "reachedStageIDList s = map fst (filter (\<lambda>(stageID, commits). commits \<noteq> []) (reachedStageIDCommitList s))"

definition isStopCommit :: "commitHistoryScanner \<Rightarrow> string \<Rightarrow> bool" where
  "isStopCommit s c \<longleftrightarrow> c \<in> set (stopCommitList s)"

definition handleCommit ::
  "commit_source \<Rightarrow> commitHistoryScanner \<Rightarrow> string \<Rightarrow> go_error + string list \<times> commitHistoryScanner" where
  "handleCommit git s c =
     (let hits = filter (\<lambda>(stageID, commits). c \<in> set commits) (expectedStageIDCommitList s);
          reached = foldl (\<lambda>r (stageID, _). slice_append stageID [c] r) (reachedStageIDCommitList s) hits;
          s' = s\<lparr>reachedStageIDCommitList := reached,
                 reachedCommitList := (if hits \<noteq> [] then reachedCommitList s @ [c] else reachedCommitList s)\<rparr>
      in case git c of Inl e \<Rightarrow> Inl e | Inr co \<Rightarrow> Inr (commit_parents co, s'))"

text \<open>The inner loop of \<open>scanCommitHistory\<close>: one level of the breadth first search. The break on
  \<open>all expected tags reached\<close> leaves this loop only.\<close>

fun scan_level ::
  "commit_source \<Rightarrow> commitHistoryScanner \<Rightarrow> string list \<Rightarrow> string list \<Rightarrow>
   go_error + commitHistoryScanner \<times> string list" where
  "scan_level git s nextIteration [] = Inr (s, nextIteration)"
| "scan_level git s nextIteration (c # cs) =
     (if c \<in> set (isAlreadyScannedCommit s) then scan_level git s nextIteration cs
      else if isStopCommit s c then scan_level git s nextIteration cs
      else case handleCommit git s c of
             Inl e \<Rightarrow> Inl e
           | Inr (parents, s') \<Rightarrow>
               if scanDepth s' = s_scanDepthLimit s' then scan_level git s' nextIteration cs
               else if length (expectedStageIDCommitList s') = length (reachedStageIDCommitList s')
               then Inr (s', nextIteration)
               else scan_level git (s'\<lparr>isAlreadyScannedCommit := c # isAlreadyScannedCommit s'\<rparr>)
                      (nextIteration @ parents) cs)"

text \<open>The outer loop. It need not end on an infinite history; not ending is \<^term>\<open>None\<close>.\<close>

partial_function (option) scan_loop ::
  "commit_source \<Rightarrow> commitHistoryScanner \<Rightarrow> string list \<Rightarrow> (go_error + commitHistoryScanner) option" where
  "scan_loop git s currentIteration =
     (case scan_level git (s\<lparr>scanDepth := scanDepth s + 1\<rparr>) [] currentIteration of
        Inl e \<Rightarrow> Some (Inl e)
      | Inr (s', nextIteration) \<Rightarrow>
          if nextIteration = [] then Some (Inr s') else scan_loop git s' nextIteration)"

declare scan_loop.simps [code]

definition scanCommitHistory ::
  "commit_source \<Rightarrow> commitHistoryScanner \<Rightarrow> string \<Rightarrow> (go_error + commitHistoryScanner) option" where
  "scanCommitHistory git s c = scan_loop git s [c]"

text \<open>The latest commit of every reached stage. The first commit is taken, and a later one of the
  list only if its committer time is after that of the current one.\<close>

fun latest_commit :: "commit_source \<Rightarrow> commit option \<Rightarrow> string list \<Rightarrow> go_error + commit option" where
  "latest_commit git best [] = Inr best"
| "latest_commit git best (c # cs) =
     (case git c of
        Inl e \<Rightarrow> Inl (Panic ''unexpected condition'')
      | Inr co \<Rightarrow>
          latest_commit git
            (case best of None \<Rightarrow> Some co
             | Some b \<Rightarrow> if commit_when co > commit_when b then Some co else Some b) cs)"

definition latestCommitStageIDs ::
  "commit_source \<Rightarrow> commitHistoryScanner \<Rightarrow> go_error + (commit, string list) go_map" where
  "latestCommitStageIDs git s =
     fold_res (\<lambda>m (stageID, commits). case latest_commit git None commits of
         Inl e \<Rightarrow> Inl e
       | Inr None \<Rightarrow> Inr m
       | Inr (Some co) \<Rightarrow> Inr (slice_append co [stageID] m)) [] (reachedStageIDCommitList s)"

definition hits_of :: "(commit \<times> string list) list \<Rightarrow> commit_table" where
  "hits_of latest =
     foldl (\<lambda>r (co, stageIDs). foldl (\<lambda>r stageID. AList.update stageID [commit_hash co] r) r stageIDs) [] latest"

definition stageIDHitCommitList :: "commit_source \<Rightarrow> commitHistoryScanner \<Rightarrow> go_error + commit_table" where
  "stageIDHitCommitList git s =
     (case latestCommitStageIDs git s of Inl e \<Rightarrow> Inl e | Inr latest \<Rightarrow> Inr (hits_of latest))"

definition scan_answer :: "commit_source \<Rightarrow> commitHistoryScanner \<Rightarrow> go_error + scan_result" where
  "scan_answer git s =
     (case stageIDHitCommitList git s of
        Inl e \<Rightarrow> Inl e
      | Inr hits \<Rightarrow> Inr (reachedStageIDList s, stopCommitList s, hits))"

definition last_reached :: "commitHistoryScanner \<Rightarrow> go_error + string" where
  "last_reached s =
     (if reachedCommitList s = [] then Inl (Panic ''index out of range'') else Inr (last (reachedCommitList s)))"

definition handleStopCommitList ::
  "commit_source \<Rightarrow> commitHistoryScanner \<Rightarrow> ReferenceToScan \<Rightarrow> go_error + scan_result" where
  "handleStopCommitList git s ref =
     (let stop = (\<lambda>c. scan_answer git (s\<lparr>stopCommitList := stopCommitList s @ [c]\<rparr>))
      in if s_scanDepthLimit s \<noteq> 0
         then if length (reachedStageIDList s) = length (expectedStageIDCommitList s)
              then (case last_reached s of Inl e \<Rightarrow> Inl e | Inr c \<Rightarrow> stop c)
              else scan_answer git s
         else if reachedStageIDList s \<noteq> []
         then (case last_reached s of Inl e \<Rightarrow> Inl e | Inr c \<Rightarrow> stop c)
         else stop (commit_hash (HeadCommit ref)))"

type_synonym commit_sorter = "(commit \<Rightarrow> int) \<Rightarrow> commit list \<Rightarrow> commit list"

definition kept_result :: "commitHistoryScanner \<Rightarrow> (commit, string list) go_map \<Rightarrow> commit list \<Rightarrow> scan_result" where
  "kept_result s latest kept =
     (concat (map (slice_get latest) kept), stopCommitList s, hits_of (map (\<lambda>co. (co, slice_get latest co)) kept))"

definition handleExtraStageIDsByLast ::
  "commitHistoryScanner \<Rightarrow> (commit, string list) go_map \<Rightarrow> commit list \<Rightarrow> scan_result" where
  "handleExtraStageIDsByLast s latest latestCommitList =
     kept_result s latest (take (nat (ImagesPerReference_Last (s_imagesCleanupKeepPolicy s))) latestCommitList)"

definition handleExtraStageIDsByLastWithIn ::
  "int \<Rightarrow> commitHistoryScanner \<Rightarrow> (commit, string list) go_map \<Rightarrow> commit list \<Rightarrow> int \<Rightarrow> scan_result" where
  "handleExtraStageIDsByLastWithIn now s latest latestCommitList inn =
     (let policy = s_imagesCleanupKeepPolicy s;
          byLast = take (nat (ImagesPerReference_Last policy)) latestCommitList;
          byIn = filter (\<lambda>co. commit_when co > now - inn) latestCommitList;
          result = (if ImagesPerReference_Operator policy = AndOperator
                    then concat (map (\<lambda>c. map (\<lambda>_. c) (filter (\<lambda>c'. c = c') byIn)) byLast)
                    else byIn @ filter (\<lambda>c. c \<notin> set byIn) byLast)
      in kept_result s latest result)"

definition new_scanner :: "commit_table \<Rightarrow> string list \<Rightarrow> ReferenceToScan \<Rightarrow> commitHistoryScanner" where
  "new_scanner expected stops ref =
     \<lparr>expectedStageIDCommitList = expected, reachedStageIDCommitList = [], reachedCommitList = [],
      stopCommitList = stops, isAlreadyScannedCommit = [], scanDepth = 0,
      s_scanDepthLimit = scanDepthLimit ref, s_imagesCleanupKeepPolicy = imagesCleanupKeepPolicy ref\<rparr>"

definition ref_expected ::
  "commit_source \<Rightarrow> int \<Rightarrow> ReferenceToScan \<Rightarrow> commit_table \<Rightarrow> go_error + commit_table" where
  "ref_expected git now ref expected =
     (let policy = imagesCleanupKeepPolicy ref
      in if ImagesPerReference_Last policy = 0 then Inr []
         else if limit_In policy \<noteq> None \<and> ImagesPerReference_Operator policy = AndOperator
         then applyImagesCleanupInPolicy git now expected (limit_In policy)
         else Inr expected)"

text \<open>\<open>reflect.DeepEqual\<close> of two maps compares their contents.\<close>

definition map_DeepEqual :: "commit_table \<Rightarrow> commit_table \<Rightarrow> bool" where
  "map_DeepEqual a b \<longleftrightarrow> set a = set b"

definition scanned_result ::
  "commit_source \<Rightarrow> int \<Rightarrow> commit_sorter \<Rightarrow> ReferenceToScan \<Rightarrow> commit_table \<Rightarrow> commit_table \<Rightarrow>
   commitHistoryScanner \<Rightarrow> go_error + scan_result" where
  "scanned_result git now srt ref expected refExpected s =
     (let policy = s_imagesCleanupKeepPolicy s; last_n = ImagesPerReference_Last policy
      in if last_n > 0 \<and> int (length (reachedStageIDList s)) = last_n then scan_answer git s
         else if last_n > 0 \<and> int (length (reachedStageIDList s)) > last_n
         then (case latestCommitStageIDs git s of
                 Inl e \<Rightarrow> Inl e
               | Inr latest \<Rightarrow>
                   (let latestCommitList = srt commit_when (map fst latest)
                    in case limit_In policy of
                         None \<Rightarrow> Inr (handleExtraStageIDsByLast s latest latestCommitList)
                       | Some inn \<Rightarrow> Inr (handleExtraStageIDsByLastWithIn now s latest latestCommitList inn)))
         else if \<not> map_DeepEqual expected refExpected then scan_answer git s
         else handleStopCommitList git s ref)"

definition scanReferenceHistory ::
  "commit_source \<Rightarrow> int \<Rightarrow> commit_sorter \<Rightarrow> ReferenceToScan \<Rightarrow> commit_table \<Rightarrow> string list \<Rightarrow>
   (go_error + scan_result) option" where
  "scanReferenceHistory git now srt ref expected stops =
     (case ref_expected git now ref expected of
        Inl e \<Rightarrow> Some (Inl e)
      | Inr refExpected \<Rightarrow>
          if refExpected = [] then Some (Inr ([], stops, []))
          else (case scanCommitHistory git (new_scanner refExpected stops ref) (commit_hash (HeadCommit ref)) of
                  None \<Rightarrow> None
                | Some (Inl e) \<Rightarrow> Some (Inl e)
                | Some (Inr s) \<Rightarrow> Some (scanned_result git now srt ref expected refExpected s)))"

definition merge_hit ::
  "(string list \<Rightarrow> string list \<Rightarrow> string list) \<Rightarrow> commit_table \<Rightarrow> string \<times> string list \<Rightarrow> commit_table" where
  "merge_hit addNew m = (\<lambda>(stageID, commits). case map_of m stageID of
         None \<Rightarrow> AList.update stageID commits m
       | Some old \<Rightarrow> AList.update stageID (addNew old commits) m)"

definition merge_hits :: "(string list \<Rightarrow> string list \<Rightarrow> string list) \<Rightarrow> commit_table \<Rightarrow> commit_table \<Rightarrow> commit_table" where
  "merge_hits addNew hits refHits = foldl (merge_hit addNew) hits refHits"

text \<open>The loop of \<open>ScanReferencesHistory\<close> over the references, from the last to the first.\<close>

fun scan_refs ::
  "(string list \<Rightarrow> string list \<Rightarrow> string list) \<Rightarrow> commit_source \<Rightarrow> int \<Rightarrow> commit_sorter \<Rightarrow> commit_table \<Rightarrow>
   scan_result \<Rightarrow> refs \<Rightarrow> (go_error + scan_result) option" where
  "scan_refs addNew git now srt expected acc [] = Some (Inr acc)"
| "scan_refs addNew git now srt expected (reached, stops, hits) (ref # refs) =
     (case scanReferenceHistory git now srt ref expected stops of
        None \<Rightarrow> None
      | Some (Inl e) \<Rightarrow> Some (Inl e)
      | Some (Inr (refReached, refStops, refHits)) \<Rightarrow>
          scan_refs addNew git now srt expected
            (addNew reached refReached, addNew stops refStops, merge_hits addNew hits refHits) refs)"

definition ScanReferencesHistory ::
  "(string list \<Rightarrow> string list \<Rightarrow> string list) \<Rightarrow> commit_source \<Rightarrow> int \<Rightarrow> commit_sorter \<Rightarrow>
   refs \<Rightarrow> commit_table \<Rightarrow> (go_error + string list \<times> commit_table) option" where
  "ScanReferencesHistory addNew git now srt refs expected =
     (case scan_refs addNew git now srt expected ([], [], []) (rev refs) of
        None \<Rightarrow> None
      | Some (Inl e) \<Rightarrow> Some (Inl e)
      | Some (Inr (reached, stops, hits)) \<Rightarrow> Some (Inr (reached, hits)))"

subsection \<open>One commit\<close>

lemma handleCommitE:
  assumes "handleCommit git s c = Inr (parents, s')"
  obtains co where "git c = Inr co" and "parents = commit_parents co"
    and "s' = s\<lparr>reachedStageIDCommitList := reachedStageIDCommitList s', reachedCommitList := reachedCommitList s'\<rparr>"
    and "reachedCommitList s' = (if \<exists>(i, cs) \<in> set (expectedStageIDCommitList s). c \<in> set cs
           then reachedCommitList s @ [c] else reachedCommitList s)"
    and "reachedStageIDCommitList s' = foldl (\<lambda>r x. if c \<in> set (snd x) then slice_append (fst x) [c] r else r)
           (reachedStageIDCommitList s) (expectedStageIDCommitList s)"
proof -
  obtain co where co: "git c = Inr co" using assms by (auto simp: handleCommit_def Let_def split: sum.splits)
  let ?hits = "filter (\<lambda>(stageID, commits). c \<in> set commits) (expectedStageIDCommitList s)"
  have s': "s' = s\<lparr>reachedStageIDCommitList := foldl (\<lambda>r (stageID, _). slice_append stageID [c] r) (reachedStageIDCommitList s) ?hits,
                 reachedCommitList := (if ?hits \<noteq> [] then reachedCommitList s @ [c] else reachedCommitList s)\<rparr>"
    and "parents = commit_parents co"
    using assms co by (auto simp: handleCommit_def Let_def)
  show thesis
  proof (rule that [OF co \<open>parents = commit_parents co\<close>])
    show "s' = s\<lparr>reachedStageIDCommitList := reachedStageIDCommitList s', reachedCommitList := reachedCommitList s'\<rparr>"
      by (simp add: s')
    show "reachedCommitList s' = (if \<exists>(i, cs) \<in> set (expectedStageIDCommitList s). c \<in> set cs
           then reachedCommitList s @ [c] else reachedCommitList s)"
      by (auto simp: s' filter_empty_conv)
    show "reachedStageIDCommitList s' = foldl (\<lambda>r x. if c \<in> set (snd x) then slice_append (fst x) [c] r else r)
           (reachedStageIDCommitList s) (expectedStageIDCommitList s)"
      by (simp add: s' foldl_filter case_prod_beta cong: if_cong)
  qed
qed

subsection \<open>Soundness of the search\<close>

text \<open>The commits that can be reached from a head without passing a stop commit.\<close>

inductive reachable :: "commit_source \<Rightarrow> string list \<Rightarrow> string \<Rightarrow> string \<Rightarrow> bool" for git stops h where
  head: "h \<notin> set stops \<Longrightarrow> reachable git stops h h"
| parent: "reachable git stops h c \<Longrightarrow> git c = Inr co \<Longrightarrow> p \<in> set (commit_parents co) \<Longrightarrow> p \<notin> set stops \<Longrightarrow>
    reachable git stops h p"

definition sound :: "commit_source \<Rightarrow> string \<Rightarrow> commitHistoryScanner \<Rightarrow> bool" where
  "sound git h s \<longleftrightarrow>
     map_ok (expectedStageIDCommitList s) \<and> map_ok (reachedStageIDCommitList s) \<and>
     (\<forall>i \<in> map_keys (reachedStageIDCommitList s). i \<in> map_keys (expectedStageIDCommitList s) \<and>
        slice_get (reachedStageIDCommitList s) i \<noteq> []) \<and>
     (\<forall>i. \<forall>c \<in> set (slice_get (reachedStageIDCommitList s) i).
        c \<in> set (slice_get (expectedStageIDCommitList s) i) \<and>
        reachable git (stopCommitList s) h c \<and> (\<exists>co. git c = Inr co)) \<and>
     (\<forall>c \<in> set (isAlreadyScannedCommit s). c \<notin> set (stopCommitList s) \<and> reachable git (stopCommitList s) h c \<and>
        (\<exists>co. git c = Inr co) \<and>
        (\<forall>i. c \<in> set (slice_get (expectedStageIDCommitList s) i) \<longrightarrow> i \<in> map_keys (reachedStageIDCommitList s))) \<and>
     (reachedStageIDCommitList s \<noteq> [] \<longrightarrow> reachedCommitList s \<noteq> [])"

definition pending_ok :: "commit_source \<Rightarrow> string list \<Rightarrow> string \<Rightarrow> string list \<Rightarrow> bool" where
  "pending_ok git stops h cs \<longleftrightarrow> (\<forall>c \<in> set cs. c \<in> set stops \<or> reachable git stops h c)"

lemma slice_get_iff_keys: "map_ok m \<Longrightarrow> c \<in> set (slice_get m i) \<longleftrightarrow> (\<exists>cs. (i, cs) \<in> set m \<and> c \<in> set cs)"
  by (auto simp: slice_get_def split: option.splits dest: map_of_SomeD)

lemma handleCommit_reached:
  assumes ok: "map_ok (expectedStageIDCommitList s)" and h: "handleCommit git s c = Inr (parents, s')"
  shows "set (slice_get (reachedStageIDCommitList s') i) =
      set (slice_get (reachedStageIDCommitList s) i) \<union> (if c \<in> set (slice_get (expectedStageIDCommitList s) i) then {c} else {})"
    and "map_keys (reachedStageIDCommitList s') =
      map_keys (reachedStageIDCommitList s) \<union> {i. c \<in> set (slice_get (expectedStageIDCommitList s) i)}"
    and "map_ok (reachedStageIDCommitList s) \<Longrightarrow> map_ok (reachedStageIDCommitList s')"
proof -
  obtain co where r: "reachedStageIDCommitList s' = foldl (\<lambda>r x. if c \<in> set (snd x) then slice_append (fst x) [c] r else r)
           (reachedStageIDCommitList s) (expectedStageIDCommitList s)"
    using h by (rule handleCommitE)
  have "c \<in> set (slice_get (expectedStageIDCommitList s) i) \<longleftrightarrow>
      (\<exists>x \<in> set (expectedStageIDCommitList s). c \<in> set (snd x) \<and> fst x = i)" for i
    using slice_get_iff_keys [OF ok, of c i] by force
  then show "set (slice_get (reachedStageIDCommitList s') i) =
      set (slice_get (reachedStageIDCommitList s) i) \<union> (if c \<in> set (slice_get (expectedStageIDCommitList s) i) then {c} else {})"
    and "map_keys (reachedStageIDCommitList s') =
      map_keys (reachedStageIDCommitList s) \<union> {i. c \<in> set (slice_get (expectedStageIDCommitList s) i)}"
    by (auto simp: r slice_get_fold_append map_keys_fold_append image_iff)
  show "map_ok (reachedStageIDCommitList s) \<Longrightarrow> map_ok (reachedStageIDCommitList s')"
    by (simp add: r map_ok_fold_append)
qed

lemma handleCommit_sound:
  assumes "sound git h s" and h: "handleCommit git s c = Inr (parents, s')"
    and "reachable git (stopCommitList s) h c" and "c \<notin> set (stopCommitList s)"
  shows "sound git h s'" and "sound git h (s'\<lparr>isAlreadyScannedCommit := c # isAlreadyScannedCommit s'\<rparr>)"
    and "pending_ok git (stopCommitList s') h parents"
proof -
  obtain co where co: "git c = Inr co" "parents = commit_parents co"
    and s': "s' = s\<lparr>reachedStageIDCommitList := reachedStageIDCommitList s', reachedCommitList := reachedCommitList s'\<rparr>"
    and rc: "reachedCommitList s' = (if \<exists>(i, cs) \<in> set (expectedStageIDCommitList s). c \<in> set cs
           then reachedCommitList s @ [c] else reachedCommitList s)"
    using h by (rule handleCommitE)
  have static: "expectedStageIDCommitList s' = expectedStageIDCommitList s" "stopCommitList s' = stopCommitList s"
    "isAlreadyScannedCommit s' = isAlreadyScannedCommit s" by (subst s', simp)+
  have ok: "map_ok (expectedStageIDCommitList s)" using assms(1) by (simp add: sound_def)
  note r = handleCommit_reached [OF ok h]
  have keys: "i \<in> map_keys (expectedStageIDCommitList s)" if "c \<in> set (slice_get (expectedStageIDCommitList s) i)" for i
    using that slice_get_notin by fastforce
  have nonempty: "slice_get (reachedStageIDCommitList s') i \<noteq> []" if "i \<in> map_keys (reachedStageIDCommitList s')" for i
  proof -
    have "set (slice_get (reachedStageIDCommitList s') i) \<noteq> {}"
      using that assms(1) unfolding r(1) r(2) sound_def by auto
    then show ?thesis by auto
  qed
  have "reachedCommitList s' \<noteq> []" if "reachedStageIDCommitList s' \<noteq> []"
  proof (cases "\<exists>(i, cs) \<in> set (expectedStageIDCommitList s). c \<in> set cs")
    case False
    then have "{i. c \<in> set (slice_get (expectedStageIDCommitList s) i)} = {}"
      using slice_get_iff_keys [OF ok] by fastforce
    then have "map_keys (reachedStageIDCommitList s) \<noteq> {}" using r(2) that by (metis Un_empty_right map_keys_nonempty)
    then show ?thesis using assms(1) rc by (auto simp: sound_def)
  qed (simp add: rc)
  then show "sound git h s'" using assms co r nonempty keys unfolding sound_def static by auto
  then show "sound git h (s'\<lparr>isAlreadyScannedCommit := c # isAlreadyScannedCommit s'\<rparr>)"
    using assms(3,4) co r(2) unfolding sound_def by (simp add: static)
  show "pending_ok git (stopCommitList s') h parents"
    using assms(3) co static by (auto simp: pending_ok_def intro: reachable.parent)
qed

subsection \<open>One level\<close>

text \<open>What a level of the search leaves alone.\<close>

definition same_setup :: "commitHistoryScanner \<Rightarrow> commitHistoryScanner \<Rightarrow> bool" where
  "same_setup s s' \<longleftrightarrow> expectedStageIDCommitList s' = expectedStageIDCommitList s \<and>
     stopCommitList s' = stopCommitList s \<and> s_scanDepthLimit s' = s_scanDepthLimit s \<and>
     s_imagesCleanupKeepPolicy s' = s_imagesCleanupKeepPolicy s"

lemma handleCommit_setup: "handleCommit git s c = Inr (parents, s') \<Longrightarrow>
    same_setup s s' \<and> scanDepth s' = scanDepth s \<and> isAlreadyScannedCommit s' = isAlreadyScannedCommit s"
  by (auto simp: handleCommit_def Let_def same_setup_def split: sum.splits)

lemma scan_level_induct [consumes 1, case_names finished skip limit full step]:
  assumes "scan_level git s nxt cs = Inr (s', nxt')"
    and "P s' nxt' []"
    and "\<And>s nxt c cs. c \<in> set (isAlreadyScannedCommit s) \<or> isStopCommit s c \<Longrightarrow> P s nxt cs \<Longrightarrow> P s nxt (c # cs)"
    and "\<And>s nxt c cs parents t. c \<notin> set (isAlreadyScannedCommit s) \<Longrightarrow> \<not> isStopCommit s c \<Longrightarrow>
      handleCommit git s c = Inr (parents, t) \<Longrightarrow> scanDepth t = s_scanDepthLimit t \<Longrightarrow> P t nxt cs \<Longrightarrow> P s nxt (c # cs)"
    and "\<And>s c cs parents. c \<notin> set (isAlreadyScannedCommit s) \<Longrightarrow> \<not> isStopCommit s c \<Longrightarrow>
      handleCommit git s c = Inr (parents, s') \<Longrightarrow> scanDepth s' \<noteq> s_scanDepthLimit s' \<Longrightarrow>
      length (expectedStageIDCommitList s') = length (reachedStageIDCommitList s') \<Longrightarrow> P s nxt' (c # cs)"
    and "\<And>s nxt c cs parents t. c \<notin> set (isAlreadyScannedCommit s) \<Longrightarrow> \<not> isStopCommit s c \<Longrightarrow>
      handleCommit git s c = Inr (parents, t) \<Longrightarrow> scanDepth t \<noteq> s_scanDepthLimit t \<Longrightarrow>
      P (t\<lparr>isAlreadyScannedCommit := c # isAlreadyScannedCommit t\<rparr>) (nxt @ parents) cs \<Longrightarrow> P s nxt (c # cs)"
  shows "P s nxt cs"
  using assms(1)
proof (induction git\<equiv>git s nxt cs rule: scan_level.induct)
  case (2 s nxt c cs)
  consider (skip) "c \<in> set (isAlreadyScannedCommit s) \<or> isStopCommit s c"
    | (handled) parents t where "c \<notin> set (isAlreadyScannedCommit s)" "\<not> isStopCommit s c"
        "handleCommit git s c = Inr (parents, t)"
    using 2(5) by (cases "handleCommit git s c") (auto split: if_splits)
  then show ?case
  proof cases
    case skip
    then show ?thesis using 2(1,2,5) assms(3) by (metis scan_level.simps(2))
  next
    case handled
    then show ?thesis using 2(3,4,5) assms(4,5,6) by (fastforce split: if_splits)
  qed
qed (use assms(2) in simp)

lemma scan_level_setup:
  "scan_level git s nxt cs = Inr (s', nxt') \<Longrightarrow> same_setup s s' \<and> scanDepth s' = scanDepth s"
proof (induction rule: scan_level_induct)
  case (limit s nxt c cs parents t)
  then show ?case using handleCommit_setup [OF limit(3)] by (simp add: same_setup_def)
next
  case (full s c cs parents)
  then show ?case using handleCommit_setup [OF full(3)] by (simp add: same_setup_def)
next
  case (step s nxt c cs parents t)
  then show ?case using handleCommit_setup [OF step(3)] by (simp add: same_setup_def)
qed (simp_all add: same_setup_def)

lemma scan_level_sound:
  assumes "scan_level git s nxt cs = Inr (s', nxt')"
  shows "sound git h s \<Longrightarrow> pending_ok git (stopCommitList s) h (nxt @ cs) \<Longrightarrow>
    sound git h s' \<and> pending_ok git (stopCommitList s') h nxt'"
  using assms
proof (induction rule: scan_level_induct)
  case (limit s nxt c cs parents t)
  have "reachable git (stopCommitList s) h c" using limit by (auto simp: pending_ok_def isStopCommit_def)
  note handleCommit_sound [OF limit(6,3) this] handleCommit_setup [OF limit(3)]
  then show ?case using limit by (auto simp: pending_ok_def isStopCommit_def same_setup_def)
next
  case (full s c cs parents)
  have "reachable git (stopCommitList s) h c" using full by (auto simp: pending_ok_def isStopCommit_def)
  note handleCommit_sound [OF full(6,3) this] handleCommit_setup [OF full(3)]
  then show ?case using full by (auto simp: pending_ok_def isStopCommit_def same_setup_def)
next
  case (step s nxt c cs parents t)
  have "reachable git (stopCommitList s) h c" using step by (auto simp: pending_ok_def isStopCommit_def)
  note handleCommit_sound [OF step(6,3) this] handleCommit_setup [OF step(3)]
  then show ?case using step by (auto simp: pending_ok_def isStopCommit_def same_setup_def)
qed (auto simp: pending_ok_def)

lemma handleCommit_keys:
  "handleCommit git s c = Inr (parents, t) \<Longrightarrow>
   map_keys (reachedStageIDCommitList s) \<subseteq> map_keys (reachedStageIDCommitList t)"
  by (erule handleCommitE) (auto simp: map_keys_fold_append)

lemma scan_level_scanned:
  "scan_level git s nxt cs = Inr (s', nxt') \<Longrightarrow>
   set (isAlreadyScannedCommit s) \<subseteq> set (isAlreadyScannedCommit s') \<and>
   set (isAlreadyScannedCommit s') \<subseteq> set (isAlreadyScannedCommit s) \<union> set cs \<and>
   (nxt' = nxt \<or> set (isAlreadyScannedCommit s) \<subset> set (isAlreadyScannedCommit s'))"
proof (induction rule: scan_level_induct)
  case (limit s nxt c cs parents t)
  then show ?case using handleCommit_setup [OF limit(3)] by auto
next
  case (full s c cs parents)
  then show ?case using handleCommit_setup [OF full(3)] by auto
next
  case (step s nxt c cs parents t)
  then show ?case using handleCommit_setup [OF step(3)] by auto
qed auto

lemma scan_level_keys:
  "scan_level git s nxt cs = Inr (s', nxt') \<Longrightarrow>
   map_keys (reachedStageIDCommitList s) \<subseteq> map_keys (reachedStageIDCommitList s')"
proof (induction rule: scan_level_induct)
  case (step s nxt c cs parents t)
  then show ?case using subset_trans [OF handleCommit_keys [OF step(3)]] by simp
next
  case (limit s nxt c cs parents t)
  then show ?case using subset_trans [OF handleCommit_keys [OF limit(3)]] by simp
next
  case (full s c cs parents)
  then show ?case by (intro handleCommit_keys)
qed simp_all

lemma scan_level_parents:
  assumes "scan_level git s nxt cs = Inr (s', nxt')"
    and U: "\<And>c co. c \<in> U \<Longrightarrow> git c = Inr co \<Longrightarrow> set (commit_parents co) \<subseteq> U"
  shows "set nxt \<union> set cs \<subseteq> U \<Longrightarrow> set nxt' \<subseteq> U"
  using assms(1)
proof (induction rule: scan_level_induct)
  case (step s nxt c cs parents t)
  obtain co where "git c = Inr co" "parents = commit_parents co" using step(3) by (rule handleCommitE)
  then show ?case using step U [of c co] by auto
qed auto

subsection \<open>Termination of the search\<close>

text \<open>A history: a set of commits with all their parents.\<close>

definition history :: "commit_source \<Rightarrow> string set \<Rightarrow> bool" where
  "history git U \<longleftrightarrow> finite U \<and> (\<forall>c \<in> U. \<exists>co. git c = Inr co \<and> set (commit_parents co) \<subseteq> U)"

lemma scan_level_no_error:
  assumes "history git U"
  shows "set cs \<subseteq> U \<Longrightarrow> \<exists>s' nxt'. scan_level git s nxt cs = Inr (s', nxt')"
proof (induction git\<equiv>git s nxt cs rule: scan_level.induct)
  case (2 s nxt c cs)
  have "\<exists>co. git c = Inr co" using 2(5) assms by (auto simp: history_def)
  then obtain parents t where "handleCommit git s c = Inr (parents, t)"
    by (auto simp: handleCommit_def Let_def)
  then show ?case using 2 by auto
qed simp

lemma scan_loop_total:
  assumes H: "history git U"
  shows "set cur \<subseteq> U \<Longrightarrow> set (isAlreadyScannedCommit s) \<subseteq> U \<Longrightarrow> \<exists>s'. scan_loop git s cur = Some (Inr s')"
proof (induction "card (U - set (isAlreadyScannedCommit s))" arbitrary: s cur rule: less_induct)
  case less
  let ?s = "s\<lparr>scanDepth := scanDepth s + 1\<rparr>"
  obtain s' nxt' where level: "scan_level git ?s [] cur = Inr (s', nxt')"
    using scan_level_no_error [OF H less.prems(1)] by blast
  show ?case
  proof (cases "nxt' = []")
    case True
    then show ?thesis by (subst scan_loop.simps) (simp add: level)
  next
    case False
    note sc = scan_level_scanned [OF level]
    then have "set (isAlreadyScannedCommit s) \<subset> set (isAlreadyScannedCommit s')" and sub: "set (isAlreadyScannedCommit s') \<subseteq> U"
      using False less.prems by auto
    then have "card (U - set (isAlreadyScannedCommit s')) < card (U - set (isAlreadyScannedCommit s))"
      using H by (intro psubset_card_mono) (auto simp: history_def)
    moreover have "set nxt' \<subseteq> U"
      using scan_level_parents [OF level, of U] H less.prems(1) by (fastforce simp: history_def)
    ultimately obtain s'' where "scan_loop git s' nxt' = Some (Inr s'')" using less.hyps sub by blast
    then show ?thesis using False by (subst scan_loop.simps) (simp add: level)
  qed
qed

text \<open>Even when commits cannot be read the search returns, with an error then: every level but the last reads a commit for
  the first time, so it is enough that the repository has finitely many commits.\<close>

definition readable :: "commit_source \<Rightarrow> string set" where
  "readable git = {c. \<exists>co. git c = Inr co}"

lemma scan_level_reads:
  "scan_level git s nxt cs = Inr (s', nxt') \<Longrightarrow>
   set (isAlreadyScannedCommit s) \<subseteq> set (isAlreadyScannedCommit s') \<and>
   (nxt' = nxt \<or> (\<exists>c \<in> readable git. c \<in> set (isAlreadyScannedCommit s') - set (isAlreadyScannedCommit s)))"
proof (induction git\<equiv>git s nxt cs arbitrary: s' nxt' rule: scan_level.induct)
  case (2 s nxt c cs)
  show ?case
  proof (cases "c \<in> set (isAlreadyScannedCommit s) \<or> isStopCommit s c")
    case True
    then show ?thesis using 2 by (auto split: if_splits)
  next
    case new: False
    then obtain parents t where h: "handleCommit git s c = Inr (parents, t)" using 2(5) by (auto split: sum.splits)
    then obtain co where co: "git c = Inr co" by (auto simp: handleCommit_def Let_def split: sum.splits)
    from h have same: "isAlreadyScannedCommit t = isAlreadyScannedCommit s" by (auto simp: handleCommit_def Let_def split: sum.splits)
    consider "scanDepth t = s_scanDepthLimit t" | "scanDepth t \<noteq> s_scanDepthLimit t" "length (expectedStageIDCommitList t) = length (reachedStageIDCommitList t)"
      | "scanDepth t \<noteq> s_scanDepthLimit t" "length (expectedStageIDCommitList t) \<noteq> length (reachedStageIDCommitList t)" by blast
    then show ?thesis
    proof cases
      case 1
      then have "scan_level git t nxt cs = Inr (s', nxt')" using 2(5) new h by simp
      from 2(3) [OF _ _ h refl 1 this] new same show ?thesis by auto
    next
      case 2
      then show ?thesis using "2.prems" new h same by simp
    next
      case 3
      let ?t = "t\<lparr>isAlreadyScannedCommit := c # isAlreadyScannedCommit t\<rparr>"
      have "scan_level git ?t (nxt @ parents) cs = Inr (s', nxt')" using 2(5) new h 3 by simp
      from 2(4) [OF _ _ h refl 3 this] have "set (isAlreadyScannedCommit ?t) \<subseteq> set (isAlreadyScannedCommit s')" using new by auto
      then show ?thesis using new same co by (auto simp: readable_def)
    qed
  qed
qed simp

lemma scan_loop_returns:
  assumes "finite (readable git)"
  shows "scan_loop git s cur \<noteq> None"
proof (induction "card (readable git - set (isAlreadyScannedCommit s))" arbitrary: s cur rule: less_induct)
  case less
  let ?s = "s\<lparr>scanDepth := scanDepth s + 1\<rparr>"
  show ?case
  proof (cases "scan_level git ?s [] cur")
    case (Inl e)
    then show ?thesis by (subst scan_loop.simps) simp
  next
    case (Inr r)
    obtain s' nxt' where r: "r = (s', nxt')" by (cases r)
    show ?thesis
    proof (cases "nxt' = []")
      case True
      then show ?thesis by (subst scan_loop.simps) (simp add: Inr r)
    next
      case False
      with scan_level_reads [OF Inr [unfolded r]] obtain c where c: "c \<in> readable git" "c \<in> set (isAlreadyScannedCommit s')"
        "c \<notin> set (isAlreadyScannedCommit s)" "set (isAlreadyScannedCommit s) \<subseteq> set (isAlreadyScannedCommit s')" by auto
      then have "card (readable git - set (isAlreadyScannedCommit s')) < card (readable git - set (isAlreadyScannedCommit s))"
        using assms by (intro psubset_card_mono) auto
      from less [OF this] False show ?thesis by (subst scan_loop.simps) (simp add: Inr r)
    qed
  qed
qed

lemma scanReferenceHistory_returns: "finite (readable git) \<Longrightarrow> scanReferenceHistory git now srt ref expected stops \<noteq> None"
  by (auto simp: scanReferenceHistory_def scanCommitHistory_def scan_loop_returns split: sum.splits option.splits)

lemma scan_refs_returns: "finite (readable git) \<Longrightarrow> scan_refs addNew git now srt expected acc refs \<noteq> None"
proof (induction refs arbitrary: acc)
  case (Cons ref refs)
  obtain reached stops hits where acc: "acc = (reached, stops, hits)" by (cases acc)
  show ?case using scanReferenceHistory_returns [OF Cons.prems, of now srt ref expected stops] Cons.IH [OF Cons.prems]
    unfolding acc by (auto split: option.splits sum.splits)
qed simp

lemma ScanReferencesHistory_returns: "finite (readable git) \<Longrightarrow> ScanReferencesHistory addNew git now srt refs expected \<noteq> None"
  using scan_refs_returns [of git addNew now srt expected "([], [], [])" "rev refs"]
  by (auto simp: ScanReferencesHistory_def split: option.splits sum.splits)

text \<open>An invariant of the levels holds for the whole search.\<close>

lemma scan_loop_invariant:
  assumes "scan_loop git s cur = Some (Inr s')" and "Q s cur"
    and "\<And>s cur t nxt. Q s cur \<Longrightarrow> scan_level git (s\<lparr>scanDepth := scanDepth s + 1\<rparr>) [] cur = Inr (t, nxt) \<Longrightarrow> Q t nxt"
  shows "Q s' []"
proof -
  define P where "P g s cur r \<longleftrightarrow> g = git \<longrightarrow> Q s cur \<longrightarrow> (case r of Inl _ \<Rightarrow> True | Inr s' \<Rightarrow> Q s' [])"
    for g s cur and r :: "go_error + commitHistoryScanner"
  have "P git s cur (Inr s')"
  proof (rule scan_loop.raw_induct [OF _ assms(1)])
    fix loop :: "commit_source \<Rightarrow> commitHistoryScanner \<Rightarrow> string list \<Rightarrow> (go_error + commitHistoryScanner) option"
    fix g s cur r
    assume IH: "\<And>g s cur r. loop g s cur = Some r \<Longrightarrow> P g s cur r"
      and body: "(case scan_level g (s\<lparr>scanDepth := scanDepth s + 1\<rparr>) [] cur of
          Inl e \<Rightarrow> Some (Inl e)
        | Inr (s', nextIteration) \<Rightarrow> if nextIteration = [] then Some (Inr s') else loop g s' nextIteration) = Some r"
    show "P g s cur r" unfolding P_def
    proof (intro impI)
      assume g: "g = git" and Q: "Q s cur"
      show "case r of Inl _ \<Rightarrow> True | Inr s' \<Rightarrow> Q s' []"
      proof (cases "scan_level git (s\<lparr>scanDepth := scanDepth s + 1\<rparr>) [] cur")
        case (Inr tn)
        obtain t nxt where tn: "tn = (t, nxt)" by (cases tn)
        have "Q t nxt" using assms(3) [OF Q] Inr tn by simp
        then show ?thesis using IH [of git t nxt r] body g Inr tn
          by (auto simp: P_def split: if_splits sum.splits)
      qed (use body g in auto)
    qed
  qed
  then show ?thesis using assms(2) by (simp add: P_def)
qed

subsection \<open>Completeness of the search\<close>

definition all_reached :: "commitHistoryScanner \<Rightarrow> bool" where
  "all_reached s \<longleftrightarrow> map_keys (reachedStageIDCommitList s) = map_keys (expectedStageIDCommitList s)"

definition closed_search :: "commit_source \<Rightarrow> string \<Rightarrow> commitHistoryScanner \<Rightarrow> string list \<Rightarrow> bool" where
  "closed_search git h s pending \<longleftrightarrow>
     (let known = set (isAlreadyScannedCommit s) \<union> set (stopCommitList s) \<union> set pending
      in h \<in> known \<and> (\<forall>c \<in> set (isAlreadyScannedCommit s). \<forall>co. git c = Inr co \<longrightarrow> set (commit_parents co) \<subseteq> known))"

lemma sound_keys: "sound git h s \<Longrightarrow> map_keys (reachedStageIDCommitList s) \<subseteq> map_keys (expectedStageIDCommitList s)"
  by (auto simp: sound_def)

lemma sound_all_reached:
  assumes "sound git h s" and "length (expectedStageIDCommitList s) = length (reachedStageIDCommitList s)"
  shows "all_reached s"
  unfolding all_reached_def
  using assms sound_keys [OF assms(1)]
  by (intro card_subset_eq) (auto simp: sound_def map_ok_card)

lemma scan_level_closed:
  assumes "scan_level git s nxt cs = Inr (s', nxt')" and "sound git h s'"
  shows "scanDepth s \<noteq> s_scanDepthLimit s \<Longrightarrow> closed_search git h s (nxt @ cs) \<Longrightarrow>
    all_reached s' \<or> closed_search git h s' nxt'"
  using assms(1)
proof (induction rule: scan_level_induct)
  case (skip s nxt c cs)
  then show ?case by (auto simp: closed_search_def isStopCommit_def Let_def)
next
  case (limit s nxt c cs parents t)
  then show ?case using handleCommit_setup [OF limit(3)] by (simp add: same_setup_def)
next
  case (full s c cs parents)
  then show ?case using sound_all_reached [OF assms(2)] by simp
next
  case (step s nxt c cs parents t)
  let ?t = "t\<lparr>isAlreadyScannedCommit := c # isAlreadyScannedCommit t\<rparr>"
  obtain co where co: "git c = Inr co" "parents = commit_parents co" using step(3) by (rule handleCommitE)
  have "closed_search git h ?t ((nxt @ parents) @ cs)"
    using step(7) handleCommit_setup [OF step(3)] co by (auto simp: closed_search_def Let_def same_setup_def)
  then show ?case using step(4,5) by simp
qed simp

definition search_inv :: "commit_source \<Rightarrow> string \<Rightarrow> commitHistoryScanner \<Rightarrow> string list \<Rightarrow> bool" where
  "search_inv git h s cur \<longleftrightarrow>
     sound git h s \<and> pending_ok git (stopCommitList s) h cur \<and> 0 \<le> scanDepth s \<and>
     (s_scanDepthLimit s \<le> 0 \<longrightarrow> all_reached s \<or> closed_search git h s cur)"

lemma search_inv_level:
  assumes "search_inv git h s cur" and "scan_level git (s\<lparr>scanDepth := scanDepth s + 1\<rparr>) [] cur = Inr (t, nxt)"
  shows "search_inv git h t nxt"
proof -
  let ?s = "s\<lparr>scanDepth := scanDepth s + 1\<rparr>"
  have s: "sound git h ?s" "pending_ok git (stopCommitList ?s) h ([] @ cur)"
    using assms(1) by (simp_all add: search_inv_def sound_def)
  note t = scan_level_sound [OF assms(2) s] scan_level_setup [OF assms(2)] scan_level_keys [OF assms(2)]
  have "all_reached t" if "all_reached s"
    using that t sound_keys [of git h t] by (auto simp: all_reached_def same_setup_def)
  moreover have "all_reached t \<or> closed_search git h t nxt" if "closed_search git h s cur" "s_scanDepthLimit s \<le> 0"
    using scan_level_closed [OF assms(2)] t that assms(1)
    by (auto simp: search_inv_def closed_search_def Let_def)
  ultimately show ?thesis using t assms(1) by (auto simp: search_inv_def same_setup_def)
qed

lemma closed_reachable:
  assumes "closed_search git h s []" and "reachable git (stopCommitList s) h c"
  shows "c \<in> set (isAlreadyScannedCommit s)"
  using assms(2)
proof (induction rule: reachable.induct)
  case head
  then show ?case using assms(1) by (simp add: closed_search_def)
next
  case (parent c co p)
  then show ?case using assms(1) by (auto simp: closed_search_def)
qed

lemma sound_new: "map_ok expected \<Longrightarrow> sound git h (new_scanner expected stops ref)"
  by (simp add: sound_def new_scanner_def)

lemma scan_setup:
  assumes "scanCommitHistory git s c = Some (Inr s')"
  shows "same_setup s s'"
  using scan_loop_invariant [OF assms [unfolded scanCommitHistory_def], of "\<lambda>t _. same_setup s t"] scan_level_setup
  by (fastforce simp: same_setup_def)

lemma scan_search_inv:
  assumes "scanCommitHistory git (new_scanner expected stops ref) h = Some (Inr s')" and "map_ok expected"
  shows "search_inv git h s' []"
proof (rule scan_loop_invariant [OF assms(1) [unfolded scanCommitHistory_def], of "search_inv git h"])
  show "search_inv git h (new_scanner expected stops ref) [h]"
    using sound_new [OF assms(2)] reachable.head [of h stops git]
    by (auto simp: search_inv_def pending_ok_def closed_search_def new_scanner_def)
qed (rule search_inv_level)

lemma scan_complete:
  assumes "scanCommitHistory git (new_scanner expected stops ref) h = Some (Inr s')" and "map_ok expected"
    and "scanDepthLimit ref \<le> 0" and "c \<in> set (slice_get expected i)" and "reachable git stops h c"
  shows "i \<in> map_keys (reachedStageIDCommitList s')"
proof -
  have static: "expectedStageIDCommitList s' = expected" "stopCommitList s' = stops" "s_scanDepthLimit s' \<le> 0"
    using scan_setup [OF assms(1)] assms(3) by (simp_all add: same_setup_def new_scanner_def)
  have inv: "search_inv git h s' []" using assms(1,2) by (rule scan_search_inv)
  then consider (every) "all_reached s'" | (cl) "closed_search git h s' []" using static by (auto simp: search_inv_def)
  then show ?thesis
  proof cases
    case every
    then show ?thesis using static assms(4) slice_get_notin [of i expected] by (auto simp: all_reached_def)
  next
    case cl
    then have "c \<in> set (isAlreadyScannedCommit s')" using closed_reachable assms(5) static by blast
    then show ?thesis using inv static assms(4) by (simp add: search_inv_def sound_def)
  qed
qed

subsection \<open>Latest commits\<close>

lemma latest_commit_ok:
  assumes "\<forall>c \<in> set cs. \<exists>co. git c = Inr co"
  shows "\<exists>r. latest_commit git best cs = Inr r \<and> (r = None \<longleftrightarrow> best = None \<and> cs = []) \<and>
    (\<forall>co. r = Some co \<longrightarrow> best = Some co \<or> (\<exists>c \<in> set cs. git c = Inr co)) \<and>
    (\<forall>co. r = Some co \<longrightarrow> (\<forall>b. best = Some b \<longrightarrow> commit_when b \<le> commit_when co) \<and>
       (\<forall>c \<in> set cs. \<forall>co'. git c = Inr co' \<longrightarrow> commit_when co' \<le> commit_when co))"
  using assms
proof (induction cs arbitrary: best)
  case (Cons c cs)
  obtain co where co: "git c = Inr co" using Cons.prems by auto
  define best' where "best' = (case best of None \<Rightarrow> co | Some b \<Rightarrow> if commit_when co > commit_when b then co else b)"
  have "latest_commit git best (c # cs) = latest_commit git (Some best') cs"
    by (cases best) (simp_all add: co best'_def)
  moreover have "\<exists>r. latest_commit git (Some best') cs = Inr (Some r) \<and>
    (r = best' \<or> (\<exists>c \<in> set cs. git c = Inr r)) \<and> commit_when best' \<le> commit_when r \<and>
    (\<forall>c \<in> set cs. \<forall>co'. git c = Inr co' \<longrightarrow> commit_when co' \<le> commit_when r)"
    using Cons.IH [of "Some best'"] Cons.prems by auto
  then obtain r where r: "latest_commit git (Some best') cs = Inr (Some r)"
    "r = best' \<or> (\<exists>c \<in> set cs. git c = Inr r)" "commit_when best' \<le> commit_when r"
    "\<forall>c \<in> set cs. \<forall>co'. git c = Inr co' \<longrightarrow> commit_when co' \<le> commit_when r" by blast
  moreover have "best' = co \<or> best = Some best'" "commit_when co \<le> commit_when best'"
    "\<forall>b. best = Some b \<longrightarrow> commit_when b \<le> commit_when best'"
    by (cases best; simp add: best'_def)+
  ultimately show ?case using co r by (intro exI [of _ "Some r"]) (auto 4 4 intro: order_trans)
qed simp

text \<open>The latest of the reached commits of a stage.\<close>

definition latest_of :: "commit_source \<Rightarrow> string list \<Rightarrow> commit \<Rightarrow> bool" where
  "latest_of git cs co \<longleftrightarrow> latest_commit git None cs = Inr (Some co)"

lemma latest_ofD:
  assumes "latest_of git cs co" and "\<forall>c \<in> set cs. \<exists>co. git c = Inr co"
  shows "\<exists>c \<in> set cs. git c = Inr co"
  using latest_commit_ok [OF assms(2), of None] assms(1) by (auto simp: latest_of_def)

lemma latest_of_ex:
  "cs \<noteq> [] \<Longrightarrow> \<forall>c \<in> set cs. \<exists>co. git c = Inr co \<Longrightarrow> \<exists>!co. latest_of git cs co"
  using latest_commit_ok [of cs git None] by (auto simp: latest_of_def)

lemma latestCommitStageIDs_spec:
  assumes "sound git h s"
  obtains latest where "latestCommitStageIDs git s = Inr latest" and "map_ok latest"
    and "\<And>i co. i \<in> set (slice_get latest co) \<longleftrightarrow>
           i \<in> map_keys (reachedStageIDCommitList s) \<and> latest_of git (slice_get (reachedStageIDCommitList s) i) co"
    and "\<And>co. co \<in> map_keys latest \<Longrightarrow> slice_get latest co \<noteq> []"
proof -
  let ?R = "reachedStageIDCommitList s"
  let ?step = "\<lambda>m (i, cs). case latest_commit git None cs of
         Inl e \<Rightarrow> Inl e | Inr None \<Rightarrow> Inr m | Inr (Some co) \<Rightarrow> Inr (slice_append co [i] m)"
  have ok: "map_ok ?R" using assms by (simp add: sound_def)
  have res': "cs \<noteq> [] \<and> (\<forall>c \<in> set cs. \<exists>co. git c = Inr co)" if "(i, cs) \<in> set ?R" for i cs
  proof -
    have "slice_get ?R i = cs" using ok that by (rule slice_get_mem)
    moreover have "i \<in> map_keys ?R" using that by force
    ultimately show ?thesis using assms by (metis (no_types, lifting) sound_def)
  qed
  have "\<exists>latest. fold_res ?step m xs = Inr latest \<and> (map_ok m \<longrightarrow> map_ok latest) \<and>
     (\<forall>i co. i \<in> set (slice_get latest co) \<longleftrightarrow> i \<in> set (slice_get m co) \<or> (\<exists>cs. (i, cs) \<in> set xs \<and> latest_of git cs co)) \<and>
     ((\<forall>co \<in> map_keys m. slice_get m co \<noteq> []) \<longrightarrow> (\<forall>co \<in> map_keys latest. slice_get latest co \<noteq> []))"
    if "\<forall>(i, cs) \<in> set xs. cs \<noteq> [] \<and> (\<forall>c \<in> set cs. \<exists>co. git c = Inr co)" for xs m
    using that
  proof (induction xs arbitrary: m)
    case (Cons x xs)
    obtain i cs where x: "x = (i, cs)" by (cases x)
    obtain co where co: "latest_commit git None cs = Inr (Some co)" and u: "\<And>co'. latest_of git cs co' \<longleftrightarrow> co' = co"
      using latest_of_ex [of cs git] Cons.prems x by (auto simp: latest_of_def)
    obtain latest where "fold_res ?step (slice_append co [i] m) xs = Inr latest"
      and "map_ok (slice_append co [i] m) \<longrightarrow> map_ok latest"
      and "\<forall>j co'. j \<in> set (slice_get latest co') \<longleftrightarrow> j \<in> set (slice_get (slice_append co [i] m) co') \<or>
             (\<exists>cs. (j, cs) \<in> set xs \<and> latest_of git cs co')"
      and "(\<forall>co' \<in> map_keys (slice_append co [i] m). slice_get (slice_append co [i] m) co' \<noteq> []) \<longrightarrow>
             (\<forall>co' \<in> map_keys latest. slice_get latest co' \<noteq> [])"
      using Cons.IH [of "slice_append co [i] m"] Cons.prems by auto
    then show ?case using co u x
      by (intro exI [of _ latest]) (auto simp: go_map_simps simp del: map_of_update split: if_splits)
  qed simp
  note fold = this
  have res: "\<forall>(i, cs) \<in> set ?R. cs \<noteq> [] \<and> (\<forall>c \<in> set cs. \<exists>co. git c = Inr co)" using res' by auto
  obtain latest where latest: "fold_res ?step [] ?R = Inr latest" "map_ok latest"
    "\<forall>i co. i \<in> set (slice_get latest co) \<longleftrightarrow> (\<exists>cs. (i, cs) \<in> set ?R \<and> latest_of git cs co)"
    "\<forall>co \<in> map_keys latest. slice_get latest co \<noteq> []"
    using fold [OF res, of "[]"] by force
  have "(\<exists>cs. (i, cs) \<in> set ?R \<and> latest_of git cs co) \<longleftrightarrow> i \<in> map_keys ?R \<and> latest_of git (slice_get ?R i) co" for i co
    using slice_get_mem [OF ok] by force
  then show thesis using latest by (intro that [of latest]) (auto simp: latestCommitStageIDs_def)
qed

subsection \<open>Results of one reference\<close>

lemma hits_inner:
  "map_keys (foldl (\<lambda>r i. AList.update i v r) r ids) = map_keys r \<union> set ids"
  "map_ok r \<Longrightarrow> map_ok (foldl (\<lambda>r i. AList.update i v r) r ids)"
  "slice_get (foldl (\<lambda>r i. AList.update i v r) r ids) j = (if j \<in> set ids then v else slice_get r j)"
  by (induction ids arbitrary: r) (auto simp: go_map_simps)

lemma hits_fold:
  defines "F \<equiv> foldl (\<lambda>r (co, ids). foldl (\<lambda>r i. AList.update i [commit_hash co] r) r ids)"
  shows "map_keys (F r L) = map_keys r \<union> (\<Union>x \<in> set L. set (snd x))"
    and "map_ok r \<Longrightarrow> map_ok (F r L)"
    and "slice_get (F r L) j = slice_get r j \<or> (\<exists>(co, ids) \<in> set L. j \<in> set ids \<and> slice_get (F r L) j = [commit_hash co])"
    and "j \<notin> map_keys r \<Longrightarrow> j \<in> map_keys (F r L) \<Longrightarrow> \<exists>(co, ids) \<in> set L. j \<in> set ids \<and> slice_get (F r L) j = [commit_hash co]"
proof -
  have keys: "map_keys (F r L) = map_keys r \<union> (\<Union>x \<in> set L. set (snd x))" for r L
    unfolding F_def by (induction L arbitrary: r) (simp_all add: hits_inner(1) case_prod_beta Un_assoc)
  have slice: "slice_get (F r L) j = slice_get r j \<and> (\<forall>(co, ids) \<in> set L. j \<notin> set ids) \<or>
      (\<exists>(co, ids) \<in> set L. j \<in> set ids \<and> slice_get (F r L) j = [commit_hash co])" for r L
  proof (induction L arbitrary: r rule: rev_induct)
    case (snoc x L)
    have F: "slice_get (F r (L @ [x])) j = (if j \<in> set (snd x) then [commit_hash (fst x)] else slice_get (F r L) j)"
      by (simp add: F_def case_prod_beta hits_inner(3))
    show ?case
    proof (cases "j \<in> set (snd x)")
      case True
      then show ?thesis using F by (intro disjI2 bexI [of _ x]) (simp_all add: case_prod_beta)
    next
      case False
      then show ?thesis using F snoc.IH [of r] by (auto simp: case_prod_beta)
    qed
  qed (simp add: F_def)
  show "map_keys (F r L) = map_keys r \<union> (\<Union>x \<in> set L. set (snd x))" by (rule keys)
  show "map_ok r \<Longrightarrow> map_ok (F r L)" unfolding F_def by (induction L arbitrary: r) (auto intro: hits_inner(2))
  show "slice_get (F r L) j = slice_get r j \<or> (\<exists>(co, ids) \<in> set L. j \<in> set ids \<and> slice_get (F r L) j = [commit_hash co])"
    using slice [of r L] by blast
  show "\<exists>(co, ids) \<in> set L. j \<in> set ids \<and> slice_get (F r L) j = [commit_hash co]"
    if "j \<notin> map_keys r" "j \<in> map_keys (F r L)"
  proof -
    have "\<not> (\<forall>(co, ids) \<in> set L. j \<notin> set ids)" using that keys [of r L] by auto
    then show ?thesis using slice [of r L] by blast
  qed
qed

text \<open>\<open>CommitObject\<close> returns the commit it is asked for.\<close>

definition git_ok :: "commit_source \<Rightarrow> bool" where
  "git_ok git \<longleftrightarrow> (\<forall>c co. git c = Inr co \<longrightarrow> commit_hash co = c)"

definition result_ok :: "commit_source \<Rightarrow> commit_table \<Rightarrow> string \<Rightarrow> string list \<Rightarrow> string list \<Rightarrow> commit_table \<Rightarrow> bool" where
  "result_ok git expected h stops reached hits \<longleftrightarrow> map_ok hits \<and> map_keys hits = set reached \<and>
     (\<forall>i \<in> set reached. \<exists>c. slice_get hits i = [c] \<and> c \<in> set (slice_get expected i) \<and> reachable git stops h c)"

definition latest_rows :: "commit_source \<Rightarrow> commitHistoryScanner \<Rightarrow> (commit \<times> string list) list \<Rightarrow> bool" where
  "latest_rows git s L \<longleftrightarrow> (\<forall>(co, ids) \<in> set L. \<forall>i \<in> set ids.
     i \<in> map_keys (reachedStageIDCommitList s) \<and> latest_of git (slice_get (reachedStageIDCommitList s) i) co)"

lemma sound_reached:
  assumes "sound git h s" and "i \<in> map_keys (reachedStageIDCommitList s)"
  shows "slice_get (reachedStageIDCommitList s) i \<noteq> []"
    and "\<forall>c \<in> set (slice_get (reachedStageIDCommitList s) i). \<exists>co. git c = Inr co"
  using assms unfolding sound_def by blast+

lemma result_ok_rows:
  assumes "sound git h s" and "git_ok git" and "latest_rows git s L" and "set reached = (\<Union>x \<in> set L. set (snd x))"
  shows "result_ok git (expectedStageIDCommitList s) h (stopCommitList s) reached (hits_of L)"
proof -
  have keys: "map_keys (hits_of L) = set reached" and ok: "map_ok (hits_of L)"
    unfolding hits_of_def using hits_fold(1,2) [of "[]" L] assms(4) by simp_all
  have "\<exists>c. slice_get (hits_of L) i = [c] \<and> c \<in> set (slice_get (expectedStageIDCommitList s) i) \<and>
      reachable git (stopCommitList s) h c" if "i \<in> set reached" for i
  proof -
    have "\<exists>(co, ids) \<in> set L. i \<in> set ids \<and> slice_get (hits_of L) i = [commit_hash co]"
      using hits_fold(4) [of i "[]" L] that keys by (simp add: hits_of_def)
    then obtain co ids where row: "(co, ids) \<in> set L" "i \<in> set ids" "slice_get (hits_of L) i = [commit_hash co]"
      by blast
    then have "i \<in> map_keys (reachedStageIDCommitList s)" "latest_of git (slice_get (reachedStageIDCommitList s) i) co"
      using assms(3) by (auto simp: latest_rows_def)
    then obtain c where c: "c \<in> set (slice_get (reachedStageIDCommitList s) i)" "git c = Inr co"
      using latest_ofD sound_reached(2) [OF assms(1)] by blast
    then show ?thesis using row assms(1,2) by (intro exI [of _ c]) (auto simp: sound_def git_ok_def)
  qed
  then show ?thesis using keys ok by (simp add: result_ok_def)
qed

lemma reachedStageIDList_eq:
  assumes "sound git h s"
  shows "reachedStageIDList s = map fst (reachedStageIDCommitList s)"
proof -
  have "cs \<noteq> []" if "(i, cs) \<in> set (reachedStageIDCommitList s)" for i cs
  proof -
    have "slice_get (reachedStageIDCommitList s) i = cs" using assms that by (intro slice_get_mem) (auto simp: sound_def)
    then show ?thesis using assms that by (force simp: sound_def)
  qed
  then show ?thesis unfolding reachedStageIDList_def by (metis (mono_tags, lifting) case_prodI2 filter_True)
qed

lemma rows_of_latest:
  assumes "sound git h s"
  obtains latest where "latestCommitStageIDs git s = Inr latest" and "map_ok latest" and "latest_rows git s latest"
    and "(\<Union>x \<in> set latest. set (snd x)) = map_keys (reachedStageIDCommitList s)"
    and "\<And>co. co \<in> map_keys latest \<Longrightarrow> slice_get latest co \<noteq> []"
proof -
  obtain latest where l: "latestCommitStageIDs git s = Inr latest" "map_ok latest"
    "\<And>i co. i \<in> set (slice_get latest co) \<longleftrightarrow>
       i \<in> map_keys (reachedStageIDCommitList s) \<and> latest_of git (slice_get (reachedStageIDCommitList s) i) co"
    "\<And>co. co \<in> map_keys latest \<Longrightarrow> slice_get latest co \<noteq> []"
    using latestCommitStageIDs_spec [OF assms] by blast
  have rows: "latest_rows git s latest"
    using l(2,3) slice_get_mem [OF l(2)] by (fastforce simp: latest_rows_def)
  have "i \<in> (\<Union>x \<in> set latest. set (snd x))" if "i \<in> map_keys (reachedStageIDCommitList s)" for i
  proof -
    have "\<exists>co. latest_of git (slice_get (reachedStageIDCommitList s) i) co"
      by (rule ex1_implies_ex [OF latest_of_ex [OF sound_reached [OF assms that]]])
    then obtain co where co: "latest_of git (slice_get (reachedStageIDCommitList s) i) co" by blast
    have "i \<in> set (slice_get latest co)" using l(3) [of i co] that co by simp
    then obtain ids where "(co, ids) \<in> set latest" "i \<in> set ids" using slice_get_iff_keys [OF l(2)] by blast
    then show ?thesis by force
  qed
  moreover have "(\<Union>x \<in> set latest. set (snd x)) \<subseteq> map_keys (reachedStageIDCommitList s)"
    using rows by (auto simp: latest_rows_def)
  ultimately have "(\<Union>x \<in> set latest. set (snd x)) = map_keys (reachedStageIDCommitList s)" by blast
  from l(1,2) rows this l(4) show thesis by (rule that)
qed

lemma scan_answer_ok:
  assumes "sound git h s" and "git_ok git"
  obtains hits where "\<And>stops. scan_answer git (s\<lparr>stopCommitList := stops\<rparr>) = Inr (reachedStageIDList s, stops, hits)"
    and "scan_answer git s = Inr (reachedStageIDList s, stopCommitList s, hits)"
    and "result_ok git (expectedStageIDCommitList s) h (stopCommitList s) (reachedStageIDList s) hits"
proof -
  obtain latest where l: "latestCommitStageIDs git s = Inr latest" "map_ok latest" "latest_rows git s latest"
    "(\<Union>x \<in> set latest. set (snd x)) = map_keys (reachedStageIDCommitList s)"
    by (rule rows_of_latest [OF assms(1)])
  have same: "latestCommitStageIDs git (s\<lparr>stopCommitList := stops\<rparr>) = latestCommitStageIDs git s"
    "reachedStageIDList (s\<lparr>stopCommitList := stops\<rparr>) = reachedStageIDList s" for stops
    by (simp_all add: latestCommitStageIDs_def reachedStageIDList_def)
  have "result_ok git (expectedStageIDCommitList s) h (stopCommitList s) (reachedStageIDList s) (hits_of latest)"
    using l(4) by (intro result_ok_rows [OF assms l(3)]) (simp add: reachedStageIDList_eq [OF assms(1)])
  then show thesis using l(1) same
    by (intro that [of "hits_of latest"]) (simp_all add: scan_answer_def stageIDHitCommitList_def)
qed

lemma kept_result_ok:
  assumes "sound git h s" and "git_ok git" and "latest_rows git s latest" and "map_ok latest" and "set kept \<subseteq> map_keys latest"
  obtains reached hits where "kept_result s latest kept = (reached, stopCommitList s, hits)"
    and "result_ok git (expectedStageIDCommitList s) h (stopCommitList s) reached hits"
    and "set (concat (map snd hits)) \<subseteq> commit_hash ` set kept"
    and "set reached = (\<Union>co \<in> set kept. set (slice_get latest co))"
proof -
  let ?L = "map (\<lambda>co. (co, slice_get latest co)) kept"
  have "(co, slice_get latest co) \<in> set latest" if "co \<in> set kept" for co
    using that assms(4,5) slice_get_mem [OF assms(4)] by force
  then have rows: "latest_rows git s ?L" using assms(3) by (fastforce simp: latest_rows_def)
  have ok: "result_ok git (expectedStageIDCommitList s) h (stopCommitList s) (concat (map (slice_get latest) kept)) (hits_of ?L)"
    by (rule result_ok_rows [OF assms(1,2) rows]) auto
  have "set cs \<subseteq> commit_hash ` set kept" if "(i, cs) \<in> set (hits_of ?L)" for i cs
  proof -
    have "slice_get (hits_of ?L) i = cs" using ok that by (auto simp: result_ok_def intro: slice_get_mem)
    moreover have "i \<in> map_keys (hits_of ?L)" using that by force
    ultimately show ?thesis using hits_fold(4) [of i "[]" ?L] unfolding hits_of_def [symmetric] by auto
  qed
  then have "set (concat (map snd (hits_of ?L))) \<subseteq> commit_hash ` set kept" by force
  with ok show thesis by (intro that) (auto simp: kept_result_def)
qed

subsection \<open>The scan of one reference\<close>

definition young :: "commit_source \<Rightarrow> int \<Rightarrow> int \<Rightarrow> string \<Rightarrow> bool" where
  "young git now d c \<longleftrightarrow> (case git c of Inl _ \<Rightarrow> False | Inr co \<Rightarrow> commit_when co > now - d)"

definition resolvable :: "commit_source \<Rightarrow> commit_table \<Rightarrow> bool" where
  "resolvable git t \<longleftrightarrow> (\<forall>(i, cs) \<in> set t. \<forall>c \<in> set cs. \<exists>co. git c = Inr co)"

lemma young_fold:
  assumes "\<forall>c \<in> set cs. \<exists>co. git c = Inr co"
  shows "fold_res (\<lambda>acc c. case git c of
       Inl e \<Rightarrow> Inl (Panic ''unexpected condition'')
     | Inr co \<Rightarrow> Inr (if commit_when co > now - d then acc @ [c] else acc)) acc cs =
     Inr (acc @ filter (young git now d) cs)"
  using assms
proof (induction cs arbitrary: acc)
  case (Cons c cs)
  then obtain co where "git c = Inr co" by auto
  then show ?case using Cons by (simp add: young_def)
qed simp

lemma applyIn_ok:
  assumes "map_ok expected" and "resolvable git expected"
  obtains t where "applyImagesCleanupInPolicy git now expected inn = Inr t" and "map_ok t"
    and "\<And>i. slice_get t i = (case inn of None \<Rightarrow> slice_get expected i | Some d \<Rightarrow> filter (young git now d) (slice_get expected i))"
    and "map_keys t \<subseteq> map_keys expected"
proof (cases inn)
  case None
  then show thesis using assms by (intro that [of expected]) (auto simp: applyImagesCleanupInPolicy_def)
next
  case (Some d)
  let ?step = "\<lambda>result (i, cs). case fold_res (\<lambda>acc c. case git c of
                     Inl e \<Rightarrow> Inl (Panic ''unexpected condition'')
                   | Inr co \<Rightarrow> Inr (if commit_when co > now - d then acc @ [c] else acc)) [] cs of
                Inl e \<Rightarrow> Inl e
              | Inr r \<Rightarrow> Inr (if r \<noteq> [] then AList.update i r result else result)"
  have fold: "\<exists>t. fold_res ?step r xs = Inr t \<and> (map_ok r \<longrightarrow> map_ok t) \<and> map_keys t \<subseteq> map_keys r \<union> map_keys xs \<and>
      (\<forall>i. slice_get t i = (if i \<in> map_keys xs then filter (young git now d) (slice_get xs i) else slice_get r i))"
    if "resolvable git xs" "map_ok xs" "map_keys r \<inter> map_keys xs = {}" for r xs
    using that
  proof (induction xs arbitrary: r)
    case (Cons x xs)
    obtain i cs where x: "x = (i, cs)" by (cases x)
    let ?y = "filter (young git now d) cs"
    let ?r = "if ?y \<noteq> [] then AList.update i ?y r else r"
    have step: "?step r x = Inr ?r"
      using young_fold [of cs git now d "[]"] Cons.prems(1) by (simp add: x resolvable_def)
    have "resolvable git xs" "map_ok xs" "map_keys ?r \<inter> map_keys xs = {}"
      using Cons.prems by (auto simp: x resolvable_def map_keys_update)
    then obtain t where t: "fold_res ?step ?r xs = Inr t" "map_ok ?r \<longrightarrow> map_ok t" "map_keys t \<subseteq> map_keys ?r \<union> map_keys xs"
      "\<forall>j. slice_get t j = (if j \<in> map_keys xs then filter (young git now d) (slice_get xs j) else slice_get ?r j)"
      using Cons.IH [of ?r] by blast
    have i: "i \<notin> map_keys xs" "slice_get r i = []"
      using Cons.prems by (auto simp: x intro: slice_get_notin)
    have slice: "slice_get t j = (if j \<in> map_keys (x # xs) then filter (young git now d) (slice_get (x # xs) j) else slice_get r j)" for j
      using t(4) i by (auto simp: x slice_get_update slice_get_def [of "_ # _"] slice_get_def [of xs])
    have "map_keys ?r \<subseteq> insert i (map_keys r)" by (cases "?y = []") (auto simp: map_keys_update)
    then have keys: "map_keys t \<subseteq> map_keys r \<union> map_keys (x # xs)" using t(3)
      by (simp only: x list.set image_insert fst_conv) blast
    have ok: "map_ok r \<longrightarrow> map_ok t" using t(2) by (cases "?y = []") (auto simp: map_ok_update)
    have "fold_res ?step r (x # xs) = Inr t" by (simp only: fold_res.simps step sum.case t(1))
    with keys ok slice show ?case by blast
  qed (simp add: slice_get_def)
  obtain t where t: "fold_res ?step [] expected = Inr t" "map_ok t" "map_keys t \<subseteq> map_keys expected"
    "\<forall>i. slice_get t i = (if i \<in> map_keys expected then filter (young git now d) (slice_get expected i) else [])"
    using fold [of expected "[]"] assms by auto
  show thesis using t slice_get_notin [of _ expected]
    by (intro that [of t]) (auto simp: Some applyImagesCleanupInPolicy_def)
qed

lemma result_ok_card:
  assumes "result_ok git expected h stops reached hits"
  shows "card (set (concat (map snd hits))) \<le> card (set reached)"
proof -
  have "c \<in> (\<lambda>i. hd (slice_get hits i)) ` set reached" if x: "x \<in> set hits" "c \<in> set (snd x)" for x c
  proof -
    have sl: "slice_get hits (fst x) = snd x" and fx: "fst x \<in> set reached"
      using assms x(1) by (auto simp: result_ok_def intro!: slice_get_mem)
    obtain c' where c': "slice_get hits (fst x) = [c']" using assms fx unfolding result_ok_def by blast
    have "c = c'" using x(2) c' unfolding sl by simp
    then have "c = hd (slice_get hits (fst x))" using c' by simp
    with fx have "\<exists>i \<in> set reached. c = hd (slice_get hits i)" by blast
    then show ?thesis by blast
  qed
  then have "set (concat (map snd hits)) \<subseteq> (\<lambda>i. hd (slice_get hits i)) ` set reached" by auto
  then show ?thesis by (meson List.finite_set card_image_le card_mono finite_imageI order_trans)
qed

definition ref_bounded :: "metaCleanupKeepPolicyLimit \<Rightarrow> bool" where
  "ref_bounded policy \<longleftrightarrow> ImagesPerReference_Last policy > 0 \<and>
     (limit_In policy = None \<or> ImagesPerReference_Operator policy = AndOperator)"

lemma scanned_result_ok:
  assumes sound: "sound git h s" and git: "git_ok git" and srt: "sort_ok srt"
    and ne: "expectedStageIDCommitList s = refExpected" "refExpected \<noteq> []"
    and depth: "s_scanDepthLimit s \<noteq> 0"
  defines "n \<equiv> ImagesPerReference_Last (s_imagesCleanupKeepPolicy s)"
  shows "\<exists>reached stops hits. scanned_result git now srt ref expected refExpected s = Inr (reached, stops, hits) \<and>
    result_ok git refExpected h (stopCommitList s) reached hits \<and>
    (stops = stopCommitList s \<or>
       (\<exists>c. stops = stopCommitList s @ [c]) \<and> set reached = map_keys expected \<and> set expected = set refExpected) \<and>
    (ref_bounded (s_imagesCleanupKeepPolicy s) \<longrightarrow> card (set (concat (map snd hits))) \<le> nat n) \<and>
    (n \<le> 0 \<or> int (card (map_keys (reachedStageIDCommitList s))) \<le> n \<longrightarrow>
       set reached = map_keys (reachedStageIDCommitList s))"
proof -
  let ?ids = "reachedStageIDList s"
  have ids: "?ids = map fst (reachedStageIDCommitList s)" using sound by (rule reachedStageIDList_eq)
  then have idset: "set ?ids = map_keys (reachedStageIDCommitList s)" by simp
  have card: "card (map_keys (reachedStageIDCommitList s)) = length ?ids"
    using sound ids by (simp add: sound_def map_ok_card)
  obtain hits where ans: "\<And>stops. scan_answer git (s\<lparr>stopCommitList := stops\<rparr>) = Inr (?ids, stops, hits)"
    "scan_answer git s = Inr (?ids, stopCommitList s, hits)"
    "result_ok git refExpected h (stopCommitList s) ?ids hits"
    using scan_answer_ok [OF sound git] ne(1) by metis
  have hitcard: "card (set (concat (map snd hits))) \<le> length ?ids"
    using result_ok_card [OF ans(3)] card idset by simp
  show ?thesis
  proof (cases "n > 0 \<and> int (length ?ids) > n")
    case True
    obtain latest where l: "latestCommitStageIDs git s = Inr latest" "map_ok latest" "latest_rows git s latest"
      by (rule rows_of_latest [OF sound])
    let ?sorted = "srt commit_when (map fst latest)"
    have sub: "set ?sorted = map_keys latest" using sort_okD(1) [OF srt, of commit_when "map fst latest"] by simp
    define kept where "kept = (case limit_In (s_imagesCleanupKeepPolicy s) of
        None \<Rightarrow> take (nat n) ?sorted
      | Some inn \<Rightarrow> (let byLast = take (nat n) ?sorted; byIn = filter (\<lambda>co. commit_when co > now - inn) ?sorted
          in if ImagesPerReference_Operator (s_imagesCleanupKeepPolicy s) = AndOperator
             then concat (map (\<lambda>c. map (\<lambda>_. c) (filter (\<lambda>c'. c = c') byIn)) byLast)
             else byIn @ filter (\<lambda>c. c \<notin> set byIn) byLast))"
    have res: "scanned_result git now srt ref expected refExpected s = Inr (kept_result s latest kept)"
      using True l(1) by (auto simp: scanned_result_def n_def Let_def kept_def handleExtraStageIDsByLast_def
          handleExtraStageIDsByLastWithIn_def split: option.splits)
    have keptsub: "set kept \<subseteq> map_keys latest"
      using sub by (auto simp: kept_def Let_def dest: in_set_takeD split: option.splits if_splits)
    have bound: "card (set kept) \<le> nat n" if "ref_bounded (s_imagesCleanupKeepPolicy s)"
    proof -
      have "set kept \<subseteq> set (take (nat n) ?sorted)"
        using that by (auto simp: kept_def ref_bounded_def Let_def split: option.splits)
      then have "card (set kept) \<le> card (set (take (nat n) ?sorted))" by (intro card_mono) auto
      also have "\<dots> \<le> nat n" using card_length [of "take (nat n) ?sorted"] by (simp add: min_def split: if_splits)
      finally show ?thesis .
    qed
    obtain reached hits where k: "kept_result s latest kept = (reached, stopCommitList s, hits)"
      "result_ok git (expectedStageIDCommitList s) h (stopCommitList s) reached hits"
      "set (concat (map snd hits)) \<subseteq> commit_hash ` set kept"
      by (rule kept_result_ok [OF sound git l(3,2) keptsub])
    have "card (set (concat (map snd hits))) \<le> card (set kept)"
      using k(3) by (meson List.finite_set card_image_le card_mono finite_imageI order_trans)
    then show ?thesis using res k bound ne True card by auto
  next
    case False
    have nbound: "ref_bounded (s_imagesCleanupKeepPolicy s) \<Longrightarrow> int (length ?ids) \<le> n"
      using False by (auto simp: ref_bounded_def n_def)
    have "int (card (set (concat (map snd hits)))) \<le> n" if "ref_bounded (s_imagesCleanupKeepPolicy s)"
      using hitcard nbound [OF that] by linarith
    then have bounded: "ref_bounded (s_imagesCleanupKeepPolicy s) \<longrightarrow> card (set (concat (map snd hits))) \<le> nat n"
      by auto
    have "scanned_result git now srt ref expected refExpected s =
        (if (n > 0 \<and> int (length ?ids) = n) \<or> \<not> map_DeepEqual expected refExpected \<or> length ?ids \<noteq> length refExpected
         then scan_answer git s
         else case last_reached s of Inl e \<Rightarrow> Inl e | Inr c \<Rightarrow> scan_answer git (s\<lparr>stopCommitList := stopCommitList s @ [c]\<rparr>))"
      using False depth ne(1)
      by (auto simp: scanned_result_def Let_def n_def [symmetric] handleStopCommitList_def)
    then consider (same) "scanned_result git now srt ref expected refExpected s = scan_answer git s"
      | (stop) "set expected = set refExpected" "length ?ids = length refExpected"
          "scanned_result git now srt ref expected refExpected s =
             (case last_reached s of Inl e \<Rightarrow> Inl e | Inr c \<Rightarrow> scan_answer git (s\<lparr>stopCommitList := stopCommitList s @ [c]\<rparr>))"
      by (auto simp: map_DeepEqual_def split: if_splits)
    then show ?thesis
    proof cases
      case same
      then show ?thesis using ans(2,3) bounded idset by auto
    next
      case stop
      have "length (expectedStageIDCommitList s) = length (reachedStageIDCommitList s)"
        using stop(2) ids ne(1) by simp
      then have all: "map_keys (reachedStageIDCommitList s) = map_keys refExpected"
        using sound_all_reached [OF sound] ne(1) by (simp add: all_reached_def)
      then have "reachedCommitList s \<noteq> []" using sound ne(2) map_keys_nonempty [of refExpected]
        by (auto simp: sound_def)
      then obtain c where "last_reached s = Inr c" by (simp add: last_reached_def)
      then have "scanned_result git now srt ref expected refExpected s = Inr (?ids, stopCommitList s @ [c], hits)"
        using stop(3) ans(1) by simp
      then show ?thesis using ans(3) bounded idset all stop(1) by auto
    qed
  qed
qed

text \<open>The stages with an expected commit that can be reached from a head.\<close>

definition reachable_stages :: "commit_source \<Rightarrow> commit_table \<Rightarrow> string list \<Rightarrow> string \<Rightarrow> string set" where
  "reachable_stages git expected stops h =
     {i. \<exists>c \<in> set (slice_get expected i). reachable git stops h c}"

text \<open>A policy whose images the scan does not restrict before it counts them.\<close>

definition unrestricted :: "metaCleanupKeepPolicyLimit \<Rightarrow> bool" where
  "unrestricted policy \<longleftrightarrow> ImagesPerReference_Last policy \<noteq> 0 \<and>
     (limit_In policy = None \<or> ImagesPerReference_Operator policy \<noteq> AndOperator)"

lemma reachable_stages_keys: "reachable_stages git expected stops h \<subseteq> map_keys expected"
  using slice_get_notin by (fastforce simp: reachable_stages_def)

lemma result_ok_mono:
  assumes "result_ok git e h stops reached hits" and "\<And>i. set (slice_get e i) \<subseteq> set (slice_get e' i)"
  shows "result_ok git e' h stops reached hits"
  using assms unfolding result_ok_def by blast

lemma result_ok_hit:
  assumes "result_ok git e h stops reached hits" and "c \<in> set (concat (map snd hits))"
  shows "\<exists>i. c \<in> set (slice_get e i)"
proof -
  obtain i cs where i: "(i, cs) \<in> set hits" "c \<in> set cs" using assms(2) by auto
  then have "slice_get hits i = cs" "i \<in> set reached" using assms(1) by (force simp: result_ok_def intro!: slice_get_mem)+
  then show ?thesis using assms(1) i(2) unfolding result_ok_def by (metis empty_iff list.set(1) set_ConsD)
qed

lemma result_ok_commits:
  assumes "result_ok git e h stops reached hits"
  shows "(\<Union>i \<in> set reached. set (slice_get hits i)) = set (concat (map snd hits))"
proof -
  have keys: "map_keys hits = set reached" and ok: "map_ok hits" using assms by (auto simp: result_ok_def)
  have rows: "slice_get hits i = cs" if "(i, cs) \<in> set hits" for i cs using slice_get_mem [OF ok that] .
  show ?thesis
  proof (intro equalityI subsetI)
    fix c assume "c \<in> (\<Union>i \<in> set reached. set (slice_get hits i))"
    then obtain i where i: "i \<in> map_keys hits" "c \<in> set (slice_get hits i)" unfolding keys by blast
    then obtain cs where "(i, cs) \<in> set hits" by force
    with rows i(2) show "c \<in> set (concat (map snd hits))" by force
  next
    fix c assume "c \<in> set (concat (map snd hits))"
    then obtain i cs where i: "(i, cs) \<in> set hits" "c \<in> set cs" by auto
    then have "i \<in> map_keys hits" by force
    then show "c \<in> (\<Union>i \<in> set reached. set (slice_get hits i))" using rows [OF i(1)] i(2) keys by blast
  qed
qed

definition ref_ok :: "commit_source \<Rightarrow> string set \<Rightarrow> ReferenceToScan \<Rightarrow> bool" where
  "ref_ok git U ref \<longleftrightarrow> scanDepthLimit ref \<noteq> 0 \<and> commit_hash (HeadCommit ref) \<in> U"

lemma scanReferenceHistory_ok:
  assumes expected: "map_ok expected" "resolvable git expected" and git: "git_ok git" "history git U"
    and srt: "sort_ok srt" and ref: "ref_ok git U ref"
  defines "h \<equiv> commit_hash (HeadCommit ref)" and "policy \<equiv> imagesCleanupKeepPolicy ref"
  shows "\<exists>reached stops' hits. scanReferenceHistory git now srt ref expected stops = Some (Inr (reached, stops', hits)) \<and>
    result_ok git expected h stops reached hits \<and>
    (stops' = stops \<or> (\<exists>c. stops' = stops @ [c]) \<and> set reached = map_keys expected) \<and>
    (ref_bounded policy \<longrightarrow> card (set (concat (map snd hits))) \<le> nat (ImagesPerReference_Last policy)) \<and>
    (\<forall>d. limit_In policy = Some d \<and> ImagesPerReference_Operator policy = AndOperator \<longrightarrow>
       (\<forall>c \<in> set (concat (map snd hits)). young git now d c)) \<and>
    (unrestricted policy \<and> scanDepthLimit ref \<le> 0 \<and>
       (ImagesPerReference_Last policy < 0 \<or>
        int (card (reachable_stages git expected stops h)) \<le> ImagesPerReference_Last policy) \<longrightarrow>
       reachable_stages git expected stops h \<subseteq> set reached)"
proof -
  have empty: "result_ok git expected h stops [] []" by (simp add: result_ok_def)
  obtain e where e: "ref_expected git now ref expected = Inr e" "map_ok e"
    "\<And>i. set (slice_get e i) \<subseteq> set (slice_get expected i)"
    "map_keys e \<subseteq> map_keys expected"
    "\<And>d i c. limit_In policy = Some d \<Longrightarrow> ImagesPerReference_Operator policy = AndOperator \<Longrightarrow>
       c \<in> set (slice_get e i) \<Longrightarrow> young git now d c"
    "unrestricted policy \<Longrightarrow> e = expected"
  proof (cases "ImagesPerReference_Last policy = 0")
    case True
    then show thesis by (intro that [of "[]"]) (auto simp: ref_expected_def policy_def unrestricted_def)
  next
    case False
    obtain t where t: "applyImagesCleanupInPolicy git now expected (limit_In policy) = Inr t" "map_ok t"
      "\<And>i. slice_get t i = (case limit_In policy of None \<Rightarrow> slice_get expected i | Some d \<Rightarrow> filter (young git now d) (slice_get expected i))"
      "map_keys t \<subseteq> map_keys expected"
      by (rule applyIn_ok [OF expected, where now = now and inn = "limit_In policy"], rule that)
    show thesis
    proof (cases "limit_In policy \<noteq> None \<and> ImagesPerReference_Operator policy = AndOperator")
      case True
      then show thesis using False t
        by (intro that [of t]) (auto simp: ref_expected_def policy_def unrestricted_def split: option.splits)
    next
      case F: False
      show thesis using False F expected(1)
        by (intro that [of expected]) (auto simp: ref_expected_def policy_def unrestricted_def)
    qed
  qed
  show ?thesis
  proof (cases "e = []")
    case True
    then have "scanReferenceHistory git now srt ref expected stops = Some (Inr ([], stops, []))"
      using e(1) by (simp add: scanReferenceHistory_def)
    moreover have "reachable_stages git expected stops h = {}" if "unrestricted policy"
      using e(6) [OF that] True reachable_stages_keys [of git expected stops h] by auto
    ultimately show ?thesis using empty by auto
  next
    case False
    have "\<exists>s'. scan_loop git (new_scanner e stops ref) [h] = Some (Inr s')"
      using ref by (intro scan_loop_total [OF git(2)]) (auto simp: ref_ok_def h_def new_scanner_def)
    then obtain s where s: "scanCommitHistory git (new_scanner e stops ref) h = Some (Inr s)"
      by (auto simp: scanCommitHistory_def)
    have static: "expectedStageIDCommitList s = e" "stopCommitList s = stops" "s_scanDepthLimit s \<noteq> 0"
      "s_imagesCleanupKeepPolicy s = policy"
      using scan_setup [OF s] ref by (simp_all add: same_setup_def new_scanner_def ref_ok_def policy_def)
    have sound: "sound git h s" using scan_search_inv [OF s e(2)] by (simp add: search_inv_def)
    obtain reached stops' hits where r: "scanned_result git now srt ref expected e s = Inr (reached, stops', hits)"
      "result_ok git e h stops reached hits"
      "stops' = stops \<or> (\<exists>c. stops' = stops @ [c]) \<and> set reached = map_keys expected \<and> set expected = set e"
      "ref_bounded policy \<longrightarrow> card (set (concat (map snd hits))) \<le> nat (ImagesPerReference_Last policy)"
      "ImagesPerReference_Last policy \<le> 0 \<or>
        int (card (map_keys (reachedStageIDCommitList s))) \<le> ImagesPerReference_Last policy \<longrightarrow>
       set reached = map_keys (reachedStageIDCommitList s)"
      using scanned_result_ok [OF sound git(1) srt static(1) False static(3), of now ref expected]
      unfolding static by - (elim exE conjE, rule that)
    have res: "scanReferenceHistory git now srt ref expected stops = Some (Inr (reached, stops', hits))"
      using e(1) False s r(1) by (simp add: scanReferenceHistory_def h_def)
    have young: "\<forall>c \<in> set (concat (map snd hits)). young git now d c"
      if "limit_In policy = Some d" "ImagesPerReference_Operator policy = AndOperator" for d
      using result_ok_hit [OF r(2)] e(5) [OF that] by blast
    have complete: "reachable_stages git expected stops h \<subseteq> set reached"
      if u: "unrestricted policy" and d: "scanDepthLimit ref \<le> 0"
        and n: "ImagesPerReference_Last policy < 0 \<or>
          int (card (reachable_stages git expected stops h)) \<le> ImagesPerReference_Last policy"
    proof -
      have ee: "e = expected" using e(6) [OF u] .
      have sub: "reachable_stages git expected stops h \<subseteq> map_keys (reachedStageIDCommitList s)"
        using scan_complete [OF s e(2) d] by (auto simp: reachable_stages_def ee)
      have "i \<in> reachable_stages git expected stops h" if iR: "i \<in> map_keys (reachedStageIDCommitList s)" for i
      proof -
        obtain c where "c \<in> set (slice_get (reachedStageIDCommitList s) i)"
          using sound_reached(1) [OF sound iR] by (cases "slice_get (reachedStageIDCommitList s) i") auto
        then have "c \<in> set (slice_get expected i)" "reachable git stops h c"
          using sound static ee unfolding sound_def by blast+
        then show ?thesis by (auto simp: reachable_stages_def)
      qed
      with sub have "map_keys (reachedStageIDCommitList s) = reachable_stages git expected stops h" by blast
      then show ?thesis using r(5) n by auto
    qed
    have "result_ok git expected h stops reached hits" using r(2) e(3) by (rule result_ok_mono)
    then show ?thesis using res r(3,4) young complete by blast
  qed
qed

subsection \<open>The scan of all references\<close>

definition addNew_ok :: "(string list \<Rightarrow> string list \<Rightarrow> string list) \<Rightarrow> bool" where
  "addNew_ok addNew \<longleftrightarrow> (\<forall>xs ys. set (addNew xs ys) = set xs \<union> set ys)"

lemma merge_hits_props:
  assumes "addNew_ok addNew"
  shows "map_keys (merge_hits addNew hits r) = map_keys hits \<union> map_keys r"
    and "map_ok hits \<Longrightarrow> map_ok (merge_hits addNew hits r)"
    and "map_ok r \<Longrightarrow> set (slice_get (merge_hits addNew hits r) i) = set (slice_get hits i) \<union> set (slice_get r i)"
proof -
  have step: "map_keys (merge_hit addNew m x) = insert (fst x) (map_keys m)"
    "map_ok m \<Longrightarrow> map_ok (merge_hit addNew m x)"
    "set (slice_get (merge_hit addNew m x) j) =
       (if j = fst x then set (slice_get m j) \<union> set (snd x) else set (slice_get m j))" for m x j
    using assms by (auto simp: merge_hit_def go_map_simps slice_get_def [of m] addNew_ok_def case_prod_beta
        split: option.splits)
  show "map_keys (merge_hits addNew hits r) = map_keys hits \<union> map_keys r"
    unfolding merge_hits_def by (induction r arbitrary: hits) (simp_all add: step(1))
  show "map_ok hits \<Longrightarrow> map_ok (merge_hits addNew hits r)"
    unfolding merge_hits_def by (induction r arbitrary: hits) (simp_all add: step(2))
  show "map_ok r \<Longrightarrow> set (slice_get (merge_hits addNew hits r) i) = set (slice_get hits i) \<union> set (slice_get r i)"
    unfolding merge_hits_def
  proof (induction r arbitrary: hits)
    case (Cons x r)
    have "fst x \<notin> map_keys r" using Cons.prems by simp
    then have "slice_get (x # r) i = (if i = fst x then snd x else slice_get r i)" "i = fst x \<Longrightarrow> slice_get r i = []"
      using slice_get_notin [of "fst x" r] by (cases x; auto simp: slice_get_def)+
    then show ?case using Cons.IH [of "merge_hit addNew hits x"] Cons.prems step(3) [of hits x i] by simp
  qed simp
qed

lemma reachable_mono: "reachable git stops h c \<Longrightarrow> set stops' \<subseteq> set stops \<Longrightarrow> reachable git stops' h c"
  by (induction rule: reachable.induct) (auto intro: reachable.intros)

text \<open>A reference all of whose reachable stages the scan keeps: a branch without a restriction by
  age, and either an unlimited number of images or no more reachable stages than the limit.\<close>

definition keeps_all :: "commit_source \<Rightarrow> commit_table \<Rightarrow> ReferenceToScan \<Rightarrow> bool" where
  "keeps_all git expected ref \<longleftrightarrow>
     (let policy = imagesCleanupKeepPolicy ref;
          stages = reachable_stages git expected [] (commit_hash (HeadCommit ref))
      in unrestricted policy \<and> scanDepthLimit ref \<le> 0 \<and>
         (ImagesPerReference_Last policy < 0 \<or> int (card stages) \<le> ImagesPerReference_Last policy))"

definition scan_acc_ok ::
  "commit_source \<Rightarrow> commit_table \<Rightarrow> ReferenceToScan set \<Rightarrow> scan_result \<Rightarrow> bool" where
  "scan_acc_ok git expected seen = (\<lambda>(reached, stops, hits).
     map_ok hits \<and> map_keys hits = set reached \<and> set reached \<subseteq> map_keys expected \<and>
     (\<forall>i. set (slice_get hits i) \<subseteq> set (slice_get expected i)) \<and>
     (\<forall>i \<in> set reached. \<exists>c \<in> set (slice_get hits i). \<exists>ref \<in> seen. reachable git [] (commit_hash (HeadCommit ref)) c) \<and>
     (stops \<noteq> [] \<longrightarrow> set reached = map_keys expected) \<and>
     (\<forall>ref \<in> seen. keeps_all git expected ref \<longrightarrow>
        reachable_stages git expected [] (commit_hash (HeadCommit ref)) \<subseteq> set reached))"

lemma scan_acc_step:
  assumes acc: "scan_acc_ok git expected seen (reached, stops, hits)" and add: "addNew_ok addNew"
    and ok: "result_ok git expected (commit_hash (HeadCommit ref)) stops r h"
    and stops': "stops' = stops \<or> (\<exists>c. stops' = stops @ [c]) \<and> set r = map_keys expected"
    and complete: "keeps_all git expected ref \<and> stops = [] \<longrightarrow>
      reachable_stages git expected [] (commit_hash (HeadCommit ref)) \<subseteq> set r"
  shows "scan_acc_ok git expected (insert ref seen) (addNew reached r, addNew stops stops', merge_hits addNew hits h)"
proof -
  note m = merge_hits_props [OF add]
  have A: "set (addNew xs ys) = set xs \<union> set ys" for xs ys using add by (simp add: addNew_ok_def)
  have rsub: "set r \<subseteq> map_keys expected"
    using ok slice_get_notin unfolding result_ok_def by (metis empty_iff list.set(1) subsetI)
  have hsub: "set (slice_get h i) \<subseteq> set (slice_get expected i)" for i
    using ok slice_get_notin [of i h] unfolding result_ok_def
    by (cases "i \<in> set r") auto
  have hit: "\<exists>c \<in> set (slice_get h i). reachable git [] (commit_hash (HeadCommit ref)) c" if "i \<in> set r" for i
    using ok that reachable_mono [of git stops _ _ "[]"] unfolding result_ok_def by fastforce
  have okh: "map_ok h" "map_keys h = set r" using ok by (simp_all add: result_ok_def)
  have all: "set (addNew reached r) = map_keys expected" if "addNew stops stops' \<noteq> []"
  proof -
    have "set stops \<union> set stops' \<noteq> {}" using that A [of stops stops'] by force
    then show ?thesis using stops' acc rsub unfolding A scan_acc_ok_def by auto
  qed
  have new: "reachable_stages git expected [] (commit_hash (HeadCommit ref)) \<subseteq> set (addNew reached r)"
    if "keeps_all git expected ref"
  proof (cases "stops = []")
    case True
    then show ?thesis using that complete by (auto simp: A)
  next
    case False
    then have "set reached = map_keys expected" using acc by (simp add: scan_acc_ok_def)
    then show ?thesis using reachable_stages_keys [of git expected "[]" "commit_hash (HeadCommit ref)"] by (auto simp: A)
  qed
  have old: "\<exists>c \<in> set (slice_get hits i). \<exists>ref \<in> seen. reachable git [] (commit_hash (HeadCommit ref)) c"
    if "i \<in> set reached" for i using acc that by (simp add: scan_acc_ok_def)
  have "\<exists>c \<in> set (slice_get (merge_hits addNew hits h) i). \<exists>ref \<in> insert ref seen. reachable git [] (commit_hash (HeadCommit ref)) c"
    if "i \<in> set (addNew reached r)" for i
    using that old [of i] hit [of i] unfolding A m(3) [OF okh(1)] by blast
  moreover have "set (slice_get (merge_hits addNew hits h) i) \<subseteq> set (slice_get expected i)" for i
    using hsub acc unfolding m(3) [OF okh(1)] scan_acc_ok_def by simp
  ultimately show ?thesis
    using acc all new m(1,2) okh(2) rsub by (auto simp: scan_acc_ok_def A)
qed

lemma scan_refs_ok:
  assumes "map_ok expected" "resolvable git expected" "git_ok git" "history git U" "sort_ok srt" "addNew_ok addNew"
  shows "\<forall>ref \<in> set refs. ref_ok git U ref \<Longrightarrow> scan_acc_ok git expected seen acc \<Longrightarrow>
    \<exists>acc'. scan_refs addNew git now srt expected acc refs = Some (Inr acc') \<and>
           scan_acc_ok git expected (seen \<union> set refs) acc'"
proof (induction refs arbitrary: acc seen)
  case (Cons ref refs)
  obtain reached stops hits where acc: "acc = (reached, stops, hits)" by (cases acc)
  have ref: "ref_ok git U ref" using Cons.prems(1) by simp
  obtain r stops' h where r: "scanReferenceHistory git now srt ref expected stops = Some (Inr (r, stops', h))"
    "result_ok git expected (commit_hash (HeadCommit ref)) stops r h"
    "stops' = stops \<or> (\<exists>c. stops' = stops @ [c]) \<and> set r = map_keys expected"
    "unrestricted (imagesCleanupKeepPolicy ref) \<and> scanDepthLimit ref \<le> 0 \<and>
       (ImagesPerReference_Last (imagesCleanupKeepPolicy ref) < 0 \<or>
        int (card (reachable_stages git expected stops (commit_hash (HeadCommit ref)))) \<le> ImagesPerReference_Last (imagesCleanupKeepPolicy ref)) \<longrightarrow>
       reachable_stages git expected stops (commit_hash (HeadCommit ref)) \<subseteq> set r"
    using scanReferenceHistory_ok [OF assms(1-5) ref, of now stops] by - (elim exE conjE, rule that)
  have "keeps_all git expected ref \<and> stops = [] \<longrightarrow>
      reachable_stages git expected [] (commit_hash (HeadCommit ref)) \<subseteq> set r"
    using r(4) by (auto simp: keeps_all_def Let_def)
  from scan_acc_step [OF Cons.prems(2) [unfolded acc] assms(6) r(2,3) this]
  have "scan_acc_ok git expected (insert ref seen) (addNew reached r, addNew stops stops', merge_hits addNew hits h)" .
  from Cons.IH [OF _ this] Cons.prems(1) show ?case using r(1) by (simp add: acc)
qed simp

lemma ScanReferencesHistory_result:
  assumes "map_ok expected" "resolvable git expected" "git_ok git" "history git U" "sort_ok srt" "addNew_ok addNew"
    and "\<forall>ref \<in> set refs. ref_ok git U ref"
  shows "\<exists>reached hits. ScanReferencesHistory addNew git now srt refs expected = Some (Inr (reached, hits)) \<and>
    set reached \<subseteq> map_keys expected \<and> map_keys hits = set reached \<and>
    map_ok hits \<and> (\<forall>i. set (slice_get hits i) \<subseteq> set (slice_get expected i)) \<and>
    (\<forall>i \<in> set reached. \<exists>c \<in> set (slice_get hits i). \<exists>ref \<in> set refs.
       reachable git [] (commit_hash (HeadCommit ref)) c) \<and>
    (\<forall>ref \<in> set refs. keeps_all git expected ref \<longrightarrow>
       reachable_stages git expected [] (commit_hash (HeadCommit ref)) \<subseteq> set reached)"
proof -
  have "\<forall>ref \<in> set (rev refs). ref_ok git U ref" using assms(7) by simp
  moreover have "scan_acc_ok git expected {} ([], [], [])" by (simp add: scan_acc_ok_def)
  ultimately obtain acc where acc: "scan_refs addNew git now srt expected ([], [], []) (rev refs) = Some (Inr acc)"
    "scan_acc_ok git expected ({} \<union> set (rev refs)) acc"
    using scan_refs_ok [OF assms(1-6)] by blast
  obtain reached stops hits where "acc = (reached, stops, hits)" by (cases acc)
  with acc show ?thesis by (auto simp: ScanReferencesHistory_def scan_acc_ok_def)
qed

text \<open>C10: on a finite history in which the expected commits and the heads exist the scan of the
  references always returns, without an error and without a panic. Every stage it reports is an
  expected one with a hit commit that is one of its expected commits and is an ancestor of (or
  equal to) the head of some scanned reference, and the table of hits has exactly the reported
  stages. Every stage that can be reached from a branch whose policy keeps all images is reported,
  although scans of other references may add stop commits.\<close>

theorem ScanReferencesHistory_correct:
  assumes "map_ok expected" "resolvable git expected" "git_ok git" "history git U" "sort_ok srt" "addNew_ok addNew"
    and "\<forall>ref \<in> set refs. ref_ok git U ref"
  shows "\<exists>reached hits. ScanReferencesHistory addNew git now srt refs expected = Some (Inr (reached, hits)) \<and>
    set reached \<subseteq> map_keys expected \<and> map_keys hits = set reached \<and>
    (\<forall>i. set (slice_get hits i) \<subseteq> set (slice_get expected i)) \<and>
    (\<forall>i \<in> set reached. \<exists>c \<in> set (slice_get hits i). \<exists>ref \<in> set refs.
       reachable git [] (commit_hash (HeadCommit ref)) c) \<and>
    (\<forall>ref \<in> set refs. keeps_all git expected ref \<longrightarrow>
       reachable_stages git expected [] (commit_hash (HeadCommit ref)) \<subseteq> set reached)"
  using ScanReferencesHistory_result [OF assms, of now] by - (elim exE conjE, intro exI conjI)

text \<open>C20: the images of one reference are limited as configured. Every stage that the scan of the reference protects has
  exactly one hit commit, from which it was published and which is reachable from the head, and only protected stages have one.
  When the policy has a positive \<open>last\<close> and no \<open>in\<close> (or joins them by And), the commits of the protected stages
  are at most \<open>last\<close>; with \<open>in\<close> and And, every one of them is younger than \<open>in\<close>.\<close>

theorem scanReferenceHistory_limits:
  assumes "map_ok expected" "resolvable git expected" "git_ok git" "history git U" "sort_ok srt" "ref_ok git U ref"
  shows "\<exists>reached stops' hits. scanReferenceHistory git now srt ref expected stops = Some (Inr (reached, stops', hits)) \<and>
    map_keys hits = set reached \<and>
    (\<forall>i \<in> set reached. \<exists>c. slice_get hits i = [c] \<and> c \<in> set (slice_get expected i) \<and>
       reachable git stops (commit_hash (HeadCommit ref)) c) \<and>
    (ref_bounded (imagesCleanupKeepPolicy ref) \<longrightarrow>
       card (\<Union>i \<in> set reached. set (slice_get hits i)) \<le> nat (ImagesPerReference_Last (imagesCleanupKeepPolicy ref))) \<and>
    (\<forall>d. limit_In (imagesCleanupKeepPolicy ref) = Some d \<and>
         ImagesPerReference_Operator (imagesCleanupKeepPolicy ref) = AndOperator \<longrightarrow>
       (\<forall>i \<in> set reached. \<forall>c \<in> set (slice_get hits i). young git now d c))"
proof -
  let ?policy = "imagesCleanupKeepPolicy ref"
  obtain reached stops' hits where r: "scanReferenceHistory git now srt ref expected stops = Some (Inr (reached, stops', hits))"
    "result_ok git expected (commit_hash (HeadCommit ref)) stops reached hits"
    "ref_bounded ?policy \<longrightarrow> card (set (concat (map snd hits))) \<le> nat (ImagesPerReference_Last ?policy)"
    "\<forall>d. limit_In ?policy = Some d \<and> ImagesPerReference_Operator ?policy = AndOperator \<longrightarrow>
       (\<forall>c \<in> set (concat (map snd hits)). young git now d c)"
    using scanReferenceHistory_ok [OF assms, of now stops] by blast
  note commits = result_ok_commits [OF r(2)]
  have "set (slice_get hits i) \<subseteq> set (concat (map snd hits))" if "i \<in> set reached" for i
    using that unfolding commits [symmetric] by blast
  then have young: "\<forall>d. limit_In ?policy = Some d \<and> ImagesPerReference_Operator ?policy = AndOperator \<longrightarrow>
       (\<forall>i \<in> set reached. \<forall>c \<in> set (slice_get hits i). young git now d c)" using r(4) by blast
  show ?thesis
    by (rule exI [of _ reached], rule exI [of _ stops'], rule exI [of _ hits])
      (use r(1,2,3) young in \<open>simp add: commits result_ok_def\<close>)
qed

definition demo_git :: commit_source where
  "demo_git c = (if c = ''a'' then Inr \<lparr>commit_hash = ''a'', commit_when = 9, commit_parents = [''b'']\<rparr>
     else if c = ''b'' then Inr \<lparr>commit_hash = ''b'', commit_when = 5, commit_parents = []\<rparr>
     else Inl (Err ''object not found''))"

definition demo_branch :: ReferenceToScan where
  "demo_branch = (demo_ref ''a'' 9)\<lparr>imagesCleanupKeepPolicy := \<lparr>limit_last = Some (-1), limit_in = None, limit_operator = None\<rparr>\<rparr>"

lemma demo_setting:
  "map_ok [(''s1'', [''b''])]" "resolvable demo_git [(''s1'', [''b''])]" "git_ok demo_git" "history demo_git {''a'', ''b''}"
  "sort_ok desc_sort" "addNew_ok (foldl append_new)" "ref_ok demo_git {''a'', ''b''} demo_branch"
  by (simp_all add: resolvable_def demo_git_def git_ok_def history_def desc_sort_ok addNew_ok_def ref_ok_def
      demo_branch_def demo_ref_def)

theorem ScanReferencesHistory_correct_witness:
  "\<exists>reached hits. ScanReferencesHistory (foldl append_new) demo_git 10 desc_sort [demo_branch] [(''s1'', [''b''])] =
     Some (Inr (reached, hits)) \<and> set reached = {''s1''}"
proof -
  have a: "reachable demo_git [] ''a'' ''a''" by (rule reachable.head) simp
  have "reachable demo_git [] ''a'' ''b''"
    by (rule reachable.parent [OF a, of "\<lparr>commit_hash = ''a'', commit_when = 9, commit_parents = [''b'']\<rparr>"])
      (simp_all add: demo_git_def)
  then have "''s1'' \<in> reachable_stages demo_git [(''s1'', [''b''])] [] ''a''"
    by (auto simp: reachable_stages_def slice_get_def)
  moreover have "keeps_all demo_git [(''s1'', [''b''])] demo_branch"
    by (simp add: keeps_all_def demo_branch_def demo_ref_def unrestricted_def limit_defs)
  moreover have "commit_hash (HeadCommit demo_branch) = ''a''" by (simp add: demo_branch_def demo_ref_def)
  moreover have "\<forall>ref \<in> set [demo_branch]. ref_ok demo_git {''a'', ''b''} ref" using demo_setting(7) by simp
  ultimately show ?thesis
    using ScanReferencesHistory_correct [OF demo_setting(1-6), of "[demo_branch]" 10] by fastforce
qed

theorem scanReferenceHistory_limits_witness:
  "\<exists>reached stops' hits. scanReferenceHistory demo_git 10 desc_sort
     (demo_branch\<lparr>imagesCleanupKeepPolicy := \<lparr>limit_last = Some 1, limit_in = None, limit_operator = None\<rparr>\<rparr>) [(''s1'', [''b''])] [] =
     Some (Inr (reached, stops', hits)) \<and> card (\<Union>i \<in> set reached. set (slice_get hits i)) \<le> 1"
proof -
  let ?ref = "demo_branch\<lparr>imagesCleanupKeepPolicy := \<lparr>limit_last = Some 1, limit_in = None, limit_operator = None\<rparr>\<rparr>"
  have "ref_ok demo_git {''a'', ''b''} ?ref" using demo_setting(7) by (simp add: ref_ok_def)
  from scanReferenceHistory_limits [OF demo_setting(1-5) this, of 10 "[]"]
  show ?thesis by (fastforce simp: ref_bounded_def limit_defs)
qed

end
