(* ===== verification/Deployed_Images.thy ===== *)
theory Deployed_Images
  imports Stage_Desc
begin

text \<open>
  The images that are in use in Kubernetes: \<open>src/pkg/cleaning/allow_list/kubernetes.go\<close> (the
  images of one cluster) and \<open>AppendContextDeployedDockerImages\<close>, \<open>deployedDockerImages\<close> of
  \<open>src/pkg/cleaning/cleanup.go\<close> (the images of all contexts). The answers of the API server are
  parameters.
\<close>

subsection \<open>Resources\<close>

record container =
  c_name :: string
  c_image :: string

record workload =
  w_namespace :: string
  w_name :: string
  w_containers :: "container list"
  w_initContainers :: "container list"

text \<open>A job with the types and the states (true or not) of its conditions.\<close>

datatype condition_type = JobComplete | JobFailed | OtherCondition

record job = workload +
  j_conditions :: "(condition_type \<times> bool) list"

record cluster =
  list_Pods :: "go_error + workload list"
  list_ReplicationControllers :: "go_error + workload list"
  list_Deployments :: "go_error + workload list"
  list_StatefulSets :: "go_error + workload list"
  list_DaemonSets :: "go_error + workload list"
  list_ReplicaSets :: "go_error + workload list"
  list_CronJobs_v1 :: "go_error + workload list"
  list_CronJobs_v1beta1 :: "go_error + workload list"
  list_Jobs :: "go_error + job list"
  is_NotFound :: "go_error \<Rightarrow> bool"

subsection \<open>Images of a cluster\<close>

record DeployedImage =
  d_Name :: string
  d_ResourcesNames :: "string list"

fun add_image :: "DeployedImage list \<Rightarrow> DeployedImage \<Rightarrow> DeployedImage list" where
  "add_image [] newDesc = [newDesc]"
| "add_image (desc # res) newDesc =
     (if d_Name desc = d_Name newDesc
      then desc\<lparr>d_ResourcesNames := d_ResourcesNames desc @ d_ResourcesNames newDesc\<rparr> # res
      else desc # add_image res newDesc)"

definition AppendDeployedImages :: "DeployedImage list \<Rightarrow> DeployedImage list \<Rightarrow> DeployedImage list" where
  "AppendDeployedImages deployedImages newDeployedImages = foldl add_image deployedImages newDeployedImages"

definition all_containers :: "('a) workload_scheme \<Rightarrow> container list" where
  "all_containers w = w_containers w @ w_initContainers w"

definition resource_name :: "string \<Rightarrow> 'a workload_scheme \<Rightarrow> container \<Rightarrow> string" where
  "resource_name kind w c = ''ns/'' @ w_namespace w @ '' '' @ kind @ ''/'' @ w_name w @ '' container/'' @ c_name c"

definition workload_images :: "string \<Rightarrow> 'a workload_scheme list \<Rightarrow> DeployedImage list" where
  "workload_images kind ws =
     foldl (\<lambda>images (w, c). AppendDeployedImages images
              [\<lparr>d_Name = c_image c, d_ResourcesNames = [resource_name kind w c]\<rparr>])
       [] (concat (map (\<lambda>w. map (\<lambda>c. (w, c)) (all_containers w)) ws))"

definition get_images :: "string \<Rightarrow> go_error + 'a workload_scheme list \<Rightarrow> go_error + DeployedImage list" where
  "get_images kind answer = (case answer of Inl e \<Rightarrow> Inl e | Inr ws \<Rightarrow> Inr (workload_images kind ws))"

definition getPodsImages where "getPodsImages k = get_images ''pod'' (list_Pods k)"
definition getReplicationControllersImages where
  "getReplicationControllersImages k = get_images ''rc'' (list_ReplicationControllers k)"
definition getDeploymentsImages where "getDeploymentsImages k = get_images ''deploy'' (list_Deployments k)"
definition getStatefulSetsImages where "getStatefulSetsImages k = get_images ''sts'' (list_StatefulSets k)"
definition getDaemonSetsImages where "getDaemonSetsImages k = get_images ''ds'' (list_DaemonSets k)"
definition getReplicaSetsImages where "getReplicaSetsImages k = get_images ''rs'' (list_ReplicaSets k)"

definition getCronJobsImagesBatchV1 where
  "getCronJobsImagesBatchV1 k = get_images ''cronjob'' (list_CronJobs_v1 k)"

definition getCronJobsImagesBatchV1beta1 where
  "getCronJobsImagesBatchV1beta1 k = get_images ''cronjob'' (list_CronJobs_v1beta1 k)"

definition getCronJobsImages :: "cluster \<Rightarrow> go_error + DeployedImage list" where
  "getCronJobsImages k =
     (case getCronJobsImagesBatchV1 k of
        Inr images \<Rightarrow> Inr images
      | Inl e \<Rightarrow> if is_NotFound k e
                 then (case getCronJobsImagesBatchV1beta1 k of Inr images \<Rightarrow> Inr images | Inl _ \<Rightarrow> Inl e)
                 else Inl e)"

definition job_finished :: "job \<Rightarrow> bool" where
  "job_finished j \<longleftrightarrow> (\<exists>(t, on) \<in> set (j_conditions j). (t = JobComplete \<or> t = JobFailed) \<and> on)"

definition getJobsImages :: "cluster \<Rightarrow> go_error + DeployedImage list" where
  "getJobsImages k =
     get_images ''job'' (case list_Jobs k of Inl e \<Rightarrow> Inl e | Inr js \<Rightarrow> Inr (filter (\<lambda>j. \<not> job_finished j) js))"

definition DeployedDockerImages :: "cluster \<Rightarrow> go_error + DeployedImage list" where
  "DeployedDockerImages k =
     fold_res (\<lambda>deployed images. case images of Inl e \<Rightarrow> Inl e | Inr i \<Rightarrow> Inr (AppendDeployedImages deployed i)) []
       [getPodsImages k, getReplicationControllersImages k, getDeploymentsImages k, getStatefulSetsImages k,
        getDaemonSetsImages k, getReplicaSetsImages k, getCronJobsImages k, getJobsImages k]"

subsection \<open>Images of all contexts\<close>

record ContextResources =
  cr_ContextName :: string
  cr_ResourcesNames :: "string list"

record DeployedDockerImage =
  ddi_Name :: string
  ddi_ContextResources :: "ContextResources list"

fun add_context_resources :: "string \<Rightarrow> string list \<Rightarrow> ContextResources list \<Rightarrow> ContextResources list" where
  "add_context_resources ctx names [] = [\<lparr>cr_ContextName = ctx, cr_ResourcesNames = names\<rparr>]"
| "add_context_resources ctx names (cr # crs) =
     (if cr_ContextName cr = ctx then cr\<lparr>cr_ResourcesNames := cr_ResourcesNames cr @ names\<rparr> # crs
      else cr # add_context_resources ctx names crs)"

fun add_context_image :: "string \<Rightarrow> DeployedDockerImage list \<Rightarrow> DeployedImage \<Rightarrow> DeployedDockerImage list" where
  "add_context_image ctx [] i =
     [\<lparr>ddi_Name = d_Name i, ddi_ContextResources = [\<lparr>cr_ContextName = ctx, cr_ResourcesNames = d_ResourcesNames i\<rparr>]\<rparr>]"
| "add_context_image ctx (desc # res) i =
     (if ddi_Name desc = d_Name i
      then desc\<lparr>ddi_ContextResources := add_context_resources ctx (d_ResourcesNames i) (ddi_ContextResources desc)\<rparr> # res
      else desc # add_context_image ctx res i)"

definition AppendContextDeployedDockerImages ::
  "DeployedDockerImage list \<Rightarrow> string \<Rightarrow> DeployedImage list \<Rightarrow> DeployedDockerImage list" where
  "AppendContextDeployedDockerImages lst ctx images = foldl (add_context_image ctx) lst images"

text \<open>The contexts with the answers of their API servers for the namespace they are restricted to.\<close>

definition deployedDockerImages :: "(string \<times> cluster) list \<Rightarrow> go_error + DeployedDockerImage list" where
  "deployedDockerImages contexts =
     fold_res (\<lambda>acc (ctx, k). case DeployedDockerImages k of
         Inl e \<Rightarrow> Inl e
       | Inr images \<Rightarrow> Inr (AppendContextDeployedDockerImages acc ctx images)) [] contexts"

subsection \<open>Facts\<close>

abbreviation image_names :: "DeployedImage list \<Rightarrow> string set" where
  "image_names images \<equiv> d_Name ` set images"

lemma add_image_names [simp]: "image_names (add_image images i) = insert (d_Name i) (image_names images)"
  by (induction images) auto

lemma add_image_distinct: "distinct (map d_Name images) \<Longrightarrow> distinct (map d_Name (add_image images i))"
proof (induction images)
  case (Cons desc images)
  then show ?case using add_image_names [of images i] by auto
qed simp

lemma AppendDeployedImages_names [simp]:
  "image_names (AppendDeployedImages a b) = image_names a \<union> image_names b"
  unfolding AppendDeployedImages_def by (induction b arbitrary: a) auto

lemma AppendDeployedImages_distinct:
  "distinct (map d_Name a) \<Longrightarrow> distinct (map d_Name (AppendDeployedImages a b))"
  unfolding AppendDeployedImages_def by (induction b arbitrary: a) (simp_all add: add_image_distinct)

lemma workload_images_names:
  "image_names (workload_images kind ws) = (\<Union>w \<in> set ws. c_image ` set (all_containers w))"
proof -
  have "image_names (foldl (\<lambda>images (w, c). AppendDeployedImages images
        [\<lparr>d_Name = c_image c, d_ResourcesNames = [resource_name kind w c]\<rparr>]) acc wcs) =
      image_names acc \<union> (c_image \<circ> snd) ` set wcs" for acc and wcs :: "('a workload_scheme \<times> container) list"
    by (induction wcs arbitrary: acc) (simp_all add: case_prod_beta)
  then show ?thesis by (force simp: workload_images_def image_image comp_def image_UN)
qed

text \<open>What the names of the result must be: every image of a container or an init container of
  a workload, jobs that have finished excepted.\<close>

definition used_images :: "'a workload_scheme list \<Rightarrow> string set" where
  "used_images ws = (\<Union>w \<in> set ws. c_image ` set (all_containers w))"

definition cronjobs_answer :: "cluster \<Rightarrow> go_error + workload list" where
  "cronjobs_answer k =
     (case list_CronJobs_v1 k of
        Inr ws \<Rightarrow> Inr ws
      | Inl e \<Rightarrow> if is_NotFound k e then (case list_CronJobs_v1beta1 k of Inr ws \<Rightarrow> Inr ws | Inl _ \<Rightarrow> Inl e) else Inl e)"

lemma get_images_Inr:
  "get_images kind answer = Inr images \<longleftrightarrow> (\<exists>ws. answer = Inr ws \<and> images = workload_images kind ws)"
  by (auto simp: get_images_def split: sum.splits)

lemma getCronJobsImages_eq: "getCronJobsImages k = get_images ''cronjob'' (cronjobs_answer k)"
  by (auto simp: getCronJobsImages_def cronjobs_answer_def getCronJobsImagesBatchV1_def
      getCronJobsImagesBatchV1beta1_def get_images_def split: sum.splits)

lemmas getters = getPodsImages_def getReplicationControllersImages_def getDeploymentsImages_def
  getStatefulSetsImages_def getDaemonSetsImages_def getReplicaSetsImages_def getCronJobsImages_eq getJobsImages_def

text \<open>C29: the list of images in use is complete: when every list request of the cluster succeeds
  (with the fallback for CronJobs), its names are exactly the images of the containers and init
  containers of all workloads, finished jobs excepted, each name once; when a request fails, so
  does the function.\<close>

theorem DeployedDockerImages_complete:
  "(\<forall>pods rcs deploys stss dss rss cjs jobs.
      list_Pods k = Inr pods \<and> list_ReplicationControllers k = Inr rcs \<and> list_Deployments k = Inr deploys \<and>
      list_StatefulSets k = Inr stss \<and> list_DaemonSets k = Inr dss \<and> list_ReplicaSets k = Inr rss \<and>
      cronjobs_answer k = Inr cjs \<and> list_Jobs k = Inr jobs \<longrightarrow>
      (\<exists>images. DeployedDockerImages k = Inr images \<and> distinct (map d_Name images) \<and>
         image_names images = used_images pods \<union> used_images rcs \<union> used_images deploys \<union> used_images stss \<union>
           used_images dss \<union> used_images rss \<union> used_images cjs \<union> used_images (filter (\<lambda>j. \<not> job_finished j) jobs))) \<and>
   ((\<exists>e. e \<in> {x. list_Pods k = Inl x \<or> list_ReplicationControllers k = Inl x \<or> list_Deployments k = Inl x \<or>
      list_StatefulSets k = Inl x \<or> list_DaemonSets k = Inl x \<or> list_ReplicaSets k = Inl x \<or>
      cronjobs_answer k = Inl x \<or> list_Jobs k = Inl x}) \<longrightarrow> (\<exists>e. DeployedDockerImages k = Inl e))"
proof (intro conjI allI impI)
  fix pods rcs deploys stss dss rss cjs jobs
  assume ok: "list_Pods k = Inr pods \<and> list_ReplicationControllers k = Inr rcs \<and> list_Deployments k = Inr deploys \<and>
      list_StatefulSets k = Inr stss \<and> list_DaemonSets k = Inr dss \<and> list_ReplicaSets k = Inr rss \<and>
      cronjobs_answer k = Inr cjs \<and> list_Jobs k = Inr jobs"
  show "\<exists>images. DeployedDockerImages k = Inr images \<and> distinct (map d_Name images) \<and>
         image_names images = used_images pods \<union> used_images rcs \<union> used_images deploys \<union> used_images stss \<union>
           used_images dss \<union> used_images rss \<union> used_images cjs \<union> used_images (filter (\<lambda>j. \<not> job_finished j) jobs)"
    using ok by (simp add: DeployedDockerImages_def getters get_images_def AppendDeployedImages_distinct
        workload_images_names used_images_def Un_assoc)
next
  assume "\<exists>e. e \<in> {x. list_Pods k = Inl x \<or> list_ReplicationControllers k = Inl x \<or> list_Deployments k = Inl x \<or>
      list_StatefulSets k = Inl x \<or> list_DaemonSets k = Inl x \<or> list_ReplicaSets k = Inl x \<or>
      cronjobs_answer k = Inl x \<or> list_Jobs k = Inl x}"
  then show "\<exists>e. DeployedDockerImages k = Inl e"
    by (auto simp: DeployedDockerImages_def getters get_images_def split: sum.splits)
qed

definition demo_cluster :: cluster where
  "demo_cluster = \<lparr>list_Pods = Inr [\<lparr>w_namespace = ''d'', w_name = ''p'', w_containers = [\<lparr>c_name = ''c'', c_image = ''r:t''\<rparr>],
      w_initContainers = []\<rparr>], list_ReplicationControllers = Inr [], list_Deployments = Inr [], list_StatefulSets = Inr [],
     list_DaemonSets = Inr [], list_ReplicaSets = Inr [], list_CronJobs_v1 = Inl (Err ''not found''),
     list_CronJobs_v1beta1 = Inr [], list_Jobs = Inr [], is_NotFound = (\<lambda>_. True)\<rparr>"

theorem DeployedDockerImages_complete_witness:
  "\<exists>images. DeployedDockerImages demo_cluster = Inr images \<and> image_names images = {''r:t''}"
  using DeployedDockerImages_complete [of demo_cluster]
  by (auto simp: demo_cluster_def cronjobs_answer_def used_images_def all_containers_def)

lemma add_context_image_names [simp]:
  "ddi_Name ` set (add_context_image ctx lst i) = insert (d_Name i) (ddi_Name ` set lst)"
  by (induction lst) auto

lemma AppendContext_names [simp]:
  "ddi_Name ` set (AppendContextDeployedDockerImages lst ctx images) = ddi_Name ` set lst \<union> image_names images"
  unfolding AppendContextDeployedDockerImages_def by (induction images arbitrary: lst) auto

lemma deployedDockerImages_names:
  assumes "deployedDockerImages contexts = Inr images"
  shows "\<forall>(ctx, k) \<in> set contexts. \<exists>i. DeployedDockerImages k = Inr i \<and> image_names i \<subseteq> ddi_Name ` set images"
proof -
  have "(\<forall>(ctx, k) \<in> set contexts. \<exists>i. DeployedDockerImages k = Inr i \<and> image_names i \<subseteq> ddi_Name ` set images) \<and>
      ddi_Name ` set acc \<subseteq> ddi_Name ` set images"
    if "fold_res (\<lambda>acc (ctx, k). case DeployedDockerImages k of
         Inl e \<Rightarrow> Inl e
       | Inr images \<Rightarrow> Inr (AppendContextDeployedDockerImages acc ctx images)) acc contexts = Inr images" for acc
    using that
  proof (induction contexts arbitrary: acc)
    case (Cons x contexts)
    obtain ctx k where x: "x = (ctx, k)" by (cases x)
    obtain i where i: "DeployedDockerImages k = Inr i"
      using Cons.prems by (cases "DeployedDockerImages k") (auto simp: x)
    note IH = Cons.IH [of "AppendContextDeployedDockerImages acc ctx i"]
    have sub: "ddi_Name ` set acc \<union> image_names i \<subseteq> ddi_Name ` set images"
      and rest: "\<forall>(ctx, k) \<in> set contexts. \<exists>i. DeployedDockerImages k = Inr i \<and> image_names i \<subseteq> ddi_Name ` set images"
      using IH Cons.prems by (simp_all add: x i)
    then show ?case using i by (simp add: x)
  qed simp
  then show ?thesis using assms unfolding deployedDockerImages_def by blast
qed

end
