(* ===== verification/Stage_Manager.thy ===== *)
theory Stage_Manager
  imports Stage_Desc
begin

text \<open>
  The stage manager of the cleanup: \<open>src/pkg/cleaning/stage_manager/stages.go\<close> (the managed
  set of stage descriptions with its protection marks) and
  \<open>src/pkg/cleaning/stage_manager/manager.go\<close> (the manager with the stages of the repo and of
  the final repo, the custom tags and the image metadata).

  A \<open>mapset.Set\<close> is a list without duplicates, in the order in which an iteration visits it.
\<close>

subsection \<open>The managed set\<close>

datatype protectionReason =
    ProtectionReasonKubernetesBasedPolicy
  | ProtectionReasonGitPolicy
  | ProtectionReasonBuiltWithinLastNHoursPolicy
  | ProtectionReasonImportSource
  | ProtectionReasonDependencySource
  | ProtectionReasonAncestor
  | ProtectionReasonImageIndexPlatform
  | ProtectionReasonNotFoundInRepo
  | ProtectionReasonKeepList

record stageMeta =
  isProtected :: bool
  protectionReason :: "protectionReason option"

record managedStageDescSet =
  stageDescSet :: "StageDesc list"
  stageDescByStageID :: "(string, StageDesc) go_map"
  stageDescMetaMap :: "(StageDesc, stageMeta) go_map"

definition newManagedStageDescSet :: "StageDesc list \<Rightarrow> managedStageDescSet" where
  "newManagedStageDescSet ds =
     \<lparr>stageDescSet = ds,
      stageDescByStageID = foldl (\<lambda>m d. AList.update (desc_stageID d) d m) [] ds,
      stageDescMetaMap = []\<rparr>"

definition set_Difference :: "'a list \<Rightarrow> 'a list \<Rightarrow> 'a list" where
  "set_Difference xs ys = filter (\<lambda>x. x \<notin> set ys) xs"

definition DifferenceInPlace :: "StageDesc list \<Rightarrow> managedStageDescSet \<Rightarrow> managedStageDescSet" where
  "DifferenceInPlace ds s =
     s\<lparr>stageDescSet := set_Difference (stageDescSet s) ds,
       stageDescByStageID := foldl (\<lambda>m d. AList.delete (desc_stageID d) m) (stageDescByStageID s) ds\<rparr>"

definition set_MarkStageDescAsProtected ::
  "StageDesc \<Rightarrow> protectionReason \<Rightarrow> bool \<Rightarrow> managedStageDescSet \<Rightarrow> managedStageDescSet" where
  "set_MarkStageDescAsProtected d reason forceReason s =
     (let metaMap = (case map_of (stageDescMetaMap s) d of
            None \<Rightarrow> AList.update d \<lparr>isProtected = False, protectionReason = None\<rparr> (stageDescMetaMap s)
          | Some _ \<Rightarrow> stageDescMetaMap s);
          meta = the (map_of metaMap d)
      in if isProtected meta \<and> \<not> forceReason then s\<lparr>stageDescMetaMap := metaMap\<rparr>
         else s\<lparr>stageDescMetaMap :=
                  AList.update d \<lparr>isProtected = True, protectionReason = Some reason\<rparr> metaMap\<rparr>)"

definition set_GetProtectedStageDescSetByReason ::
  "managedStageDescSet \<Rightarrow> (protectionReason option, StageDesc list) go_map" where
  "set_GetProtectedStageDescSetByReason s =
     foldl (\<lambda>m (d, meta).
              if \<not> isProtected meta then m
              else AList.update (protectionReason meta) (append_new (slice_get m (protectionReason meta)) d) m)
           [] (stageDescMetaMap s)"

definition set_GetProtectedStageDescSet :: "managedStageDescSet \<Rightarrow> StageDesc list" where
  "set_GetProtectedStageDescSet s =
     foldl (\<lambda>acc (_, ds). foldl append_new acc ds) [] (set_GetProtectedStageDescSetByReason s)"

definition set_GetStageDescByStageID :: "managedStageDescSet \<Rightarrow> string \<Rightarrow> StageDesc option" where
  "set_GetStageDescByStageID s i = map_of (stageDescByStageID s) i"

subsection \<open>The manager\<close>

record imageMetadata =
  im_stageID :: string
  im_imageName :: string
  im_commitList :: "string list"
  im_commitListToDelete :: "string list"
  im_isNonexistentImage :: bool
  im_isNonexistentStage :: bool

record Manager =
  m_managedStageDescSet :: managedStageDescSet
  m_finalManagedStageDescSet :: managedStageDescSet
  m_stageIDCustomTagList :: "(string, string list) go_map"
  m_imageMetadataList :: "imageMetadata list"

type_synonym commit_map = "(string, string list) go_map"
type_synonym image_commit_map = "(string, commit_map) go_map"

definition NewManager :: Manager where
  "NewManager =
     \<lparr>m_managedStageDescSet = newManagedStageDescSet [],
      m_finalManagedStageDescSet = newManagedStageDescSet [],
      m_stageIDCustomTagList = [], m_imageMetadataList = []\<rparr>"

definition GetStageDescByStageID :: "Manager \<Rightarrow> string \<Rightarrow> StageDesc option" where
  "GetStageDescByStageID m i = set_GetStageDescByStageID (m_managedStageDescSet m) i"

definition ContainsStageDescByStageID :: "Manager \<Rightarrow> string \<Rightarrow> bool" where
  "ContainsStageDescByStageID m i \<longleftrightarrow> GetStageDescByStageID m i \<noteq> None"

definition newImageMetadata :: "Manager \<Rightarrow> string \<Rightarrow> string \<Rightarrow> imageMetadata" where
  "newImageMetadata m imageName stageID =
     \<lparr>im_stageID = stageID, im_imageName = imageName, im_commitList = [], im_commitListToDelete = [],
      im_isNonexistentImage = False, im_isNonexistentStage = (\<not> ContainsStageDescByStageID m stageID)\<rparr>"

text \<open>The pointer that \<open>getOrCreateImageMetadata\<close> returns is the index of the record in the
  manager's list; the callers write through it.\<close>

fun find_index :: "('a \<Rightarrow> bool) \<Rightarrow> 'a list \<Rightarrow> nat option" where
  "find_index P [] = None"
| "find_index P (x # xs) = (if P x then Some 0 else map_option Suc (find_index P xs))"

definition getOrCreateImageMetadata :: "string \<Rightarrow> string \<Rightarrow> Manager \<Rightarrow> nat \<times> Manager" where
  "getOrCreateImageMetadata imageName stageID m =
     (case find_index (\<lambda>im. im_imageName im = imageName \<and> im_stageID im = stageID) (m_imageMetadataList m) of
        Some i \<Rightarrow> (i, m)
      | None \<Rightarrow> (length (m_imageMetadataList m),
                 m\<lparr>m_imageMetadataList := m_imageMetadataList m @ [newImageMetadata m imageName stageID]\<rparr>))"

definition update_imageMetadata :: "nat \<Rightarrow> (imageMetadata \<Rightarrow> imageMetadata) \<Rightarrow> Manager \<Rightarrow> Manager" where
  "update_imageMetadata i f m =
     m\<lparr>m_imageMetadataList := (m_imageMetadataList m)[i := f (m_imageMetadataList m ! i)]\<rparr>"

text \<open>The storage answers of the \<open>Init\<close> operations are parameters: a list or an error.\<close>

definition InitStageDescSet :: "go_error + StageDesc list \<Rightarrow> Manager \<Rightarrow> go_error + Manager" where
  "InitStageDescSet answer m =
     (case answer of Inl e \<Rightarrow> Inl e
      | Inr ds \<Rightarrow> Inr (m\<lparr>m_managedStageDescSet := newManagedStageDescSet ds\<rparr>))"

definition InitFinalStageDescSet :: "go_error + StageDesc list \<Rightarrow> Manager \<Rightarrow> go_error + Manager" where
  "InitFinalStageDescSet answer m =
     (case answer of Inl e \<Rightarrow> Inl e
      | Inr ds \<Rightarrow> Inr (m\<lparr>m_finalManagedStageDescSet := newManagedStageDescSet ds\<rparr>))"

text \<open>The inner loop of \<open>processImageMetadata\<close>: the commits of one entry are split into existing
  and missing ones, asking git once per commit.\<close>

fun split_commits ::
  "(string \<Rightarrow> go_error + bool) \<Rightarrow> (string, bool) go_map \<Rightarrow> string list \<Rightarrow>
   go_error + (string, bool) go_map \<times> string list \<times> string list" where
  "split_commits IsCommitExists cache [] = Inr (cache, [], [])"
| "split_commits IsCommitExists cache (commit # commits) =
     (let checked = (case map_of cache commit of
            Some exist \<Rightarrow> Inr (exist, cache)
          | None \<Rightarrow> (case IsCommitExists commit of
                Inl e \<Rightarrow> Inl e
              | Inr exist \<Rightarrow> Inr (exist, AList.update commit exist cache)))
      in case checked of
           Inl e \<Rightarrow> Inl e
         | Inr (exist, cache') \<Rightarrow>
             (case split_commits IsCommitExists cache' commits of
                Inl e \<Rightarrow> Inl e
              | Inr (cache'', toKeep, toDelete) \<Rightarrow>
                  Inr (cache'', if exist then commit # toKeep else toKeep,
                                if exist then toDelete else commit # toDelete)))"

definition image_entries :: "image_commit_map \<Rightarrow> (string \<times> string \<times> string list) list" where
  "image_entries t = concat (map (\<lambda>(imageName, inner). map (\<lambda>(stageID, commits). (imageName, stageID, commits)) inner) t)"

definition processImageMetadata_entry ::
  "(string \<Rightarrow> go_error + bool) \<Rightarrow> (string, bool) go_map \<times> Manager \<Rightarrow> string \<times> string \<times> string list \<Rightarrow>
   go_error + (string, bool) go_map \<times> Manager" where
  "processImageMetadata_entry IsCommitExists = (\<lambda>(cache, m) (imageName, stageID, commits).
     let (i, m') = getOrCreateImageMetadata imageName stageID m
     in case split_commits IsCommitExists cache commits of
          Inl e \<Rightarrow> Inl e
        | Inr (cache', toKeep, toDelete) \<Rightarrow>
            Inr (cache', update_imageMetadata i
                   (\<lambda>im. im\<lparr>im_commitList := im_commitList im @ toKeep,
                            im_commitListToDelete := im_commitListToDelete im @ toDelete\<rparr>) m'))"

definition processImageMetadata ::
  "(string \<Rightarrow> go_error + bool) \<Rightarrow> image_commit_map \<Rightarrow> Manager \<Rightarrow> go_error + Manager" where
  "processImageMetadata IsCommitExists imageMetadataByImageName m =
     map_sum id snd
       (fold_res (processImageMetadata_entry IsCommitExists) ([], m) (image_entries imageMetadataByImageName))"

definition notManaged_entry :: "Manager \<Rightarrow> string \<times> string \<times> string list \<Rightarrow> Manager" where
  "notManaged_entry m = (\<lambda>(imageName, stageID, commits).
     let (i, m') = getOrCreateImageMetadata imageName stageID m
     in update_imageMetadata i
          (\<lambda>im. im\<lparr>im_isNonexistentImage := True, im_commitListToDelete := commits\<rparr>) m')"

definition InitImagesMetadata ::
  "(string \<Rightarrow> go_error + bool) \<Rightarrow> go_error + image_commit_map \<times> image_commit_map \<Rightarrow>
   Manager \<Rightarrow> go_error + Manager" where
  "InitImagesMetadata IsCommitExists answer m =
     (case answer of
        Inl e \<Rightarrow> Inl e
      | Inr (imageMetadataByImageName, imageMetadataByNotManagedImageName) \<Rightarrow>
          processImageMetadata IsCommitExists imageMetadataByImageName
            (foldl notManaged_entry m (image_entries imageMetadataByNotManagedImageName)))"

text \<open>Custom tag metadata: \<open>GetCustomTagsMetadata\<close> over the metadata of each tag (its stage ID
  and its tag).\<close>

definition GetCustomTagsMetadata_answer ::
  "go_error + string list \<Rightarrow> (string \<Rightarrow> go_error + string \<times> string) \<Rightarrow> go_error + (string, string list) go_map" where
  "GetCustomTagsMetadata_answer ids getMetadata =
     (case ids of
        Inl e \<Rightarrow> Inl e
      | Inr metadataIDs \<Rightarrow>
          fold_res (\<lambda>m metadataID. case getMetadata metadataID of
               Inl e \<Rightarrow> Inl e
             | Inr (stageID, tag) \<Rightarrow> Inr (slice_append stageID [tag] m)) [] metadataIDs)"

definition InitCustomTagsMetadata ::
  "go_error + string list \<Rightarrow> (string \<Rightarrow> go_error + string \<times> string) \<Rightarrow> Manager \<Rightarrow> go_error + Manager" where
  "InitCustomTagsMetadata ids getMetadata m =
     (case GetCustomTagsMetadata_answer ids getMetadata of
        Inl e \<Rightarrow> Inl e
      | Inr t \<Rightarrow> Inr (m\<lparr>m_stageIDCustomTagList := t\<rparr>))"

definition MarkStageDescAsProtected :: "StageDesc \<Rightarrow> protectionReason \<Rightarrow> bool \<Rightarrow> Manager \<Rightarrow> Manager" where
  "MarkStageDescAsProtected d reason forceReason m =
     m\<lparr>m_managedStageDescSet := set_MarkStageDescAsProtected d reason forceReason (m_managedStageDescSet m)\<rparr>"

definition MarkFinalStageDescAsProtected :: "StageDesc \<Rightarrow> protectionReason \<Rightarrow> bool \<Rightarrow> Manager \<Rightarrow> Manager" where
  "MarkFinalStageDescAsProtected d reason forceReason m =
     m\<lparr>m_finalManagedStageDescSet :=
         set_MarkStageDescAsProtected d reason forceReason (m_finalManagedStageDescSet m)\<rparr>"

definition MarkStageDescAsProtectedByStageID ::
  "string \<Rightarrow> protectionReason \<Rightarrow> bool \<Rightarrow> Manager \<Rightarrow> go_error + Manager" where
  "MarkStageDescAsProtectedByStageID stageID reason forceReason m =
     (case GetStageDescByStageID m stageID of
        None \<Rightarrow> Inl (Panic (''stage description '' @ stageID @ '' not found''))
      | Some d \<Rightarrow> Inr (MarkStageDescAsProtected d reason forceReason m))"

definition GetImageStageIDCommitListToCleanup :: "Manager \<Rightarrow> image_commit_map" where
  "GetImageStageIDCommitListToCleanup m =
     foldl (\<lambda>result im.
              if im_isNonexistentImage im \<or> im_isNonexistentStage im then result
              else slice_append2 (im_imageName im) (im_stageID im) (im_commitList im) result)
           [] (m_imageMetadataList m)"

definition GetStageIDCommitListToCleanup :: "Manager \<Rightarrow> string \<Rightarrow> commit_map" where
  "GetStageIDCommitListToCleanup m imageName = map_get (GetImageStageIDCommitListToCleanup m) imageName"

definition GetNonexistentStageIDCommitList :: "Manager \<Rightarrow> string \<Rightarrow> commit_map" where
  "GetNonexistentStageIDCommitList m imageName =
     foldl (\<lambda>result im.
              if \<not> im_isNonexistentStage im then result
              else if im_imageName im \<noteq> imageName then result
              else slice_append (im_stageID im) (im_commitList im @ im_commitListToDelete im) result)
           [] (m_imageMetadataList m)"

definition GetStageIDCommitListByNonexistentImage :: "Manager \<Rightarrow> image_commit_map" where
  "GetStageIDCommitListByNonexistentImage m =
     foldl (\<lambda>result im.
              if \<not> im_isNonexistentImage im then result
              else slice_append2 (im_imageName im) (im_stageID im)
                     (im_commitList im @ im_commitListToDelete im) result)
           [] (m_imageMetadataList m)"

definition GetStageIDNonexistentCommitList :: "Manager \<Rightarrow> string \<Rightarrow> commit_map" where
  "GetStageIDNonexistentCommitList m imageName =
     foldl (\<lambda>result im.
              if im_isNonexistentStage im then result
              else if im_imageName im \<noteq> imageName then result
              else slice_append (im_stageID im) (im_commitListToDelete im) result)
           [] (m_imageMetadataList m)"

definition ForgetDeletedStageDescSet :: "StageDesc list \<Rightarrow> Manager \<Rightarrow> Manager" where
  "ForgetDeletedStageDescSet ds m =
     m\<lparr>m_managedStageDescSet := DifferenceInPlace ds (m_managedStageDescSet m)\<rparr>"

definition ForgetDeletedFinalStageDescSet :: "StageDesc list \<Rightarrow> Manager \<Rightarrow> Manager" where
  "ForgetDeletedFinalStageDescSet ds m =
     m\<lparr>m_finalManagedStageDescSet := DifferenceInPlace ds (m_finalManagedStageDescSet m)\<rparr>"

definition GetStageDescSet :: "Manager \<Rightarrow> StageDesc list" where
  "GetStageDescSet m = stageDescSet (m_managedStageDescSet m)"

definition GetFinalStageDescSet :: "Manager \<Rightarrow> StageDesc list" where
  "GetFinalStageDescSet m = stageDescSet (m_finalManagedStageDescSet m)"

definition GetProtectedStageDescSet :: "Manager \<Rightarrow> StageDesc list" where
  "GetProtectedStageDescSet m = set_GetProtectedStageDescSet (m_managedStageDescSet m)"

definition GetFinalProtectedStageDescSet :: "Manager \<Rightarrow> StageDesc list" where
  "GetFinalProtectedStageDescSet m = set_GetProtectedStageDescSet (m_finalManagedStageDescSet m)"

definition GetProtectedStageDescSetByReason ::
  "Manager \<Rightarrow> (protectionReason option, StageDesc list) go_map" where
  "GetProtectedStageDescSetByReason m = set_GetProtectedStageDescSetByReason (m_managedStageDescSet m)"

definition GetCustomTagsMetadata :: "Manager \<Rightarrow> (string, string list) go_map" where
  "GetCustomTagsMetadata m = m_stageIDCustomTagList m"

definition ForgetCustomTagsByStageID :: "string \<Rightarrow> Manager \<Rightarrow> Manager" where
  "ForgetCustomTagsByStageID stageID m =
     m\<lparr>m_stageIDCustomTagList := AList.delete stageID (m_stageIDCustomTagList m)\<rparr>"

subsection \<open>Protection marks\<close>

text \<open>The abstract view of a managed set: which descriptions are protected, and for what
  reason.\<close>

definition protection :: "managedStageDescSet \<Rightarrow> StageDesc \<Rightarrow> protectionReason option option" where
  "protection s d =
     (case map_of (stageDescMetaMap s) d of
        Some meta \<Rightarrow> if isProtected meta then Some (protectionReason meta) else None
      | None \<Rightarrow> None)"

definition set_inv :: "managedStageDescSet \<Rightarrow> bool" where
  "set_inv s \<longleftrightarrow> map_ok (stageDescMetaMap s) \<and> map_ok (stageDescByStageID s) \<and>
     (\<forall>(i, d) \<in> set (stageDescByStageID s). desc_stageID d = i \<and> d \<in> set (stageDescSet s)) \<and>
     (\<forall>d \<in> set (stageDescSet s). desc_stageID d \<in> map_keys (stageDescByStageID s))"

lemma protection_mark:
  "protection (set_MarkStageDescAsProtected d reason forceReason s) =
     (protection s)(d := if protection s d \<noteq> None \<and> \<not> forceReason then protection s d else Some (Some reason))"
  by (auto simp: fun_eq_iff protection_def set_MarkStageDescAsProtected_def Let_def go_map_simps
      split: option.splits)

lemma stageDescSet_mark [simp]:
  "stageDescSet (set_MarkStageDescAsProtected d reason forceReason s) = stageDescSet s"
  "stageDescByStageID (set_MarkStageDescAsProtected d reason forceReason s) = stageDescByStageID s"
  by (simp_all add: set_MarkStageDescAsProtected_def Let_def)

lemma set_inv_mark: "set_inv s \<Longrightarrow> set_inv (set_MarkStageDescAsProtected d reason forceReason s)"
  by (auto simp: set_inv_def set_MarkStageDescAsProtected_def Let_def go_map_simps split: option.splits)

lemma ByReason_fold:
  defines "F \<equiv> foldl (\<lambda>m (d, meta). if \<not> isProtected meta then m
            else AList.update (protectionReason meta) (append_new (slice_get m (protectionReason meta)) d) m)"
  shows "set (slice_get (F m ms) r) =
           set (slice_get m r) \<union> {d. \<exists>meta. (d, meta) \<in> set ms \<and> isProtected meta \<and> protectionReason meta = r}"
    and "map_ok m \<Longrightarrow> map_ok (F m ms)"
proof (induction ms arbitrary: m)
  case (Cons x ms)
  { case 1 show ?case using Cons(1) [of "if isProtected (snd x) then AList.update (protectionReason (snd x))
        (append_new (slice_get m (protectionReason (snd x))) (fst x)) m else m"]
      by (cases x) (auto simp: F_def slice_get_update split: if_splits) }
  { case 2 then show ?case using Cons(2) by (cases x) (auto simp: F_def map_ok_update) }
qed (simp_all add: F_def)

lemma set_slice_get_ByReason:
  assumes "map_ok (stageDescMetaMap s)"
  shows "set (slice_get (set_GetProtectedStageDescSetByReason s) r) = {d. protection s d = Some r}"
proof -
  have "((d, meta) \<in> set (stageDescMetaMap s)) = (map_of (stageDescMetaMap s) d = Some meta)" for d meta
    using assms by (rule map_of_eq_Some_iff [symmetric])
  then show ?thesis unfolding set_GetProtectedStageDescSetByReason_def ByReason_fold(1)
    by (auto simp: protection_def split: option.splits if_splits)
qed

lemma map_ok_ByReason: "map_ok (set_GetProtectedStageDescSetByReason s)"
  by (simp add: set_GetProtectedStageDescSetByReason_def ByReason_fold(2))

lemma slice_get_ex: "map_ok m \<Longrightarrow> (\<Union>x \<in> set m. set (snd x)) = {d. \<exists>r. d \<in> set (slice_get m r)}"
  by (force simp: slice_get_def split: option.splits dest: map_of_SomeD)

lemma set_foldl_union:
  "set (foldl (\<lambda>acc (_, ds). foldl append_new acc ds) acc m) = set acc \<union> (\<Union>x \<in> set m. set (snd x))"
  by (induction m arbitrary: acc) auto

lemma set_GetProtected:
  "map_ok (stageDescMetaMap s) \<Longrightarrow> set (set_GetProtectedStageDescSet s) = {d. protection s d \<noteq> None}"
  unfolding set_GetProtectedStageDescSet_def set_foldl_union
  by (auto simp: slice_get_ex map_ok_ByReason set_slice_get_ByReason)

lemma set_Difference_mem [simp]: "set (set_Difference xs ys) = set xs - set ys"
  by (auto simp: set_Difference_def)

subsection \<open>Lookup by stage ID\<close>

lemma byID_foldl:
  "map_of (foldl (\<lambda>m d. AList.update (desc_stageID d) d m) m ds) i =
     (case find (\<lambda>d. desc_stageID d = i) (rev ds) of Some d \<Rightarrow> Some d | None \<Rightarrow> map_of m i)"
  by (induction ds arbitrary: m) (auto simp: go_map_simps find_append_eq split: option.splits)

lemma byID_map_ok: "map_ok m \<Longrightarrow> map_ok (foldl (\<lambda>m d. AList.update (desc_stageID d) d m) m ds)"
  by (induction ds arbitrary: m) (simp_all add: map_ok_update)

lemma byID_new:
  "map_of (stageDescByStageID (newManagedStageDescSet ds)) i = find (\<lambda>d. desc_stageID d = i) (rev ds)"
  by (simp add: newManagedStageDescSet_def byID_foldl split: option.splits)

lemma set_inv_new: "set_inv (newManagedStageDescSet ds)"
proof -
  let ?m = "stageDescByStageID (newManagedStageDescSet ds)"
  have ok: "map_ok ?m" by (simp add: newManagedStageDescSet_def byID_map_ok)
  have "desc_stageID d = i \<and> d \<in> set ds" if "(i, d) \<in> set ?m" for i d
    using map_of_is_SomeI [OF ok that] by (auto simp: byID_new find_Some_iff rev_nth)
  moreover have "desc_stageID d \<in> map_keys ?m" if "d \<in> set ds" for d
  proof -
    have "map_of ?m (desc_stageID d) \<noteq> None" using that by (auto simp: byID_new find_None_iff)
    then show ?thesis by (simp add: map_of_eq_None_keys)
  qed
  ultimately show ?thesis unfolding set_inv_def using ok by (auto simp: newManagedStageDescSet_def)
qed

lemma byID_delete_foldl:
  "map_of (foldl (\<lambda>m d. AList.delete (desc_stageID d) m) m ds) i =
     (if i \<in> desc_stageID ` set ds then None else map_of m i)"
  by (induction ds arbitrary: m) (auto simp: delete_conv')

lemma byID_delete_map_ok: "map_ok m \<Longrightarrow> map_ok (foldl (\<lambda>m d. AList.delete (desc_stageID d) m) m ds)"
  by (induction ds arbitrary: m) (simp_all add: map_ok_delete)

lemma set_inv_Difference:
  assumes inv: "set_inv s" and inj: "inj_on desc_stageID (set (stageDescSet s) \<union> set ds)"
  shows "set_inv (DifferenceInPlace ds s)"
proof -
  let ?m = "foldl (\<lambda>m d. AList.delete (desc_stageID d) m) (stageDescByStageID s) ds"
  have ok: "map_ok (stageDescByStageID s)" "map_ok ?m"
    using inv by (simp_all add: set_inv_def byID_delete_map_ok)
  have mem: "((i, d) \<in> set ?m) = ((i, d) \<in> set (stageDescByStageID s) \<and> i \<notin> desc_stageID ` set ds)" for i d
    using map_of_eq_Some_iff [OF ok(1), of i d] map_of_eq_Some_iff [OF ok(2), of i d]
    by (auto simp: byID_delete_foldl split: if_splits)
  have "desc_stageID d \<in> map_keys ?m" if "d \<in> set (stageDescSet s)" "d \<notin> set ds" for d
  proof -
    have "desc_stageID d \<notin> desc_stageID ` set ds" using that inj by (auto simp: inj_on_def)
    moreover have "desc_stageID d \<in> map_keys (stageDescByStageID s)" using that inv by (auto simp: set_inv_def)
    ultimately show ?thesis using mem by (force simp: image_iff)
  qed
  then show ?thesis using inv ok mem by (fastforce simp: set_inv_def DifferenceInPlace_def)
qed

subsection \<open>The contract of the protection marks\<close>

text \<open>
  What the cleanup relies on: a mark adds its description to the protected ones and never takes
  another one out; a reason, once given, stays unless the mark forces its own. The manager
  provides it twice, for the stages of the repo and for those of the final repo.
\<close>

locale protection_marks =
  fixes mark :: "'d \<Rightarrow> 'r \<Rightarrow> bool \<Rightarrow> 's \<Rightarrow> 's"
    and protected_set :: "'s \<Rightarrow> 'd list"
    and reason_of :: "'s \<Rightarrow> 'd \<Rightarrow> 'r option"
    and inv :: "'s \<Rightarrow> bool"
  assumes inv_mark: "inv s \<Longrightarrow> inv (mark d r f s)"
    and protected_mark: "inv s \<Longrightarrow> set (protected_set (mark d r f s)) = insert d (set (protected_set s))"
    and reason_mark: "inv s \<Longrightarrow> reason_of (mark d r f s) =
          (reason_of s)(d := if d \<in> set (protected_set s) \<and> \<not> f then reason_of s d else Some r)"
begin

lemma inv_marks: "inv s \<Longrightarrow> inv (foldl (\<lambda>s d. if P d then mark d r f s else s) s ds)"
  by (induction ds arbitrary: s) (simp_all add: inv_mark)

lemma protected_marks:
  "inv s \<Longrightarrow> set (protected_set (foldl (\<lambda>s d. if P d then mark d r f s else s) s ds)) =
     set (protected_set s) \<union> {d \<in> set ds. P d}"
  by (induction ds arbitrary: s) (auto simp: inv_mark protected_mark)

lemma reason_marks_kept:
  "inv s \<Longrightarrow> d \<in> set (protected_set s) \<Longrightarrow>
   reason_of (foldl (\<lambda>s d. if P d then mark d r False s else s) s ds) d = reason_of s d"
  by (induction ds arbitrary: s) (auto simp: inv_mark protected_mark reason_mark)

lemma inv_mark_list: "inv s \<Longrightarrow> inv (foldl (\<lambda>s (d, r). mark d r f s) s drs)"
  by (induction drs arbitrary: s) (auto simp: inv_mark)

lemma protected_mark_list:
  "inv s \<Longrightarrow> set (protected_set (foldl (\<lambda>s (d, r). mark d r f s) s drs)) = set (protected_set s) \<union> fst ` set drs"
proof (induction drs arbitrary: s)
  case (Cons x drs)
  then show ?case by (cases x) (simp add: inv_mark protected_mark)
qed simp

end

definition manager_inv :: "Manager \<Rightarrow> bool" where
  "manager_inv m \<longleftrightarrow> set_inv (m_managedStageDescSet m) \<and> set_inv (m_finalManagedStageDescSet m)"

definition reason_of_stage :: "Manager \<Rightarrow> StageDesc \<Rightarrow> protectionReason option" where
  "reason_of_stage m d = Option.bind (protection (m_managedStageDescSet m) d) id"

definition reason_of_final :: "Manager \<Rightarrow> StageDesc \<Rightarrow> protectionReason option" where
  "reason_of_final m d = Option.bind (protection (m_finalManagedStageDescSet m) d) id"

lemma set_inv_metaMap: "set_inv s \<Longrightarrow> map_ok (stageDescMetaMap s)"
  by (simp add: set_inv_def)

lemma protected_mark_set:
  "set_inv s \<Longrightarrow> set (set_GetProtectedStageDescSet (set_MarkStageDescAsProtected d r f s)) =
     insert d (set (set_GetProtectedStageDescSet s))"
  by (auto simp: set_GetProtected set_inv_metaMap set_inv_mark protection_mark)

interpretation repo: protection_marks MarkStageDescAsProtected GetProtectedStageDescSet reason_of_stage manager_inv
  by unfold_locales
    (auto simp: manager_inv_def MarkStageDescAsProtected_def GetProtectedStageDescSet_def reason_of_stage_def
      set_inv_mark protected_mark_set set_GetProtected set_inv_metaMap protection_mark fun_eq_iff)

interpretation final: protection_marks MarkFinalStageDescAsProtected GetFinalProtectedStageDescSet reason_of_final manager_inv
  by unfold_locales
    (auto simp: manager_inv_def MarkFinalStageDescAsProtected_def GetFinalProtectedStageDescSet_def reason_of_final_def
      set_inv_mark protected_mark_set set_GetProtected set_inv_metaMap protection_mark fun_eq_iff)

subsection \<open>Image metadata\<close>

definition cache_ok :: "(string \<Rightarrow> bool) \<Rightarrow> (string, bool) go_map \<Rightarrow> bool" where
  "cache_ok ex cache \<longleftrightarrow> (\<forall>c b. map_of cache c = Some b \<longrightarrow> b = ex c)"

lemma cache_ok_update: "cache_ok ex cache \<Longrightarrow> cache_ok ex (AList.update c (ex c) cache)"
  by (simp add: cache_ok_def map_of_update)

lemma split_commits_filter:
  assumes "\<forall>c \<in> set commits. IsCommitExists c = Inr (ex c)" and "cache_ok ex cache"
  obtains cache' where "cache_ok ex cache'"
    and "split_commits IsCommitExists cache commits = Inr (cache', filter ex commits, filter (\<lambda>c. \<not> ex c) commits)"
  using assms
proof (induction commits arbitrary: cache thesis)
  case (Cons c commits)
  define next_cache where "next_cache = (if map_of cache c = None then AList.update c (ex c) cache else cache)"
  have "cache_ok ex next_cache" using Cons.prems(3) by (simp add: next_cache_def cache_ok_update)
  then obtain cache' where ok: "cache_ok ex cache'" and split: "split_commits IsCommitExists next_cache commits =
      Inr (cache', filter ex commits, filter (\<lambda>c. \<not> ex c) commits)"
    using Cons.IH [of next_cache] Cons.prems(2) by (metis list.set_intros(2))
  have hit: "map_of cache c = Some b \<Longrightarrow> b = ex c" for b using Cons.prems(3) by (simp add: cache_ok_def)
  have "split_commits IsCommitExists cache (c # commits) =
      Inr (cache', filter ex (c # commits), filter (\<lambda>c. \<not> ex c) (c # commits))"
    using split Cons.prems(2) hit by (cases "map_of cache c") (simp_all add: next_cache_def)
  with ok show ?case by (rule Cons.prems(1))
qed simp

lemma find_index_None: "find_index P xs = None \<longleftrightarrow> (\<forall>x \<in> set xs. \<not> P x)"
  by (induction xs) auto

abbreviation im_key :: "imageMetadata \<Rightarrow> string \<times> string" where
  "im_key im \<equiv> (im_imageName im, im_stageID im)"

lemma getOrCreate_fresh:
  assumes "(n, i) \<notin> im_key ` set (m_imageMetadataList m)"
  shows "(case getOrCreateImageMetadata n i m of (j, m') \<Rightarrow> update_imageMetadata j f m') =
    m\<lparr>m_imageMetadataList := m_imageMetadataList m @ [f (newImageMetadata m n i)]\<rparr>"
proof -
  have "find_index (\<lambda>im. im_imageName im = n \<and> im_stageID im = i) (m_imageMetadataList m) = None"
    using assms by (force simp: find_index_None)
  then show ?thesis by (simp add: getOrCreateImageMetadata_def update_imageMetadata_def)
qed

lemma newImageMetadata_list [simp]:
  "newImageMetadata (m\<lparr>m_imageMetadataList := l\<rparr>) n i = newImageMetadata m n i"
  by (simp add: newImageMetadata_def ContainsStageDescByStageID_def GetStageDescByStageID_def)

lemma im_key_new [simp]:
  "im_imageName (newImageMetadata m n i) = n" "im_stageID (newImageMetadata m n i) = i"
  by (simp_all add: newImageMetadata_def)

abbreviation entry_key :: "string \<times> string \<times> string list \<Rightarrow> string \<times> string" where
  "entry_key e \<equiv> (fst e, fst (snd e))"

abbreviation notManaged_record :: "Manager \<Rightarrow> string \<times> string \<times> string list \<Rightarrow> imageMetadata" where
  "notManaged_record m \<equiv> \<lambda>(n, i, commits).
     (newImageMetadata m n i)\<lparr>im_isNonexistentImage := True, im_commitListToDelete := commits\<rparr>"

abbreviation managed_record ::
  "(string \<Rightarrow> bool) \<Rightarrow> Manager \<Rightarrow> string \<times> string \<times> string list \<Rightarrow> imageMetadata" where
  "managed_record ex m \<equiv> \<lambda>(n, i, commits).
     (newImageMetadata m n i)\<lparr>im_commitList := filter ex commits,
                               im_commitListToDelete := filter (\<lambda>c. \<not> ex c) commits\<rparr>"

abbreviation add_records :: "Manager \<Rightarrow> imageMetadata list \<Rightarrow> Manager" where
  "add_records m ims \<equiv> m\<lparr>m_imageMetadataList := m_imageMetadataList m @ ims\<rparr>"

lemma notManaged_entry_fresh:
  "entry_key e \<notin> im_key ` set (m_imageMetadataList m) \<Longrightarrow>
   notManaged_entry m e = add_records m [notManaged_record m e]"
  by (cases e) (simp add: notManaged_entry_def getOrCreate_fresh)

lemma processImageMetadata_entry_fresh:
  assumes "entry_key e \<notin> im_key ` set (m_imageMetadataList m)"
    and "\<forall>c \<in> set (snd (snd e)). IsCommitExists c = Inr (ex c)" and "cache_ok ex cache"
  obtains cache' where "cache_ok ex cache'"
    and "processImageMetadata_entry IsCommitExists (cache, m) e =
           Inr (cache', add_records m [managed_record ex m e])"
proof -
  obtain n i commits where e: "e = (n, i, commits)" by (cases e)
  obtain cache' where ok: "cache_ok ex cache'" and split: "split_commits IsCommitExists cache commits =
      Inr (cache', filter ex commits, filter (\<lambda>c. \<not> ex c) commits)"
    using split_commits_filter [of commits IsCommitExists ex cache] assms(2,3) e by auto
  have "processImageMetadata_entry IsCommitExists (cache, m) e =
      Inr (cache', add_records m [managed_record ex m e])"
    using getOrCreate_fresh [OF assms(1), of "\<lambda>im. im\<lparr>im_commitList := im_commitList im @ filter ex commits,
           im_commitListToDelete := im_commitListToDelete im @ filter (\<lambda>c. \<not> ex c) commits\<rparr>"]
    by (simp add: processImageMetadata_entry_def e split case_prod_beta newImageMetadata_def)
  with ok show thesis by (rule that)
qed

lemma notManaged_fold:
  assumes "distinct (map entry_key es)" and "entry_key ` set es \<inter> im_key ` set (m_imageMetadataList m) = {}"
  shows "foldl notManaged_entry m es = add_records m (map (notManaged_record m) es)"
  using assms
proof (induction es arbitrary: m)
  case (Cons e es)
  let ?m = "add_records m [notManaged_record m e]"
  have "im_key ` set (m_imageMetadataList ?m) = insert (entry_key e) (im_key ` set (m_imageMetadataList m))"
    by (cases e) simp
  then have "foldl notManaged_entry ?m es = add_records ?m (map (notManaged_record ?m) es)"
    using Cons.prems by (intro Cons.IH) auto
  then show ?case using Cons.prems by (simp add: notManaged_entry_fresh case_prod_beta)
qed simp

lemma processImageMetadata_fold:
  assumes "\<forall>e \<in> set es. \<forall>c \<in> set (snd (snd e)). IsCommitExists c = Inr (ex c)"
    and "distinct (map entry_key es)" and "entry_key ` set es \<inter> im_key ` set (m_imageMetadataList m) = {}"
    and "cache_ok ex cache"
  shows "\<exists>cache'. fold_res (processImageMetadata_entry IsCommitExists) (cache, m) es =
           Inr (cache', add_records m (map (managed_record ex m) es))"
  using assms
proof (induction es arbitrary: cache m)
  case (Cons e es)
  let ?m = "add_records m [managed_record ex m e]"
  have keys: "im_key ` set (m_imageMetadataList ?m) = insert (entry_key e) (im_key ` set (m_imageMetadataList m))"
    by (cases e) simp
  obtain cache' where ok: "cache_ok ex cache'"
    and step: "processImageMetadata_entry IsCommitExists (cache, m) e = Inr (cache', ?m)"
    using processImageMetadata_entry_fresh [of e m IsCommitExists ex cache] Cons.prems by auto
  have disj: "entry_key ` set es \<inter> im_key ` set (m_imageMetadataList ?m) = {}"
    unfolding keys using Cons.prems by auto
  obtain cache'' where "fold_res (processImageMetadata_entry IsCommitExists) (cache', ?m) es =
           Inr (cache'', add_records ?m (map (managed_record ex ?m) es))"
    using Cons.IH [of ?m cache'] Cons.prems ok disj by auto
  then show ?case using step by (intro exI [of _ cache'']) (simp add: case_prod_beta)
qed simp

text \<open>What the storage recorded for an image and a stage: the commits with existing and missing
  commits together.\<close>

definition recorded :: "Manager \<Rightarrow> string \<Rightarrow> string \<Rightarrow> string list" where
  "recorded m n i =
     concat (map (\<lambda>im. im_commitList im @ im_commitListToDelete im)
               (filter (\<lambda>im. im_imageName im = n \<and> im_stageID im = i) (m_imageMetadataList m)))"

lemma ToCleanup_eq:
  "slice_get (GetStageIDCommitListToCleanup m n) i =
     concat (map im_commitList (filter (\<lambda>im. (\<not> (im_isNonexistentImage im \<or> im_isNonexistentStage im) \<and>
        im_imageName im = n) \<and> im_stageID im = i) (m_imageMetadataList m)))"
proof -
  have "GetImageStageIDCommitListToCleanup m =
    foldl (\<lambda>r im. if \<not> (im_isNonexistentImage im \<or> im_isNonexistentStage im)
       then slice_append2 (im_imageName im) (im_stageID im) (im_commitList im) r else r) [] (m_imageMetadataList m)"
    unfolding GetImageStageIDCommitListToCleanup_def by (rule arg_cong3 [where f = foldl]) (auto simp: fun_eq_iff)
  then show ?thesis unfolding GetStageIDCommitListToCleanup_def
    by (simp only: map_get_fold_append2 slice_get_fold_append map_get_empty slice_get_empty append_Nil)
qed

lemma NonexistentStage_eq:
  "slice_get (GetNonexistentStageIDCommitList m n) i =
     concat (map (\<lambda>im. im_commitList im @ im_commitListToDelete im) (filter (\<lambda>im. (im_isNonexistentStage im \<and>
        im_imageName im = n) \<and> im_stageID im = i) (m_imageMetadataList m)))"
proof -
  have "GetNonexistentStageIDCommitList m n =
    foldl (\<lambda>r im. if im_isNonexistentStage im \<and> im_imageName im = n
       then slice_append (im_stageID im) (im_commitList im @ im_commitListToDelete im) r else r) [] (m_imageMetadataList m)"
    unfolding GetNonexistentStageIDCommitList_def by (rule arg_cong3 [where f = foldl]) (auto simp: fun_eq_iff)
  then show ?thesis by (simp only: slice_get_fold_append slice_get_empty append_Nil)
qed

lemma NonexistentCommit_eq:
  "slice_get (GetStageIDNonexistentCommitList m n) i =
     concat (map im_commitListToDelete (filter (\<lambda>im. (\<not> im_isNonexistentStage im \<and>
        im_imageName im = n) \<and> im_stageID im = i) (m_imageMetadataList m)))"
proof -
  have "GetStageIDNonexistentCommitList m n =
    foldl (\<lambda>r im. if \<not> im_isNonexistentStage im \<and> im_imageName im = n
       then slice_append (im_stageID im) (im_commitListToDelete im) r else r) [] (m_imageMetadataList m)"
    unfolding GetStageIDNonexistentCommitList_def by (rule arg_cong3 [where f = foldl]) (auto simp: fun_eq_iff)
  then show ?thesis by (simp only: slice_get_fold_append slice_get_empty append_Nil)
qed

lemma NonexistentImage_eq:
  "slice_get (map_get (GetStageIDCommitListByNonexistentImage m) n) i =
     concat (map (\<lambda>im. im_commitList im @ im_commitListToDelete im) (filter (\<lambda>im. (im_isNonexistentImage im \<and>
        im_imageName im = n) \<and> im_stageID im = i) (m_imageMetadataList m)))"
proof -
  have "GetStageIDCommitListByNonexistentImage m =
    foldl (\<lambda>r im. if im_isNonexistentImage im
       then slice_append2 (im_imageName im) (im_stageID im) (im_commitList im @ im_commitListToDelete im) r else r)
      [] (m_imageMetadataList m)"
    unfolding GetStageIDCommitListByNonexistentImage_def by (rule arg_cong3 [where f = foldl]) (auto simp: fun_eq_iff)
  then show ?thesis
    by (simp only: map_get_fold_append2 slice_get_fold_append map_get_empty slice_get_empty append_Nil)
qed

lemmas metadata_eqs = ToCleanup_eq NonexistentStage_eq NonexistentCommit_eq NonexistentImage_eq

definition table_ok :: "image_commit_map \<Rightarrow> bool" where
  "table_ok t \<longleftrightarrow> map_ok t \<and> (\<forall>(n, inner) \<in> set t. map_ok inner)"

lemma entries_mem: "(n, i, cs) \<in> set (image_entries t) \<longleftrightarrow> (\<exists>inner. (n, inner) \<in> set t \<and> (i, cs) \<in> set inner)"
  by (force simp: image_entries_def)

lemma entries_distinct: "table_ok t \<Longrightarrow> distinct (map entry_key (image_entries t))"
proof (induction t)
  case (Cons x t)
  obtain n inner where x: "x = (n, inner)" by (cases x)
  have "distinct (map entry_key (map (\<lambda>(i, cs). (n, i, cs)) inner))"
    using Cons.prems x by (simp add: table_ok_def comp_def case_prod_beta distinct_map inj_on_def)
  moreover have "(n, i) \<notin> entry_key ` set (image_entries t)" for i
    using Cons.prems x by (force simp: table_ok_def entries_mem)
  moreover have "image_entries (x # t) = map (\<lambda>(i, cs). (n, i, cs)) inner @ image_entries t"
    by (simp add: image_entries_def x)
  moreover have "table_ok t" using Cons.prems by (simp add: table_ok_def)
  ultimately show ?case using Cons.IH by (auto simp: case_prod_beta)
qed (simp add: image_entries_def)

lemma concat_unique:
  assumes "distinct (map key es)" and "e \<in> set es"
  shows "filter (\<lambda>x. key x = key e) es = [e]"
  using assms
proof (induction es)
  case (Cons x es)
  then show ?case by (cases "x = e") (auto simp: filter_empty_conv image_iff)
qed simp

lemma entries_filter:
  assumes "table_ok t"
  shows "concat (map (\<lambda>e. f (snd (snd e))) (filter (\<lambda>e. fst e = n \<and> fst (snd e) = i) (image_entries t))) =
     (if (n, i) \<in> entry_key ` set (image_entries t) then f (slice_get (map_get t n) i) else [])"
proof (cases "(n, i) \<in> entry_key ` set (image_entries t)")
  case True
  then obtain cs where e: "(n, i, cs) \<in> set (image_entries t)" by auto
  then obtain inner where inner: "(n, inner) \<in> set t" "(i, cs) \<in> set inner" by (auto simp: entries_mem)
  have "map_get t n = inner" "slice_get inner i = cs"
    using assms inner by (auto simp: table_ok_def intro: map_get_mem slice_get_mem)
  moreover have "filter (\<lambda>e. fst e = n \<and> fst (snd e) = i) (image_entries t) = [(n, i, cs)]"
    using concat_unique [OF entries_distinct [OF assms] e] by simp
  ultimately show ?thesis using True by simp
next
  case False
  then have "filter (\<lambda>e. fst e = n \<and> fst (snd e) = i) (image_entries t) = []"
    by (force simp: filter_empty_conv)
  with False show ?thesis by simp
qed

lemma entries_slice_empty:
  assumes "table_ok t" "(n, i) \<notin> entry_key ` set (image_entries t)"
  shows "slice_get (map_get t n) i = []"
proof (rule ccontr)
  assume "slice_get (map_get t n) i \<noteq> []"
  then have "(n, map_get t n) \<in> set t" "i \<in> map_keys (map_get t n)"
    using slice_get_notin [of i "map_get t n"] map_get_notin [of n t]
    by (auto simp: map_get_def split: option.splits dest: map_of_SomeD)
  then have "\<exists>cs. (n, i, cs) \<in> set (image_entries t)" unfolding entries_mem by (metis imageE prod.collapse)
  with assms(2) show False by (force simp: image_iff)
qed

lemma entries_concat:
  assumes "table_ok t" "f [] = []"
  shows "concat (map (\<lambda>e. f (snd (snd e))) (filter (\<lambda>e. fst e = n \<and> fst (snd e) = i) (image_entries t))) =
     f (slice_get (map_get t n) i)"
  using entries_filter [OF assms(1), of f n i] entries_slice_empty [OF assms(1), of n i] assms(2) by auto

lemma InitImagesMetadata_list:
  assumes "table_ok t" and "table_ok u" and "map_keys t \<inter> map_keys u = {}"
    and "m_imageMetadataList m = []"
    and "\<forall>e \<in> set (image_entries t). \<forall>c \<in> set (snd (snd e)). IsCommitExists c = Inr (ex c)"
  shows "InitImagesMetadata IsCommitExists (Inr (t, u)) m =
    Inr (m\<lparr>m_imageMetadataList := map (notManaged_record m) (image_entries u) @
                                   map (managed_record ex m) (image_entries t)\<rparr>)"
proof -
  let ?m = "add_records m (map (notManaged_record m) (image_entries u))"
  have u: "foldl notManaged_entry m (image_entries u) = ?m"
    using assms(2,4) by (intro notManaged_fold) (simp_all add: entries_distinct)
  have key_in: "fst k \<in> map_keys t" if "k \<in> entry_key ` set (image_entries t)" for k t
    using that by (force simp: entries_mem image_iff)
  have "im_key ` set (m_imageMetadataList ?m) = entry_key ` set (image_entries u)"
    using assms(4) by (simp add: image_image case_prod_beta)
  then have disj: "entry_key ` set (image_entries t) \<inter> im_key ` set (m_imageMetadataList ?m) = {}"
    using key_in [of _ t] key_in [of _ u] assms(3) by blast
  obtain cache' where "fold_res (processImageMetadata_entry IsCommitExists) ([], ?m) (image_entries t) =
      Inr (cache', add_records ?m (map (managed_record ex ?m) (image_entries t)))"
    using processImageMetadata_fold [OF assms(5) entries_distinct [OF assms(1)] disj, of "[]"]
    by (auto simp: cache_ok_def)
  then show ?thesis using assms(4)
    by (simp add: InitImagesMetadata_def processImageMetadata_def u case_prod_beta)
qed

lemma filter_map_entries:
  assumes "\<And>e. im_key (rec e) = entry_key e" and "\<And>e. Q (rec e) = q (entry_key e)" and "\<And>e. v (rec e) = f (snd (snd e))"
    and "table_ok t" and "f [] = []"
  shows "concat (map v (filter (\<lambda>im. (Q im \<and> im_imageName im = n) \<and> im_stageID im = i) (map rec (image_entries t)))) =
    (if q (n, i) then f (slice_get (map_get t n) i) else [])"
proof -
  have name: "im_imageName (rec e) = fst e" "im_stageID (rec e) = fst (snd e)" for e
    using assms(1) [of e] by simp_all
  have "filter (\<lambda>e. (q (entry_key e) \<and> fst e = n) \<and> fst (snd e) = i) (image_entries t) =
      (if q (n, i) then filter (\<lambda>e. fst e = n \<and> fst (snd e) = i) (image_entries t) else [])"
    by (auto intro!: filter_cong simp: filter_empty_conv)
  then show ?thesis using entries_concat [where f = f and n = n and i = i, OF assms(4,5)]
    by (simp add: filter_map comp_def name assms(2,3))
qed

lemma records_concat:
  assumes "table_ok t" and "table_ok u"
    and "\<And>e. Q (notManaged_record m e) = q1 (snd (entry_key e))" "\<And>e. v (notManaged_record m e) = f1 (snd (snd e))" "f1 [] = []"
    and "\<And>e. Q (managed_record ex m e) = q2 (snd (entry_key e))" "\<And>e. v (managed_record ex m e) = f2 (snd (snd e))" "f2 [] = []"
  shows "concat (map v (filter (\<lambda>im. (Q im \<and> im_imageName im = n) \<and> im_stageID im = i)
       (map (notManaged_record m) (image_entries u) @ map (managed_record ex m) (image_entries t)))) =
     (if q1 i then f1 (slice_get (map_get u n) i) else []) @ (if q2 i then f2 (slice_get (map_get t n) i) else [])"
proof -
  have "concat (map v (filter (\<lambda>im. (Q im \<and> im_imageName im = n) \<and> im_stageID im = i)
       (map (notManaged_record m) (image_entries u)))) = (if q1 i then f1 (slice_get (map_get u n) i) else [])"
    using filter_map_entries [where q = "\<lambda>k. q1 (snd k)" and f = f1 and rec = "notManaged_record m" and t = u, of Q v n i]
      assms by (simp add: case_prod_beta)
  moreover have "concat (map v (filter (\<lambda>im. (Q im \<and> im_imageName im = n) \<and> im_stageID im = i)
       (map (managed_record ex m) (image_entries t)))) = (if q2 i then f2 (slice_get (map_get t n) i) else [])"
    using filter_map_entries [where q = "\<lambda>k. q2 (snd k)" and f = f2 and rec = "managed_record ex m" and t = t, of Q v n i]
      assms by (simp add: case_prod_beta)
  ultimately show ?thesis by (simp only: filter_append map_append concat_append)
qed

lemma InitImagesMetadata_to_cleanup:
  assumes "table_ok t" and "table_ok u" and "map_keys t \<inter> map_keys u = {}"
    and "m_imageMetadataList m = []"
    and "\<forall>e \<in> set (image_entries t). \<forall>c \<in> set (snd (snd e)). IsCommitExists c = Inr (ex c)"
    and "InitImagesMetadata IsCommitExists (Inr (t, u)) m = Inr m'"
  shows "slice_get (GetStageIDCommitListToCleanup m' n) i =
      (if ContainsStageDescByStageID m i then filter ex (slice_get (map_get t n) i) else [])"
proof -
  have m': "m' = m\<lparr>m_imageMetadataList := map (notManaged_record m) (image_entries u) @
                                   map (managed_record ex m) (image_entries t)\<rparr>"
    using assms(6) unfolding InitImagesMetadata_list [OF assms(1-5)] by simp
  note rc = records_concat [OF assms(1,2), where m = m and ex = ex]
  show ?thesis
    unfolding ToCleanup_eq m'
    using rc [of "\<lambda>im. \<not> (im_isNonexistentImage im \<or> im_isNonexistentStage im)" "\<lambda>_. False"
        im_commitList "\<lambda>_. []" "ContainsStageDescByStageID m" "filter ex" n i]
    by (simp add: newImageMetadata_def case_prod_beta)
qed

text \<open>C30: \<open>InitImagesMetadata\<close> sorts every recorded commit of a managed image into the right
  class: for a stage that is in the repo the existing commits are those the git policy checks and
  the missing ones are the nonexistent commits; for a stage that is not in the repo all commits
  belong to the nonexistent stage. The records of an image that is not managed all belong to the
  nonexistent image.\<close>

theorem InitImagesMetadata_classifies:
  assumes "table_ok t" and "table_ok u" and "map_keys t \<inter> map_keys u = {}"
    and "m_imageMetadataList m = []"
    and "\<forall>e \<in> set (image_entries t). \<forall>c \<in> set (snd (snd e)). IsCommitExists c = Inr (ex c)"
  shows "\<exists>m'. InitImagesMetadata IsCommitExists (Inr (t, u)) m = Inr m' \<and>
    (\<forall>n i. n \<in> map_keys t \<longrightarrow>
       slice_get (GetStageIDCommitListToCleanup m' n) i =
         (if ContainsStageDescByStageID m i then filter ex (slice_get (map_get t n) i) else []) \<and>
       slice_get (GetStageIDNonexistentCommitList m' n) i =
         (if ContainsStageDescByStageID m i then filter (\<lambda>c. \<not> ex c) (slice_get (map_get t n) i) else []) \<and>
       mset (slice_get (GetNonexistentStageIDCommitList m' n) i) =
         (if ContainsStageDescByStageID m i then {#} else mset (slice_get (map_get t n) i)) \<and>
       slice_get (map_get (GetStageIDCommitListByNonexistentImage m') n) i = []) \<and>
    (\<forall>n i. n \<in> map_keys u \<longrightarrow>
       slice_get (map_get (GetStageIDCommitListByNonexistentImage m') n) i = slice_get (map_get u n) i)"
proof -
  let ?m' = "m\<lparr>m_imageMetadataList := map (notManaged_record m) (image_entries u) @
                                   map (managed_record ex m) (image_entries t)\<rparr>"
  let ?C = "ContainsStageDescByStageID m"
  note rc = records_concat [OF assms(1,2), where m = m and ex = ex]
  have cleanup: "slice_get (GetStageIDCommitListToCleanup ?m' n) i =
      (if ?C i then filter ex (slice_get (map_get t n) i) else [])" for n i
    unfolding ToCleanup_eq
    using rc [of "\<lambda>im. \<not> (im_isNonexistentImage im \<or> im_isNonexistentStage im)" "\<lambda>_. False"
        im_commitList "\<lambda>_. []" ?C "filter ex" n i]
    by (simp add: newImageMetadata_def case_prod_beta)
  have commits: "slice_get (GetStageIDNonexistentCommitList ?m' n) i =
      (if ?C i then slice_get (map_get u n) i else []) @
      (if ?C i then filter (\<lambda>c. \<not> ex c) (slice_get (map_get t n) i) else [])" for n i
    unfolding NonexistentCommit_eq
    using rc [of "\<lambda>im. \<not> im_isNonexistentStage im" ?C
        im_commitListToDelete id ?C "filter (\<lambda>c. \<not> ex c)" n i]
    by (simp add: newImageMetadata_def case_prod_beta)
  have stages: "slice_get (GetNonexistentStageIDCommitList ?m' n) i =
      (if \<not> ?C i then slice_get (map_get u n) i else []) @
      (if \<not> ?C i then filter ex (slice_get (map_get t n) i) @ filter (\<lambda>c. \<not> ex c) (slice_get (map_get t n) i) else [])" for n i
    unfolding NonexistentStage_eq
    using rc [of "\<lambda>im. im_isNonexistentStage im" "\<lambda>i. \<not> ?C i" "\<lambda>im. im_commitList im @ im_commitListToDelete im" id
        "\<lambda>i. \<not> ?C i" "\<lambda>cs. filter ex cs @ filter (\<lambda>c. \<not> ex c) cs" n i]
    by (simp add: newImageMetadata_def case_prod_beta)
  have images: "slice_get (map_get (GetStageIDCommitListByNonexistentImage ?m') n) i = slice_get (map_get u n) i" for n i
    unfolding NonexistentImage_eq
    using rc [of "\<lambda>im. im_isNonexistentImage im" "\<lambda>_. True" "\<lambda>im. im_commitList im @ im_commitListToDelete im" id
        "\<lambda>_. False" "\<lambda>cs. filter ex cs @ filter (\<lambda>c. \<not> ex c) cs" n i]
    by (simp add: newImageMetadata_def case_prod_beta)
  have "map_get u n = []" if "n \<in> map_keys t" for n
    using that assms(3) by (intro map_get_notin) auto
  then show ?thesis using assms
    by (intro exI [of _ ?m'] conjI InitImagesMetadata_list)
      (simp_all add: cleanup commits stages images multiset_partition [symmetric])
qed

definition demo_info :: Info where
  "demo_info = Info [] [] [] [] [] [] [] [] [] 0 0 [] False []"

definition demo_desc :: "nat \<Rightarrow> string \<Rightarrow> StageDesc" where
  "demo_desc a i = \<lparr>desc_addr = a, desc_id = NewStageID i 0, desc_info = demo_info\<rparr>"

definition demo_manager :: Manager where
  "demo_manager = NewManager\<lparr>m_managedStageDescSet := newManagedStageDescSet [demo_desc 0 ''s1'']\<rparr>"

theorem InitImagesMetadata_classifies_witness:
  "\<exists>m'. InitImagesMetadata (\<lambda>c. Inr (c = ''c1''))
       (Inr ([(''app'', [(''s1'', [''c1'', ''c2''])])], [(''old'', [(''s9'', [''c3''])])])) demo_manager = Inr m' \<and>
     slice_get (GetStageIDCommitListToCleanup m' ''app'') ''s1'' = [''c1''] \<and>
     slice_get (GetStageIDNonexistentCommitList m' ''app'') ''s1'' = [''c2''] \<and>
     slice_get (map_get (GetStageIDCommitListByNonexistentImage m') ''old'') ''s9'' = [''c3'']"
proof -
  let ?t = "[(''app'', [(''s1'', [''c1'', ''c2''])])]" and ?u = "[(''old'', [(''s9'', [''c3''])])]"
  have hyps: "table_ok ?t" "table_ok ?u" "map_keys ?t \<inter> map_keys ?u = {}" "m_imageMetadataList demo_manager = []"
    "\<forall>e \<in> set (image_entries ?t). \<forall>c \<in> set (snd (snd e)). (\<lambda>c. Inr (c = ''c1'')) c = Inr (c = ''c1'')"
    by (simp_all add: table_ok_def demo_manager_def NewManager_def)
  have "ContainsStageDescByStageID demo_manager ''s1''" by code_simp
  then show ?thesis using InitImagesMetadata_classifies [OF hyps]
    by (auto simp: slice_get_def map_get_def)
qed

text \<open>The recorded commits of an image and a stage are partitioned: each of them is in exactly
  one of the lists the cleanup of the image looks at (checked by the git policy, nonexistent
  commit, nonexistent stage), and the records of an image that is gone are all in the table of
  nonexistent images.\<close>

theorem metadata_partition:
  assumes "\<forall>im \<in> set (m_imageMetadataList m). im_imageName im = n \<longrightarrow> im_isNonexistentImage im = gone"
  shows "mset (slice_get (GetStageIDCommitListToCleanup m n) i) +
         (if gone then {#} else mset (slice_get (GetNonexistentStageIDCommitList m n) i) +
                                mset (slice_get (GetStageIDNonexistentCommitList m n) i)) +
         mset (slice_get (map_get (GetStageIDCommitListByNonexistentImage m) n) i) = mset (recorded m n i)"
proof -
  have "mset (concat (map im_commitList (filter (\<lambda>im. (\<not> (im_isNonexistentImage im \<or> im_isNonexistentStage im) \<and>
          im_imageName im = n) \<and> im_stageID im = i) ims))) +
        (if gone then {#} else
           mset (concat (map (\<lambda>im. im_commitList im @ im_commitListToDelete im) (filter (\<lambda>im. (im_isNonexistentStage im \<and>
             im_imageName im = n) \<and> im_stageID im = i) ims))) +
           mset (concat (map im_commitListToDelete (filter (\<lambda>im. (\<not> im_isNonexistentStage im \<and>
             im_imageName im = n) \<and> im_stageID im = i) ims)))) +
        mset (concat (map (\<lambda>im. im_commitList im @ im_commitListToDelete im) (filter (\<lambda>im. (im_isNonexistentImage im \<and>
          im_imageName im = n) \<and> im_stageID im = i) ims))) =
        mset (concat (map (\<lambda>im. im_commitList im @ im_commitListToDelete im)
          (filter (\<lambda>im. im_imageName im = n \<and> im_stageID im = i) ims)))"
    if "\<forall>im \<in> set ims. im_imageName im = n \<longrightarrow> im_isNonexistentImage im = gone" for ims
    using that by (induction ims) (auto simp: ac_simps)
  from this [OF assms] show ?thesis by (simp only: metadata_eqs recorded_def)
qed

definition demo_records :: Manager where
  "demo_records = NewManager\<lparr>m_imageMetadataList :=
     [\<lparr>im_stageID = ''s1'', im_imageName = ''app'', im_commitList = [''c1''], im_commitListToDelete = [''c2''],
       im_isNonexistentImage = False, im_isNonexistentStage = False\<rparr>]\<rparr>"

theorem metadata_partition_witness:
  "mset (slice_get (GetStageIDCommitListToCleanup demo_records ''app'') ''s1'') +
   (mset (slice_get (GetNonexistentStageIDCommitList demo_records ''app'') ''s1'') +
    mset (slice_get (GetStageIDNonexistentCommitList demo_records ''app'') ''s1'')) +
   mset (slice_get (map_get (GetStageIDCommitListByNonexistentImage demo_records) ''app'') ''s1'') =
   {#''c1'', ''c2''#}"
  using metadata_partition [of demo_records "''app''" False "''s1''"]
  by (simp add: demo_records_def NewManager_def recorded_def add.assoc)

text \<open>C31: a mark protects its stage and no mark ever withdraws protection; the groups by
  protection reason are a partition of the protected stages, each stage being in the group of its
  own reason; a reason once given stays unless the mark forces its own, and the reasons of all other
  stages stay as they were.\<close>

theorem mark_and_group:
  fixes d :: StageDesc and reason :: protectionReason and forceReason :: bool
  assumes "manager_inv m"
  defines "m' \<equiv> MarkStageDescAsProtected d reason forceReason m"
  shows "manager_inv m' \<and>
    set (GetProtectedStageDescSet m') = insert d (set (GetProtectedStageDescSet m)) \<and>
    GetStageDescSet m' = GetStageDescSet m \<and>
    reason_of_stage m' d =
      (if d \<in> set (GetProtectedStageDescSet m) \<and> \<not> forceReason then reason_of_stage m d else Some reason) \<and>
    (\<forall>x. x \<noteq> d \<longrightarrow> reason_of_stage m' x = reason_of_stage m x) \<and>
    (\<forall>r. set (slice_get (GetProtectedStageDescSetByReason m') r) =
       {x \<in> set (GetProtectedStageDescSet m'). protection (m_managedStageDescSet m') x = Some r})"
proof -
  have inv: "manager_inv m'" unfolding m'_def using assms(1) by (rule repo.inv_mark)
  then have "map_ok (stageDescMetaMap (m_managedStageDescSet m'))"
    by (simp add: manager_inv_def set_inv_metaMap)
  then have "set (slice_get (GetProtectedStageDescSetByReason m') r) =
       {x \<in> set (GetProtectedStageDescSet m'). protection (m_managedStageDescSet m') x = Some r}" for r
    by (auto simp: GetProtectedStageDescSetByReason_def GetProtectedStageDescSet_def set_slice_get_ByReason set_GetProtected)
  moreover have "GetStageDescSet m' = GetStageDescSet m"
    by (simp add: m'_def GetStageDescSet_def MarkStageDescAsProtected_def)
  ultimately show ?thesis
    using inv repo.protected_mark [OF assms(1)] repo.reason_mark [OF assms(1)] by (simp add: m'_def)
qed

theorem mark_and_group_witness:
  "let d = demo_desc 0 ''s1''; m' = MarkStageDescAsProtected d ProtectionReasonKeepList False demo_manager
   in manager_inv demo_manager \<and> set (GetProtectedStageDescSet m') = insert d (set (GetProtectedStageDescSet demo_manager))"
proof -
  have "manager_inv demo_manager"
    by (simp add: manager_inv_def demo_manager_def NewManager_def set_inv_new)
  then show ?thesis using mark_and_group by (metis (no_types))
qed

end
