(* ===== verification/Storage_Calls.thy ===== *)
theory Storage_Calls
  imports Stage_Manager
begin

text \<open>
  The deletions that the cleanup and the purge ask of the storage: the functions
  \<open>deleteStageDescSet\<close>, \<open>deleteImageMetadata\<close>, \<open>deleteImportsMetadata\<close>, \<open>deleteManagedImages\<close>,
  \<open>purgeImageMetadata\<close>, \<open>purgeManagedImages\<close> and \<open>handleDeletionError\<close> of
  \<open>src/pkg/cleaning/cleanup.go\<close>, \<open>deleteCustomTags\<close> of \<open>src/pkg/cleaning/purge.go\<close> and the
  \<open>ForEach...\<close> operations of \<open>src/pkg/storage/manager/storage_manager.go\<close> under them.

  The storage is a parameter: a record of its answers. The calls that change it are collected in
  a trace. The tasks of a \<open>ForEach\<close> run one after the other in the order of the list; with several
  workers the calls of different tasks interleave, and a failing task stops the others at
  some point, so the calls are then a part of the same calls in another order.
\<close>

subsection \<open>Steps\<close>

text \<open>A step changes a state and returns an error or nil; \<^term>\<open>None\<close> is a step that does not end.\<close>

type_synonym 's step = "'s \<Rightarrow> (go_error option \<times> 's) option"

definition skip :: "'s step" where
  "skip s = Some (None, s)"

definition fail :: "go_error \<Rightarrow> 's step" where
  "fail e s = Some (Some e, s)"

definition modify :: "('s \<Rightarrow> 's) \<Rightarrow> 's step" where
  "modify f s = Some (None, f s)"

definition and_then :: "'s step \<Rightarrow> 's step \<Rightarrow> 's step" where
  "and_then f g s =
     (case f s of
        None \<Rightarrow> None
      | Some (Some e, s') \<Rightarrow> Some (Some e, s')
      | Some (None, s') \<Rightarrow> g s')"

fun for_each :: "('a \<Rightarrow> 's step) \<Rightarrow> 'a list \<Rightarrow> 's step" where
  "for_each f [] = skip"
| "for_each f (x # xs) = and_then (f x) (for_each f xs)"

fun in_order :: "'s step list \<Rightarrow> 's step" where
  "in_order [] = skip"
| "in_order (f # fs) = and_then f (in_order fs)"

text \<open>A step keeps a relation between the states before and after it, whether it fails or not.\<close>

definition keeps :: "('s \<Rightarrow> 's \<Rightarrow> bool) \<Rightarrow> 's step \<Rightarrow> bool" where
  "keeps R f \<longleftrightarrow> (\<forall>s e s'. f s = Some (e, s') \<longrightarrow> R s s')"

lemma keepsD: "keeps R f \<Longrightarrow> f s = Some (e, s') \<Longrightarrow> R s s'"
  by (auto simp: keeps_def)

lemma keeps_skip [intro]: "reflp R \<Longrightarrow> keeps R skip"
  by (auto simp: keeps_def skip_def reflpD)

lemma keeps_fail [intro]: "reflp R \<Longrightarrow> keeps R (fail e)"
  by (auto simp: keeps_def fail_def reflpD)

lemma keeps_modify: "(\<And>s. R s (f s)) \<Longrightarrow> keeps R (modify f)"
  by (auto simp: keeps_def modify_def)

lemma keeps_and_then [intro]: "transp R \<Longrightarrow> keeps R f \<Longrightarrow> keeps R g \<Longrightarrow> keeps R (and_then f g)"
  by (fastforce simp: keeps_def and_then_def split: option.splits dest: transpD)

lemma keeps_for_each: "reflp R \<Longrightarrow> transp R \<Longrightarrow> (\<And>x. x \<in> set xs \<Longrightarrow> keeps R (f x)) \<Longrightarrow> keeps R (for_each f xs)"
  by (induction xs) auto

lemma keeps_in_order: "reflp R \<Longrightarrow> transp R \<Longrightarrow> (\<And>f. f \<in> set fs \<Longrightarrow> keeps R f) \<Longrightarrow> keeps R (in_order fs)"
  by (induction fs) auto

lemma and_then_SomeE:
  assumes "and_then f g s = Some (e, s')"
  obtains (fails) e' where "e = Some e'" "f s = Some (Some e', s')"
    | (goes_on) t where "f s = Some (None, t)" "g t = Some (e, s')"
  using assms by (auto simp: and_then_def split: option.splits)

subsection \<open>Calls\<close>

datatype storage_call =
    Delete_stage StageDesc
  | Delete_final_stage StageDesc
  | Rm_image_metadata string string string
  | Rm_managed_image string
  | Rm_import_metadata string
  | Delete_custom_tag string
  | Unregister_custom_tag string
  | Post_last_cleanup_record

record ImportMetadata =
  ImportSourceID :: string
  SourceStageID :: string
  Checksum :: string

record storage =
  repo_Address :: string
  stage_descs :: "go_error + StageDesc list"
  final_repo :: "(string \<times> (go_error + StageDesc list)) option"
  image_metadata :: "string list \<Rightarrow> go_error + image_commit_map \<times> image_commit_map"
  managed_images :: "go_error + string list"
  custom_tag_ids :: "go_error + string list"
  custom_tag_metadata :: "string \<Rightarrow> go_error + string \<times> string"
  import_metadata_ids :: "go_error + string list"
  import_metadata :: "string \<Rightarrow> go_error + ImportMetadata option"
  filter_local :: "(bool \<Rightarrow> StageDesc list \<Rightarrow> go_error + StageDesc list) option"
  outcome :: "storage_call \<Rightarrow> go_error option"

fun error_text :: "go_error \<Rightarrow> string" where
  "error_text (Err t) = t"
| "error_text (Panic t) = t"

definition IsDockerHubUnauthorizedErr :: "go_error \<Rightarrow> bool" where
  "IsDockerHubUnauthorizedErr e \<longleftrightarrow> Contains (error_text e) ''docker hub unauthorized: ''"

definition IsGitHubPackagesUnauthorizedErr :: "go_error \<Rightarrow> bool" where
  "IsGitHubPackagesUnauthorizedErr e \<longleftrightarrow> Contains (error_text e) ''gitHub packages unauthorized: ''"

definition IsGitHubPackagesForbiddenErr :: "go_error \<Rightarrow> bool" where
  "IsGitHubPackagesForbiddenErr e \<longleftrightarrow> Contains (error_text e) ''gitHub packages forbidden: ''"

definition IsImageDeletionFailedDueToUsingByContainerErr :: "go_error \<Rightarrow> bool" where
  "IsImageDeletionFailedDueToUsingByContainerErr e \<longleftrightarrow>
     HasSuffix (error_text e) ''Use --force option to remove all containers that are based on deleting werf docker images''"

text \<open>Which failed deletions stop the cleanup; the hints that are appended to the message are
  left out.\<close>

definition handleDeletionError :: "go_error \<Rightarrow> go_error option" where
  "handleDeletionError e =
     (if IsDockerHubUnauthorizedErr e then Some e
      else if IsGitHubPackagesUnauthorizedErr e \<or> IsGitHubPackagesForbiddenErr e then Some e
      else if IsImageDeletionFailedDueToUsingByContainerErr e then Some e
      else if Contains (error_text e) ''UNAUTHORIZED'' \<or> Contains (error_text e) ''UNSUPPORTED'' then Some e
      else None)"

text \<open>The state of a cleanup: the manager, the tables of the import metadata and the trace.\<close>

record cleanupManager =
  stageManager :: Manager
  checksumSourceStageIDs :: "(string, string list) go_map"
  sourceStageIDImportIDs :: "(string, string list) go_map"
  trace :: "storage_call list"

definition issue :: "storage_call \<Rightarrow> cleanupManager \<Rightarrow> cleanupManager" where
  "issue c s = s\<lparr>trace := trace s @ [c]\<rparr>"

definition call :: "storage \<Rightarrow> storage_call \<Rightarrow> cleanupManager step" where
  "call w c s =
     (case outcome w c of
        None \<Rightarrow> Some (None, issue c s)
      | Some e \<Rightarrow> Some (handleDeletionError e, issue c s))"

definition deleteStageDescSet :: "storage \<Rightarrow> bool \<Rightarrow> bool \<Rightarrow> StageDesc list \<Rightarrow> bool \<Rightarrow> cleanupManager step" where
  "deleteStageDescSet w dryRun skipUsedImage ds isFinal =
     (if dryRun then skip
      else if isFinal then for_each (\<lambda>d. call w (Delete_final_stage d)) ds
      else case filter_local w of
             None \<Rightarrow> for_each (\<lambda>d. call w (Delete_stage d)) ds
           | Some flt \<Rightarrow> (case flt skipUsedImage ds of
               Inl e \<Rightarrow> fail e
             | Inr ds' \<Rightarrow> for_each (\<lambda>d. call w (Delete_stage d)) ds'))"

definition deleteImageMetadata ::
  "storage \<Rightarrow> bool \<Rightarrow> string \<Rightarrow> commit_map \<Rightarrow> cleanupManager step" where
  "deleteImageMetadata w dryRun imageNameOrID stageIDCommitList =
     (if dryRun then skip
      else for_each (\<lambda>(stageID, commits). for_each (\<lambda>commit. call w (Rm_image_metadata imageNameOrID commit stageID)) commits)
             stageIDCommitList)"

definition purgeImageMetadata :: "storage \<Rightarrow> bool \<Rightarrow> cleanupManager step" where
  "purgeImageMetadata w dryRun =
     (case image_metadata w [] of
        Inl e \<Rightarrow> fail e
      | Inr (_, imageMetadataByImageName) \<Rightarrow>
          for_each (\<lambda>(imageNameID, t). deleteImageMetadata w dryRun imageNameID t) imageMetadataByImageName)"

definition deleteManagedImages :: "storage \<Rightarrow> bool \<Rightarrow> string list \<Rightarrow> cleanupManager step" where
  "deleteManagedImages w dryRun managedImages =
     (if dryRun then skip else for_each (\<lambda>i. call w (Rm_managed_image i)) managedImages)"

definition purgeManagedImages :: "storage \<Rightarrow> bool \<Rightarrow> cleanupManager step" where
  "purgeManagedImages w dryRun =
     (case managed_images w of Inl e \<Rightarrow> fail e | Inr images \<Rightarrow> deleteManagedImages w dryRun images)"

definition deleteImportsMetadata :: "storage \<Rightarrow> bool \<Rightarrow> string list \<Rightarrow> cleanupManager step" where
  "deleteImportsMetadata w dryRun ids =
     (if dryRun then skip else for_each (\<lambda>i. call w (Rm_import_metadata i)) ids)"

text \<open>A custom tag is deleted first and unregistered then; a failed deletion skips the second.\<close>

definition delete_custom_tag :: "storage \<Rightarrow> string \<Rightarrow> cleanupManager step" where
  "delete_custom_tag w tag s =
     (case outcome w (Delete_custom_tag tag) of
        Some e \<Rightarrow> Some (handleDeletionError e, issue (Delete_custom_tag tag) s)
      | None \<Rightarrow> call w (Unregister_custom_tag tag) (issue (Delete_custom_tag tag) s))"

definition deleteCustomTags :: "storage \<Rightarrow> bool \<Rightarrow> string list \<Rightarrow> cleanupManager step" where
  "deleteCustomTags w dryRun tags = (if dryRun then skip else for_each (delete_custom_tag w) tags)"

subsection \<open>What the deletions add to the trace\<close>

text \<open>The step only appends calls of a set to the trace.\<close>

definition adds_only :: "storage_call set \<Rightarrow> cleanupManager \<Rightarrow> cleanupManager \<Rightarrow> bool" where
  "adds_only C s s' \<longleftrightarrow> stageManager s' = stageManager s \<and>
     checksumSourceStageIDs s' = checksumSourceStageIDs s \<and> sourceStageIDImportIDs s' = sourceStageIDImportIDs s \<and>
     (\<exists>cs. trace s' = trace s @ cs \<and> set cs \<subseteq> C)"

lemma adds_only_refl [simp, intro]: "reflp (adds_only C)"
  by (auto simp: reflp_def adds_only_def)

lemma adds_only_trans [simp, intro]: "transp (adds_only C)"
  by (force simp: transp_def adds_only_def)

lemma adds_only_mono: "C \<subseteq> D \<Longrightarrow> adds_only C s s' \<Longrightarrow> adds_only D s s'"
  by (fastforce simp: adds_only_def)

lemma keeps_adds_mono: "keeps (adds_only C) f \<Longrightarrow> C \<subseteq> D \<Longrightarrow> keeps (adds_only D) f"
  by (auto simp: keeps_def dest: adds_only_mono)

lemma keeps_call: "c \<in> C \<Longrightarrow> keeps (adds_only C) (call w c)"
  by (auto simp: keeps_def call_def adds_only_def issue_def split: option.splits)

lemma keeps_calls: "(\<And>x. x \<in> set xs \<Longrightarrow> c x \<in> C) \<Longrightarrow> keeps (adds_only C) (for_each (\<lambda>x. call w (c x)) xs)"
  by (intro keeps_for_each) (auto intro: keeps_call)

text \<open>A filter of a local storage only takes stages out.\<close>

definition storage_ok :: "storage \<Rightarrow> bool" where
  "storage_ok w \<longleftrightarrow> (\<forall>flt b ds ds'. filter_local w = Some flt \<longrightarrow> flt b ds = Inr ds' \<longrightarrow> set ds' \<subseteq> set ds)"

lemma deleteStageDescSet_adds:
  assumes "storage_ok w"
  shows "keeps (adds_only (if dryRun then {} else (if isFinal then Delete_final_stage else Delete_stage) ` set ds))
    (deleteStageDescSet w dryRun b ds isFinal)"
proof -
  have "keeps (adds_only (Delete_stage ` set ds)) (for_each (\<lambda>d. call w (Delete_stage d)) ds')"
    if "set ds' \<subseteq> set ds" for ds' using that by (intro keeps_calls) auto
  then show ?thesis using assms
    by (auto simp: deleteStageDescSet_def storage_ok_def intro!: keeps_calls split: option.splits sum.splits)
qed

lemma deleteImageMetadata_adds:
  "keeps (adds_only (if dryRun then {} else {Rm_image_metadata n c i | c i cs. (i, cs) \<in> set t \<and> c \<in> set cs}))
     (deleteImageMetadata w dryRun n t)"
  by (auto simp: deleteImageMetadata_def intro!: keeps_for_each keeps_call)

lemma deleteImportsMetadata_adds:
  "keeps (adds_only (if dryRun then {} else Rm_import_metadata ` set ids)) (deleteImportsMetadata w dryRun ids)"
  by (auto simp: deleteImportsMetadata_def intro!: keeps_calls)

lemma deleteManagedImages_adds:
  "keeps (adds_only (if dryRun then {} else Rm_managed_image ` set ids)) (deleteManagedImages w dryRun ids)"
  by (auto simp: deleteManagedImages_def intro!: keeps_calls)

lemma deleteCustomTags_adds:
  "keeps (adds_only (if dryRun then {} else Delete_custom_tag ` set tags \<union> Unregister_custom_tag ` set tags))
     (deleteCustomTags w dryRun tags)"
proof -
  have each: "keeps (adds_only {Delete_custom_tag t, Unregister_custom_tag t}) (delete_custom_tag w t)" for t
    by (auto simp: keeps_def delete_custom_tag_def call_def adds_only_def issue_def split: option.splits)
  have "keeps (adds_only (Delete_custom_tag ` set tags \<union> Unregister_custom_tag ` set tags)) (delete_custom_tag w t)"
    if "t \<in> set tags" for t using that by (intro keeps_adds_mono [OF each]) auto
  then show ?thesis by (auto simp: deleteCustomTags_def intro!: keeps_for_each)
qed

lemma purgeManagedImages_adds:
  "keeps (adds_only (if dryRun then {} else range Rm_managed_image)) (purgeManagedImages w dryRun)"
  by (auto simp: purgeManagedImages_def intro!: keeps_adds_mono [OF deleteManagedImages_adds] split: sum.splits if_splits)

lemma purgeImageMetadata_adds:
  "keeps (adds_only (if dryRun then {} else {Rm_image_metadata n c i | n c i. True})) (purgeImageMetadata w dryRun)"
  by (auto simp: purgeImageMetadata_def intro!: keeps_for_each keeps_adds_mono [OF deleteImageMetadata_adds] split: sum.splits if_splits)

lemmas deletion_adds = deleteStageDescSet_adds deleteImageMetadata_adds deleteImportsMetadata_adds
  deleteManagedImages_adds deleteCustomTags_adds purgeManagedImages_adds purgeImageMetadata_adds

end
