(* ===== verification/Relatives.thy ===== *)
theory Relatives
  imports Storage_Calls
begin

text \<open>
  The protection of the relatives of kept stages:
  \<open>protectRelativeStageDescSetByStageDesc\<close> of \<open>src/pkg/cleaning/cleanup.go\<close> and the loop of
  \<open>cleanupUnusedStages\<close> that calls it. A stage that is kept keeps the stages it is built from:
  its parent, and for most policies the sources of its imports and dependencies; an image index
  keeps the images of its platforms.
\<close>

subsection \<open>The code\<close>

text \<open>The stage whose digest is asked for; \<open>GetDigest\<close> may panic on any stage on the way.\<close>

fun find_platform_stage :: "string \<Rightarrow> StageDesc list \<Rightarrow> go_error + StageDesc option" where
  "find_platform_stage digest [] = Inr None"
| "find_platform_stage digest (d # ds) =
     (case GetDigest (desc_info d) of
        Inl e \<Rightarrow> Inl e
      | Inr x \<Rightarrow> if x = digest then Inr (Some d) else find_platform_stage digest ds)"

fun platform_targets ::
  "Info list \<Rightarrow> StageDesc list \<Rightarrow> Manager \<Rightarrow> go_error + StageDesc list \<times> Manager" where
  "platform_targets [] targets m = Inr (targets, m)"
| "platform_targets (platformImageInfo # infos) targets m =
     (case GetDigest platformImageInfo of
        Inl e \<Rightarrow> Inl e
      | Inr digest \<Rightarrow>
          if digest = [] then platform_targets infos targets m
          else (case find_platform_stage digest (GetStageDescSet m) of
                  Inl e \<Rightarrow> Inl e
                | Inr None \<Rightarrow> platform_targets infos targets m
                | Inr (Some d) \<Rightarrow> platform_targets infos (append_new targets d)
                    (MarkStageDescAsProtected d ProtectionReasonImageIndexPlatform False m)))"

type_synonym relative = "StageDesc \<times> protectionReason"

definition found :: "StageDesc option \<Rightarrow> protectionReason \<Rightarrow> relative list" where
  "found d reason = (case d of None \<Rightarrow> [] | Some x \<Rightarrow> [(x, reason)])"

definition label_sources :: "(string, string list) go_map \<Rightarrow> Manager \<Rightarrow> string \<times> string \<Rightarrow> relative list" where
  "label_sources checksums m = (\<lambda>(label, val).
     if HasPrefix label WerfImportChecksumLabelPrefix
     then (case map_of checksums val of
             None \<Rightarrow> []
           | Some sourceStageIDs \<Rightarrow>
               concat (map (\<lambda>i. if HasPrefix i WerfImportSourceExternalImagePrefix then []
                                else found (GetStageDescByStageID m i) ProtectionReasonImportSource) sourceStageIDs))
     else if HasPrefix label WerfDependencySourceStageIDLabelPrefix
     then found (GetStageDescByStageID m val) ProtectionReasonDependencySource
     else [])"

definition parents :: "Manager \<Rightarrow> StageDesc \<Rightarrow> relative list" where
  "parents m d =
     found (find (\<lambda>x. iParentID (desc_info d) = iID (desc_info x)) (GetStageDescSet m)) ProtectionReasonAncestor @
     found (GetStageDescByStageID m (case map_of (iLabels (desc_info d)) WerfParentStageID of None \<Rightarrow> [] | Some v \<Rightarrow> v))
       ProtectionReasonAncestor"

definition relatives ::
  "(string, string list) go_map \<Rightarrow> bool \<Rightarrow> Manager \<Rightarrow> StageDesc \<Rightarrow> relative list" where
  "relatives checksums withSources m d =
     (if withSources then concat (map (label_sources checksums m) (iLabels (desc_info d))) else []) @ parents m d"

definition mark_relatives :: "relative list \<Rightarrow> Manager \<Rightarrow> Manager" where
  "mark_relatives rs m = foldl (\<lambda>m (d, reason). MarkStageDescAsProtected d reason False m) m rs"

text \<open>The body of the inner loop: the current set, the handled set and the manager.\<close>

definition visit ::
  "(string, string list) go_map \<Rightarrow> bool \<Rightarrow> StageDesc list \<times> StageDesc list \<times> Manager \<Rightarrow> StageDesc \<Rightarrow>
   StageDesc list \<times> StageDesc list \<times> Manager" where
  "visit checksums withSources = (\<lambda>(cur, handled, m) d.
     if d \<in> set handled then (removeAll d cur, handled, m)
     else let rs = relatives checksums withSources m d
          in (foldl append_new (removeAll d cur) (map fst rs), d # handled, mark_relatives rs m))"

definition visit_all where
  "visit_all checksums withSources cur handled m = foldl (visit checksums withSources) (cur, handled, m) cur"

subsection \<open>Marks leave the lookups alone\<close>

text \<open>The stages that can turn up in the loop.\<close>

definition known_stages :: "Manager \<Rightarrow> StageDesc set" where
  "known_stages m = set (GetStageDescSet m) \<union> snd ` set (stageDescByStageID (m_managedStageDescSet m))"

lemma known_stages_finite [simp]: "finite (known_stages m)"
  by (simp add: known_stages_def)

lemma mark_static [simp]:
  "GetStageDescSet (MarkStageDescAsProtected d r f m) = GetStageDescSet m"
  "GetStageDescByStageID (MarkStageDescAsProtected d r f m) = GetStageDescByStageID m"
  "known_stages (MarkStageDescAsProtected d r f m) = known_stages m"
  by (simp_all add: GetStageDescSet_def MarkStageDescAsProtected_def GetStageDescByStageID_def known_stages_def
      set_GetStageDescByStageID_def fun_eq_iff)

lemma mark_relatives_static [simp]:
  "GetStageDescSet (mark_relatives rs m) = GetStageDescSet m"
  "GetStageDescByStageID (mark_relatives rs m) = GetStageDescByStageID m"
  "known_stages (mark_relatives rs m) = known_stages m"
  unfolding mark_relatives_def by (induction rs arbitrary: m) auto

lemma mark_relatives_append [simp]: "mark_relatives rs' (mark_relatives rs m) = mark_relatives (rs @ rs') m"
  by (simp add: mark_relatives_def)

lemma mark_relatives_Nil [simp]: "mark_relatives [] m = m"
  by (simp add: mark_relatives_def)

lemma parents_static [simp]: "parents (mark_relatives rs m) = parents m"
  unfolding parents_def fun_eq_iff by (simp only: mark_relatives_static)  simp

lemma label_sources_static [simp]: "label_sources checksums (mark_relatives rs m) = label_sources checksums m"
  unfolding label_sources_def by (simp only: mark_relatives_static)

lemma relatives_static [simp]: "relatives checksums b (mark_relatives rs m) d = relatives checksums b m d"
  unfolding relatives_def by (simp only: parents_static label_sources_static)

lemma protected_mark_relatives:
  "manager_inv m \<Longrightarrow> manager_inv (mark_relatives rs m) \<and>
   set (GetProtectedStageDescSet (mark_relatives rs m)) = set (GetProtectedStageDescSet m) \<union> fst ` set rs"
  unfolding mark_relatives_def by (simp add: repo.inv_mark_list repo.protected_mark_list)

lemma found_find_known: "x \<in> set (found (find P (GetStageDescSet m)) r) \<Longrightarrow> fst x \<in> known_stages m"
  by (auto simp: found_def known_stages_def split: option.splits dest!: sym [of "Some _"] find_SomeD)

lemma found_id_known: "x \<in> set (found (GetStageDescByStageID m i) r) \<Longrightarrow> fst x \<in> known_stages m"
  unfolding found_def known_stages_def GetStageDescByStageID_def set_GetStageDescByStageID_def
  by (auto split: option.splits dest!: sym [of "Some _"] map_of_SomeD intro: rev_image_eqI)

lemma label_sources_known: "x \<in> set (label_sources checksums m l) \<Longrightarrow> fst x \<in> known_stages m"
  by (cases l) (auto simp: label_sources_def dest: found_id_known split: if_splits option.splits)

lemma relatives_known: "x \<in> set (relatives checksums b m d) \<Longrightarrow> fst x \<in> known_stages m"
  by (auto simp: relatives_def parents_def dest: found_find_known found_id_known label_sources_known split: if_splits)

subsection \<open>The loop\<close>

lemma visit_all_ends:
  assumes "foldl (visit checksums b) (cur, handled, m) ds = (cur', handled', m')"
  shows "set handled' = set handled \<union> set ds \<and> known_stages m' = known_stages m \<and>
    set cur' \<subseteq> set cur \<union> known_stages m \<and> (set ds \<subseteq> set handled \<longrightarrow> set cur' = set cur - set ds)"
  using assms
proof (induction ds arbitrary: cur handled m)
  case (Cons d ds)
  show ?case
  proof (cases "d \<in> set handled")
    case True
    then show ?thesis using Cons.IH [of "removeAll d cur" handled m] Cons.prems by (auto simp: visit_def)
  next
    case False
    let ?rs = "relatives checksums b m d"
    have "\<forall>x \<in> set ?rs. fst x \<in> known_stages m" using relatives_known by blast
    then have "set (foldl append_new (removeAll d cur) (map fst ?rs)) \<subseteq> set cur \<union> known_stages m" by auto
    then show ?thesis
      using False Cons.IH [of "foldl append_new (removeAll d cur) (map fst ?rs)" "d # handled" "mark_relatives ?rs m"]
        Cons.prems by (auto simp: visit_def [of checksums b] Let_def simp del: set_foldl_append_new)
  qed
qed simp

text \<open>The loop over the current set ends: every round handles a stage that has not been handled
  before, or empties the set.\<close>

function protect_loop ::
  "(string, string list) go_map \<Rightarrow> bool \<Rightarrow> StageDesc list \<Rightarrow> StageDesc list \<Rightarrow> Manager \<Rightarrow> StageDesc list \<times> Manager" where
  "protect_loop checksums withSources cur handled m =
     (if cur = [] then (handled, m)
      else case visit_all checksums withSources cur handled m of
             (cur', handled', m') \<Rightarrow> protect_loop checksums withSources cur' handled' m')"
  by pat_completeness auto

termination
proof (relation "inv_image (less_than <*lex*> less_than)
    (\<lambda>(_, _, cur, handled, m). (card ((set cur \<union> known_stages m) - set handled), length cur))")
  fix checksums b cur handled m cur' y handled' m'
  assume ne: "(cur :: StageDesc list) \<noteq> []" and v: "(cur', y) = visit_all checksums b cur handled m" "(handled', m') = y"
  let ?A = "(set cur \<union> known_stages m) - set handled" and ?B = "(set cur' \<union> known_stages m') - set handled'"
  have e: "set handled' = set handled \<union> set cur \<and> known_stages m' = known_stages m \<and>
    set cur' \<subseteq> set cur \<union> known_stages m \<and> (set cur \<subseteq> set handled \<longrightarrow> set cur' = {})"
    using visit_all_ends [of checksums b cur handled m cur cur' handled' m'] v by (simp add: visit_all_def)
  then have sub: "?B \<subseteq> ?A" by auto
  show "((checksums, b, cur', handled', m'), checksums, b, cur, handled, m)
      \<in> inv_image (less_than <*lex*> less_than)
          (\<lambda>(_, _, cur, handled, m). (card ((set cur \<union> known_stages m) - set handled), length cur))"
  proof (cases "set cur \<subseteq> set handled")
    case True
    then have "cur' = []" using e by simp
    moreover have "card ?B \<le> card ?A" using sub by (intro card_mono) auto
    ultimately show ?thesis using ne by auto
  next
    case False
    then have "?B \<subset> ?A" using sub e by auto
    then have "card ?B < card ?A" by (intro psubset_card_mono) auto
    then show ?thesis by simp
  qed
qed (intro wf_inv_image wf_lex_prod wf_less_than)

declare protect_loop.simps [simp del]

definition protectRelativeStageDescSetByStageDesc ::
  "(string, string list) go_map \<Rightarrow> StageDesc \<Rightarrow> bool \<Rightarrow> StageDesc list \<times> Manager \<Rightarrow>
   go_error + StageDesc list \<times> Manager" where
  "protectRelativeStageDescSetByStageDesc checksums target withSources = (\<lambda>(handled, m).
     case (if iIsIndex (desc_info target) then platform_targets (iIndex (desc_info target)) [] m
           else Inr ([target], m)) of
       Inl e \<Rightarrow> Inl e
     | Inr (targets, m') \<Rightarrow> Inr (protect_loop checksums withSources targets handled m'))"

text \<open>The loop of \<open>cleanupUnusedStages\<close>. The groups come from a Go map, so their order is open:
  it is the parameter \<open>order\<close>.\<close>

type_synonym protected_groups = "(protectionReason option, StageDesc list) go_map"

definition protect_group ::
  "(string, string list) go_map \<Rightarrow> StageDesc list \<times> Manager \<Rightarrow> protectionReason option \<times> StageDesc list \<Rightarrow>
   go_error + StageDesc list \<times> Manager" where
  "protect_group checksums hm = (\<lambda>(reason, ds).
     fold_res (\<lambda>hm d. protectRelativeStageDescSetByStageDesc checksums d (reason \<noteq> Some ProtectionReasonGitPolicy) hm) hm ds)"

definition protect_groups ::
  "(protected_groups \<Rightarrow> protected_groups) \<Rightarrow> (string, string list) go_map \<Rightarrow> Manager \<Rightarrow> go_error + Manager" where
  "protect_groups order checksums m =
     map_sum id snd (fold_res (protect_group checksums) ([], m) (order (GetProtectedStageDescSetByReason m)))"

subsection \<open>What the loop reaches\<close>

text \<open>The stages that the relatives of a set of stages lead to.\<close>

inductive related :: "(string, string list) go_map \<Rightarrow> bool \<Rightarrow> Manager \<Rightarrow> StageDesc set \<Rightarrow> StageDesc \<Rightarrow> bool"
  for checksums b m S where
  start: "d \<in> S \<Longrightarrow> related checksums b m S d"
| relative: "related checksums b m S d \<Longrightarrow> x \<in> set (relatives checksums b m d) \<Longrightarrow> related checksums b m S (fst x)"

text \<open>The state of the loop between two visits, seen from its start.\<close>

definition loop_inv where
  "loop_inv checksums b S h0 m0 cur h rs \<longleftrightarrow>
     set h0 \<subseteq> set h \<and> S \<subseteq> set cur \<union> set h \<and> fst ` set rs \<subseteq> set cur \<union> set h \<and>
     (\<forall>d \<in> set h - set h0. \<forall>x \<in> set (relatives checksums b m0 d). fst x \<in> fst ` set rs) \<and>
     (\<forall>d \<in> set cur \<union> fst ` set rs. related checksums b m0 S d)"

lemma visit_inv:
  assumes "loop_inv checksums b S h0 m0 cur h rs" and "related checksums b m0 S d"
    and "visit checksums b (cur, h, mark_relatives rs m0) d = (cur', h', m')"
  shows "\<exists>rs'. m' = mark_relatives rs' m0 \<and> loop_inv checksums b S h0 m0 cur' h' rs'"
proof (cases "d \<in> set h")
  case True
  then show ?thesis using assms by (auto simp: visit_def loop_inv_def intro!: exI [of _ rs])
next
  case False
  define new where "new = relatives checksums b m0 d"
  have v: "h' = d # h" "m' = mark_relatives (rs @ new) m0"
    and "cur' = foldl append_new (removeAll d cur) (map fst new)"
    using False assms(3) unfolding visit_def Let_def new_def by simp_all
  then have cur: "set cur' = (set cur - {d}) \<union> fst ` set new" by simp
  have new: "\<forall>y \<in> fst ` set new. related checksums b m0 S y"
    using assms(2) related.relative unfolding new_def by blast
  have close: "fst x \<in> fst ` set (rs @ new)" if "e \<in> set h' - set h0" "x \<in> set (relatives checksums b m0 e)" for e x
    using that assms(1) v(1) unfolding loop_inv_def new_def set_append image_Un by (cases "e = d") auto
  have "loop_inv checksums b S h0 m0 cur' h' (rs @ new)"
    using assms(1) new close unfolding loop_inv_def cur by (auto simp: v(1))
  then show ?thesis using v(2) by blast
qed

lemma visits_inv:
  assumes "loop_inv checksums b S h0 m0 cur h rs" and "\<forall>d \<in> set ds. related checksums b m0 S d"
    and "foldl (visit checksums b) (cur, h, mark_relatives rs m0) ds = (cur', h', m')"
  shows "\<exists>rs'. m' = mark_relatives rs' m0 \<and> loop_inv checksums b S h0 m0 cur' h' rs'"
  using assms
proof (induction ds arbitrary: cur h rs)
  case (Cons d ds)
  obtain cur1 h1 m1 where v: "visit checksums b (cur, h, mark_relatives rs m0) d = (cur1, h1, m1)"
    by (metis prod_cases3)
  then obtain rs1 where "m1 = mark_relatives rs1 m0" "loop_inv checksums b S h0 m0 cur1 h1 rs1"
    using visit_inv [OF Cons.prems(1) _ v] Cons.prems(2) by auto
  then show ?case using Cons.IH Cons.prems v by auto
qed auto

lemma protect_loop_inv:
  assumes "loop_inv checksums b S h0 m0 cur h rs"
    and "protect_loop checksums b cur h (mark_relatives rs m0) = (h', m')"
  shows "\<exists>rs'. m' = mark_relatives rs' m0 \<and> loop_inv checksums b S h0 m0 [] h' rs'"
  using assms
proof (induction checksums b cur h m\<equiv>"mark_relatives rs m0" arbitrary: rs rule: protect_loop.induct)
  case (1 checksums b cur h)
  show ?case
  proof (cases "cur = []")
    case True
    then show ?thesis using 1(2,3) by (subst (asm) protect_loop.simps) auto
  next
    case False
    obtain cur1 h1 m1 where v: "visit_all checksums b cur h (mark_relatives rs m0) = (cur1, h1, m1)"
      by (metis prod_cases3)
    moreover have "\<forall>d \<in> set cur. related checksums b m0 S d" using 1(2) by (simp add: loop_inv_def)
    ultimately obtain rs1 where "m1 = mark_relatives rs1 m0" "loop_inv checksums b S h0 m0 cur1 h1 rs1"
      using visits_inv [OF 1(2)] unfolding visit_all_def by blast
    moreover have "protect_loop checksums b cur1 h1 m1 = (h', m')"
      using 1(3) False v by (subst (asm) protect_loop.simps) simp
    ultimately show ?thesis using 1(1) [OF False v [symmetric]] by blast
  qed
qed

lemma protect_loop_result:
  assumes "protect_loop checksums b cur h m = (h', m')"
  shows "\<exists>rs. m' = mark_relatives rs m \<and> set h \<union> set cur \<union> fst ` set rs \<subseteq> set h' \<and>
    (\<forall>d \<in> set h' - set h. \<forall>x \<in> set (relatives checksums b m d). fst x \<in> fst ` set rs) \<and>
    (\<forall>d \<in> fst ` set rs. related checksums b m (set cur) d)"
proof -
  have "loop_inv checksums b (set cur) h m cur h []"
    by (auto simp: loop_inv_def intro: related.start)
  from protect_loop_inv [OF this, of h' m'] assms obtain rs' where
    "m' = mark_relatives rs' m \<and> loop_inv checksums b (set cur) h m [] h' rs'" by auto
  then show ?thesis by (intro exI [of _ rs']) (auto simp: loop_inv_def)
qed

subsection \<open>One target\<close>

text \<open>What keeps what: a stage, the platform images of an index, and the relatives of kept stages.\<close>

inductive kept_by :: "(string, string list) go_map \<Rightarrow> Manager \<Rightarrow> StageDesc \<Rightarrow> StageDesc \<Rightarrow> bool"
  for checksums m d where
  itself: "kept_by checksums m d d"
| platform: "iIsIndex (desc_info d) \<Longrightarrow> info \<in> set (iIndex (desc_info d)) \<Longrightarrow> GetDigest info = Inr g \<Longrightarrow>
    x \<in> set (GetStageDescSet m) \<Longrightarrow> GetDigest (desc_info x) = Inr g \<Longrightarrow> g \<noteq> [] \<Longrightarrow> kept_by checksums m d x"
| relative: "kept_by checksums m d e \<Longrightarrow> x \<in> set (relatives checksums True m e) \<Longrightarrow> kept_by checksums m d (fst x)"

lemma relatives_mono: "(b \<Longrightarrow> b') \<Longrightarrow> set (relatives checksums b m d) \<subseteq> set (relatives checksums b' m d)"
  by (auto simp: relatives_def)

lemma related_kept:
  "related checksums b m S x \<Longrightarrow> \<forall>d \<in> S. kept_by checksums m e d \<Longrightarrow> kept_by checksums m e x"
proof (induction rule: related.induct)
  case (relative d x)
  then show ?case using relatives_mono [of b True checksums m d] kept_by.relative by blast
qed simp

lemma kept_by_static: "kept_by checksums (mark_relatives rs m) d x \<longleftrightarrow> kept_by checksums m d x"
proof
  show "kept_by checksums m d x" if "kept_by checksums (mark_relatives rs m) d x"
    using that by induction (auto intro: kept_by.intros)
  show "kept_by checksums (mark_relatives rs m) d x" if "kept_by checksums m d x"
    using that
  proof induction
    case (relative e x)
    then have "x \<in> set (relatives checksums True (mark_relatives rs m) e)" by (simp only: relatives_static)
    then show ?case by (rule kept_by.relative [OF relative.IH])
  qed (auto intro: kept_by.intros)
qed

text \<open>No \<open>GetDigest\<close> panics.\<close>

definition digest_ok :: "Info \<Rightarrow> bool" where
  "digest_ok info \<longleftrightarrow> (\<exists>g. GetDigest info = Inr g)"

definition digests_ok :: "Manager \<Rightarrow> bool" where
  "digests_ok m \<longleftrightarrow> (\<forall>d \<in> set (GetStageDescSet m). digest_ok (desc_info d)) \<and>
     (\<forall>d \<in> set (GetProtectedStageDescSet m). \<forall>info \<in> set (iIndex (desc_info d)). digest_ok info)"

lemma find_platform_stage_find:
  "find_platform_stage g ds = Inr r \<Longrightarrow> r = find (\<lambda>d. GetDigest (desc_info d) = Inr g) ds"
  by (induction ds) (auto split: sum.splits if_splits)

lemma find_platform_stage_ok:
  "\<forall>d \<in> set ds. digest_ok (desc_info d) \<Longrightarrow> \<exists>r. find_platform_stage g ds = Inr r"
  by (induction ds) (auto simp: digest_ok_def)

definition platform_covered :: "Info list \<Rightarrow> StageDesc list \<Rightarrow> StageDesc set \<Rightarrow> bool" where
  "platform_covered infos stages X \<longleftrightarrow> (\<forall>info \<in> set infos. \<forall>g. GetDigest info = Inr g \<and> g \<noteq> [] \<and>
     (\<exists>x \<in> set stages. GetDigest (desc_info x) = Inr g) \<longrightarrow> (\<exists>x \<in> X. GetDigest (desc_info x) = Inr g))"

lemma platform_covered_mono: "platform_covered infos stages X \<Longrightarrow> X \<subseteq> Y \<Longrightarrow> platform_covered infos stages Y"
  unfolding platform_covered_def by blast

lemma platform_covered_Cons:
  "platform_covered (info # infos) stages X \<longleftrightarrow> platform_covered [info] stages X \<and> platform_covered infos stages X"
  unfolding platform_covered_def by simp

lemma platform_covered_none:
  "GetDigest info = Inr g \<Longrightarrow> g = [] \<or> find (\<lambda>d. GetDigest (desc_info d) = Inr g) stages = None \<Longrightarrow>
   platform_covered [info] stages X"
  by (auto simp: platform_covered_def find_None_iff)

definition platform_stage :: "Info list \<Rightarrow> StageDesc list \<Rightarrow> StageDesc \<Rightarrow> bool" where
  "platform_stage infos stages x \<longleftrightarrow> x \<in> set stages \<and>
     (\<exists>info \<in> set infos. \<exists>g. GetDigest info = Inr g \<and> g \<noteq> [] \<and> GetDigest (desc_info x) = Inr g)"

lemma platform_targets_result:
  assumes "platform_targets infos targets m = Inr (targets', m')"
  shows "\<exists>rs. m' = mark_relatives rs m \<and>
    set targets' = set targets \<union> fst ` set rs \<and> platform_covered infos (GetStageDescSet m) (fst ` set rs) \<and>
    (\<forall>x \<in> fst ` set rs. platform_stage infos (GetStageDescSet m) x)"
  using assms
proof (induction infos arbitrary: targets m)
  case Nil
  then show ?case by (intro exI [of _ "[]"]) (simp add: platform_covered_def)
next
  case (Cons info infos)
  obtain g where g: "GetDigest info = Inr g" using Cons.prems by (auto split: sum.splits)
  let ?f = "find (\<lambda>d. GetDigest (desc_info d) = Inr g) (GetStageDescSet m)"
  have find: "find_platform_stage g (GetStageDescSet m) = Inr ?f" if "g \<noteq> []"
    using Cons.prems g that by (auto split: sum.splits dest!: find_platform_stage_find)
  show ?case
  proof (cases "g = [] \<or> ?f = None")
    case True
    then have "platform_targets infos targets m = Inr (targets', m')"
      using Cons.prems g find by (cases "g = []") simp_all
    from Cons.IH [OF this] obtain rs where rs: "m' = mark_relatives rs m"
        "set targets' = set targets \<union> fst ` set rs" "platform_covered infos (GetStageDescSet m) (fst ` set rs)"
        "\<forall>x \<in> fst ` set rs. platform_stage infos (GetStageDescSet m) x" by auto
    moreover have "platform_covered (info # infos) (GetStageDescSet m) (fst ` set rs)"
      unfolding platform_covered_Cons [of info infos] using True rs(3) platform_covered_none [OF g] by simp
    moreover have "\<forall>x \<in> fst ` set rs. platform_stage (info # infos) (GetStageDescSet m) x"
      using rs(4) by (simp add: platform_stage_def)
    ultimately show ?thesis by (intro exI [of _ rs]) simp
  next
    case False
    then obtain d where d: "?f = Some d" by auto
    then have dd: "d \<in> set (GetStageDescSet m)" "GetDigest (desc_info d) = Inr g" by (auto dest: find_SomeD)
    let ?m = "mark_relatives [(d, ProtectionReasonImageIndexPlatform)] m"
    have "platform_targets infos (append_new targets d) ?m = Inr (targets', m')"
      using Cons.prems False g find d by (simp add: mark_relatives_def)
    from Cons.IH [OF this] obtain rs where
      rs: "m' = mark_relatives rs ?m"
        "set targets' = insert d (set targets) \<union> fst ` set rs" "platform_covered infos (GetStageDescSet m) (fst ` set rs)"
        "\<forall>x \<in> fst ` set rs. platform_stage infos (GetStageDescSet m) x" by auto
    have "platform_covered (info # infos) (GetStageDescSet m) (insert d (fst ` set rs))"
      using rs(3) g dd by (auto simp: platform_covered_def)
    moreover have "\<forall>x \<in> insert d (fst ` set rs). platform_stage (info # infos) (GetStageDescSet m) x"
      using rs(4) False g dd by (auto simp: platform_stage_def)
    ultimately show ?thesis using rs(1,2)
      by (intro exI [of _ "(d, ProtectionReasonImageIndexPlatform) # rs"]) auto
  qed
qed

lemma platform_targets_ok:
  assumes "\<forall>d \<in> set (GetStageDescSet m). digest_ok (desc_info d)" and "\<forall>info \<in> set infos. digest_ok info"
  shows "\<exists>r. platform_targets infos targets m = Inr r"
  using assms
proof (induction infos arbitrary: targets m)
  case (Cons info infos)
  obtain g r where "GetDigest info = Inr g" "find_platform_stage g (GetStageDescSet m) = Inr r"
    using Cons.prems find_platform_stage_ok by (fastforce simp: digest_ok_def)
  then show ?case using Cons.IH Cons.prems by (cases r) auto
qed simp

text \<open>What the protection of the relatives of one stage has done, with the handled set grown from
  \<open>h\<close> to \<open>h'\<close> by the marks \<open>rs\<close>.\<close>

definition covers where
  "covers m rs h' d \<longleftrightarrow> (if iIsIndex (desc_info d)
     then platform_covered (iIndex (desc_info d)) (GetStageDescSet m) (fst ` set rs) else d \<in> set h')"

definition grown where
  "grown checksums b m h rs h' \<longleftrightarrow> set h \<union> fst ` set rs \<subseteq> set h' \<and>
     (\<forall>e \<in> set h' - set h. \<forall>x \<in> set (relatives checksums b m e). fst x \<in> fst ` set rs)"

lemma protect_target:
  assumes "protectRelativeStageDescSetByStageDesc checksums d b (h, m) = Inr (h', m')"
  shows "\<exists>rs. m' = mark_relatives rs m \<and>
    grown checksums b m h rs h' \<and> covers m rs h' d \<and> (\<forall>x \<in> fst ` set rs. kept_by checksums m d x)"
proof (cases "iIsIndex (desc_info d)")
  case False
  then have l: "protect_loop checksums b [d] h m = (h', m')"
    using assms by (simp add: protectRelativeStageDescSetByStageDesc_def)
  then obtain rs where "m' = mark_relatives rs m" "set h \<union> {d} \<union> fst ` set rs \<subseteq> set h'"
    "\<forall>d \<in> set h' - set h. \<forall>x \<in> set (relatives checksums b m d). fst x \<in> fst ` set rs"
    "\<forall>x \<in> fst ` set rs. related checksums b m {d} x"
    using protect_loop_result [OF l] by auto
  moreover from this(4) have "\<forall>x \<in> fst ` set rs. kept_by checksums m d x"
    using related_kept [of checksums b m "{d}"] by (blast intro: kept_by.itself)
  ultimately show ?thesis using False
    by (intro exI [of _ rs]) (auto simp: grown_def covers_def)
next
  case True
  obtain targets m1 where "platform_targets (iIndex (desc_info d)) [] m = Inr (targets, m1)"
    and l: "protect_loop checksums b targets h m1 = (h', m')"
    using assms True by (auto simp: protectRelativeStageDescSetByStageDesc_def split: sum.splits)
  then obtain rs1 where t: "m1 = mark_relatives rs1 m"
    "set targets = fst ` set rs1" "platform_covered (iIndex (desc_info d)) (GetStageDescSet m) (fst ` set rs1)"
    "\<forall>x \<in> fst ` set rs1. platform_stage (iIndex (desc_info d)) (GetStageDescSet m) x"
    using platform_targets_result by fastforce
  obtain rs where rs: "m' = mark_relatives rs m1" "set h \<union> set targets \<union> fst ` set rs \<subseteq> set h'"
    "\<forall>d \<in> set h' - set h. \<forall>x \<in> set (relatives checksums b m d). fst x \<in> fst ` set rs"
    "\<forall>x \<in> fst ` set rs. related checksums b m1 (set targets) x"
    using protect_loop_result [OF l] unfolding t(1) relatives_static by blast
  have start: "\<forall>x \<in> set targets. kept_by checksums m1 d x"
    using True t by (auto simp: platform_stage_def kept_by_static intro: kept_by.platform)
  have kept: "\<forall>x \<in> fst ` set (rs1 @ rs). kept_by checksums m d x"
    using related_kept [OF _ start] rs(4) start t(2) unfolding t(1) kept_by_static by auto
  have grown: "grown checksums b m h (rs1 @ rs) h'"
    using rs(2,3) t(2) unfolding grown_def set_append image_Un by auto
  have "covers m (rs1 @ rs) h' d" using True platform_covered_mono [OF t(3)] unfolding covers_def set_append image_Un by simp
  then show ?thesis using t(1) rs(1) kept grown by (intro exI [of _ "rs1 @ rs"]) simp
qed

lemma protect_target_ok:
  assumes "\<forall>d \<in> set (GetStageDescSet m). digest_ok (desc_info d)" and "\<forall>info \<in> set (iIndex (desc_info d)). digest_ok info"
  shows "\<exists>r. protectRelativeStageDescSetByStageDesc checksums d b (h, m) = Inr r"
  using platform_targets_ok [OF assms, of "[]"] by (auto simp: protectRelativeStageDescSetByStageDesc_def)

subsection \<open>All targets\<close>

definition targets_of :: "protected_groups \<Rightarrow> (bool \<times> StageDesc) list" where
  "targets_of groups = concat (map (\<lambda>(reason, ds). map (\<lambda>d. (reason \<noteq> Some ProtectionReasonGitPolicy, d)) ds) groups)"

lemma protect_groups_flat:
  "fold_res (protect_group checksums) hm groups =
   fold_res (\<lambda>hm (b, d). protectRelativeStageDescSetByStageDesc checksums d b hm) hm (targets_of groups)"
proof (induction groups arbitrary: hm)
  case (Cons g groups)
  obtain reason ds where g: "g = (reason, ds)" by (cases g)
  have "protect_group checksums hm (reason, ds) = fold_res (\<lambda>hm (b, d). protectRelativeStageDescSetByStageDesc checksums d b hm) hm
      (map (\<lambda>d. (reason \<noteq> Some ProtectionReasonGitPolicy, d)) ds)" for hm
    unfolding protect_group_def by (induction ds arbitrary: hm) (auto split: sum.splits)
  then show ?case by (auto simp: targets_of_def g fold_res_append Cons.IH split: sum.splits)
qed (simp add: targets_of_def)

lemma grown_compose:
  assumes "grown checksums b m h rs1 h1" "grown checksums b (mark_relatives rs1 m) h1 rs2 h2"
  shows "grown checksums b m h (rs1 @ rs2) h2"
  using assms unfolding grown_def relatives_static set_append image_Un by blast

lemma covers_compose:
  "covers m rs1 h1 d \<Longrightarrow> set h1 \<subseteq> set h2 \<Longrightarrow> covers m (rs1 @ rs2) h2 d"
  unfolding covers_def set_append image_Un
  by (auto intro: platform_covered_mono [OF _ Un_upper1])

lemma protect_targets:
  assumes "fold_res (\<lambda>hm (b, d). protectRelativeStageDescSetByStageDesc checksums d b hm) (h, m) ts = Inr (h', m')"
    and "\<forall>(b', d) \<in> set ts. b \<longrightarrow> b'"
  shows "\<exists>rs. m' = mark_relatives rs m \<and> grown checksums b m h rs h' \<and>
    (\<forall>(_, d) \<in> set ts. covers m rs h' d) \<and> (\<forall>x \<in> fst ` set rs. \<exists>(_, d) \<in> set ts. kept_by checksums m d x)"
  using assms
proof (induction ts arbitrary: h m)
  case Nil
  then show ?case by (intro exI [of _ "[]"]) (simp add: grown_def)
next
  case (Cons t ts)
  obtain b' d where t: "t = (b', d)" by (cases t)
  obtain h1 m1 where p: "protectRelativeStageDescSetByStageDesc checksums d b' (h, m) = Inr (h1, m1)"
    and rest: "fold_res (\<lambda>hm (b, d). protectRelativeStageDescSetByStageDesc checksums d b hm) (h1, m1) ts = Inr (h', m')"
    using Cons.prems(1) by (auto simp: t split: sum.splits)
  obtain rs1 where one: "m1 = mark_relatives rs1 m"
      "grown checksums b' m h rs1 h1" "covers m rs1 h1 d" "\<forall>x \<in> fst ` set rs1. kept_by checksums m d x"
    using protect_target [OF p] by blast
  have "set (relatives checksums b m e) \<subseteq> set (relatives checksums b' m e)" for e
    by (rule relatives_mono) (use Cons.prems(2) t in simp)
  then have g1: "grown checksums b m h rs1 h1" using one(2) unfolding grown_def by (meson subsetD)
  obtain rs2 where two: "m' = mark_relatives rs2 m1"
      "grown checksums b m1 h1 rs2 h'" "\<forall>(_, d) \<in> set ts. covers m1 rs2 h' d"
      "\<forall>x \<in> fst ` set rs2. \<exists>(_, d) \<in> set ts. kept_by checksums m1 d x"
    using Cons.IH [OF rest] Cons.prems(2) by auto
  have "set h1 \<subseteq> set h'" using two(2) by (simp add: grown_def)
  then have "covers m (rs1 @ rs2) h' d" using one(3) by (rule covers_compose [rotated])
  moreover have "covers m (rs1 @ rs2) h' d'" if "(b', d') \<in> set ts" for b' d'
  proof -
    have "covers m rs2 h' d'" using two(3) that unfolding covers_def one(1) by auto
    then show ?thesis unfolding covers_def set_append image_Un by (auto intro: platform_covered_mono [OF _ Un_upper2])
  qed
  moreover have "\<exists>(_, d) \<in> set (t # ts). kept_by checksums m d x" if "x \<in> fst ` set (rs1 @ rs2)" for x
    using that one(4) two(4) unfolding set_append image_Un one(1) kept_by_static t by auto
  ultimately show ?case using one(1) two(1) grown_compose [OF g1 two(2) [unfolded one(1)]]
    by (intro exI [of _ "rs1 @ rs2"]) (auto simp: t)
qed

lemma protect_targets_ok:
  assumes "\<forall>d \<in> set (GetStageDescSet m). digest_ok (desc_info d)"
    and "\<forall>(b', d) \<in> set ts. \<forall>info \<in> set (iIndex (desc_info d)). digest_ok info"
  shows "\<exists>r. fold_res (\<lambda>hm (b, d). protectRelativeStageDescSetByStageDesc checksums d b hm) (h, m) ts = Inr r"
  using assms
proof (induction ts arbitrary: h m)
  case (Cons t ts)
  obtain b' d where t: "t = (b', d)" by (cases t)
  have "\<forall>info \<in> set (iIndex (desc_info d)). digest_ok info" using Cons.prems(2) t by simp
  from protect_target_ok [OF Cons.prems(1) this, of checksums b' h] obtain h1 m1 where
    p: "protectRelativeStageDescSetByStageDesc checksums d b' (h, m) = Inr (h1, m1)" by auto
  then have "GetStageDescSet m1 = GetStageDescSet m" using protect_target [OF p] by auto
  then show ?case using Cons.IH [of m1 h1] Cons.prems p by (simp add: t)
qed simp

lemma targets_of_groups:
  assumes "manager_inv m" and "set groups = set (GetProtectedStageDescSetByReason m)"
  shows "snd ` set (targets_of groups) = set (GetProtectedStageDescSet m)"
    and "(b, d) \<in> set (targets_of groups) \<Longrightarrow>
      \<exists>r. protection (m_managedStageDescSet m) d = Some r \<and> b = (r \<noteq> Some ProtectionReasonGitPolicy)"
proof -
  let ?s = "m_managedStageDescSet m"
  have ok: "map_ok (stageDescMetaMap ?s)" using assms(1) by (simp add: manager_inv_def set_inv_metaMap)
  have mem: "d \<in> set (slice_get (GetProtectedStageDescSetByReason m) r)" if "(r, ds) \<in> set groups" "d \<in> set ds" for r d ds
    using that assms(2) slice_get_mem [OF map_ok_ByReason] by (simp add: GetProtectedStageDescSetByReason_def)
  show "(b, d) \<in> set (targets_of groups) \<Longrightarrow>
      \<exists>r. protection (m_managedStageDescSet m) d = Some r \<and> b = (r \<noteq> Some ProtectionReasonGitPolicy)"
    using mem set_slice_get_ByReason [OF ok] by (fastforce simp: targets_of_def GetProtectedStageDescSetByReason_def)
  have "snd ` set (targets_of groups) = (\<Union>x \<in> set groups. set (snd x))" by (force simp: targets_of_def)
  also have "\<dots> = set (GetProtectedStageDescSet m)"
    using assms(2) by (simp add: GetProtectedStageDescSet_def set_GetProtectedStageDescSet_def set_foldl_union
        GetProtectedStageDescSetByReason_def)
  finally show "snd ` set (targets_of groups) = set (GetProtectedStageDescSet m)" .
qed

lemma protect_groups_result:
  assumes "protect_groups order checksums m = Inr m'" and "manager_inv m" and "\<And>g. set (order g) = set g"
    and "b \<longrightarrow> (\<forall>d \<in> set (GetProtectedStageDescSet m). reason_of_stage m d \<noteq> Some ProtectionReasonGitPolicy)"
  shows "\<exists>rs h. m' = mark_relatives rs m \<and> grown checksums b m [] rs h \<and>
    (\<forall>d \<in> set (GetProtectedStageDescSet m). covers m rs h d) \<and>
    (\<forall>x \<in> fst ` set rs. \<exists>d \<in> set (GetProtectedStageDescSet m). kept_by checksums m d x)"
proof -
  let ?ts = "targets_of (order (GetProtectedStageDescSetByReason m))"
  note ts = targets_of_groups [OF assms(2), of "order (GetProtectedStageDescSetByReason m)", OF assms(3)]
  have tgt: "d \<in> set (GetProtectedStageDescSet m)" if "(b', d) \<in> set ?ts" for b' d
    using that ts(1) by force
  have "\<forall>(b', d) \<in> set ?ts. b \<longrightarrow> b'"
  proof (clarify)
    fix b' d assume t: "(b', d) \<in> set ?ts" and b
    then show b' using ts(2) [OF t] assms(4) tgt [OF t] by (auto simp: reason_of_stage_def)
  qed
  moreover obtain h where "fold_res (\<lambda>hm (b, d). protectRelativeStageDescSetByStageDesc checksums d b hm) ([], m) ?ts = Inr (h, m')"
    using assms(1) by (auto simp: protect_groups_def protect_groups_flat map_sum_def split: sum.splits)
  ultimately obtain rs where r: "m' = mark_relatives rs m" "grown checksums b m [] rs h"
    "\<forall>(_, d) \<in> set ?ts. covers m rs h d" "\<forall>x \<in> fst ` set rs. \<exists>(_, d) \<in> set ?ts. kept_by checksums m d x"
    using protect_targets [of checksums "[]" m ?ts h m' b] by blast
  have "\<forall>d \<in> set (GetProtectedStageDescSet m). covers m rs h d" using r(3) ts(1) by force
  moreover have "\<forall>x \<in> fst ` set rs. \<exists>d \<in> set (GetProtectedStageDescSet m). kept_by checksums m d x"
    using r(4) tgt by fastforce
  ultimately show ?thesis using r(1,2) by blast
qed

lemma protect_groups_ok:
  assumes "manager_inv m" and "digests_ok m" and "\<And>g. set (order g) = set g"
  shows "\<exists>m'. protect_groups order checksums m = Inr m'"
proof -
  let ?ts = "targets_of (order (GetProtectedStageDescSetByReason m))"
  note ts = targets_of_groups(1) [OF assms(1), of "order (GetProtectedStageDescSetByReason m)", OF assms(3)]
  have "\<forall>d \<in> snd ` set ?ts. \<forall>info \<in> set (iIndex (desc_info d)). digest_ok info"
    using assms(2) unfolding ts by (simp add: digests_ok_def)
  then have "\<forall>(b', d) \<in> set ?ts. \<forall>info \<in> set (iIndex (desc_info d)). digest_ok info" by auto
  moreover have "\<forall>d \<in> set (GetStageDescSet m). digest_ok (desc_info d)" using assms(2) by (simp add: digests_ok_def)
  ultimately show ?thesis
    using protect_targets_ok [of m ?ts checksums "[]"] by (auto simp: protect_groups_def protect_groups_flat)
qed

text \<open>What holds when no digest panics.\<close>

lemma protect_groups_closed:
  assumes "protect_groups order checksums m = Inr m'" and "manager_inv m" and "\<And>g. set (order g) = set g"
  defines "P \<equiv> set (GetProtectedStageDescSet m)"
  shows "manager_inv m' \<and> (\<exists>rs. m' = mark_relatives rs m) \<and> P \<subseteq> set (GetProtectedStageDescSet m') \<and>
    (\<forall>d \<in> set (GetProtectedStageDescSet m'). d \<notin> P \<or> \<not> iIsIndex (desc_info d) \<longrightarrow>
       fst ` set (parents m d) \<subseteq> set (GetProtectedStageDescSet m')) \<and>
    (\<forall>d \<in> P. iIsIndex (desc_info d) \<longrightarrow>
       platform_covered (iIndex (desc_info d)) (GetStageDescSet m) (set (GetProtectedStageDescSet m'))) \<and>
    (\<forall>x \<in> set (GetProtectedStageDescSet m'). \<exists>d \<in> P. kept_by checksums m d x)"
proof -
  obtain rs h where r: "m' = mark_relatives rs m" "grown checksums False m [] rs h"
    "\<forall>d \<in> P. covers m rs h d" "\<forall>x \<in> fst ` set rs. \<exists>d \<in> P. kept_by checksums m d x"
    using protect_groups_result [OF assms(1,2,3), where b = False] unfolding P_def by blast
  note m' = protected_mark_relatives [OF assms(2), of rs]
  have up: "fst ` set (parents m d) \<subseteq> fst ` set rs" if "d \<in> set h" for d
    using r(2) that unfolding grown_def relatives_def by auto
  have "d \<in> set h" if "d \<in> P \<union> fst ` set rs" "d \<notin> P \<or> \<not> iIsIndex (desc_info d)" for d
    using that r(2,3) unfolding grown_def covers_def by (auto split: if_splits)
  then have "\<forall>d \<in> P \<union> fst ` set rs. d \<notin> P \<or> \<not> iIsIndex (desc_info d) \<longrightarrow> fst ` set (parents m d) \<subseteq> P \<union> fst ` set rs"
    using up by blast
  moreover have "\<forall>d \<in> P. iIsIndex (desc_info d) \<longrightarrow>
       platform_covered (iIndex (desc_info d)) (GetStageDescSet m) (P \<union> fst ` set rs)"
    using r(3) platform_covered_mono [of _ _ "fst ` set rs" "P \<union> fst ` set rs"] by (auto simp: covers_def)
  moreover have "\<forall>x \<in> P \<union> fst ` set rs. \<exists>d \<in> P. kept_by checksums m d x"
    using r(4) by (blast intro: kept_by.itself)
  ultimately show ?thesis using r(1) m' unfolding P_def by auto
qed

text \<open>C11: the protection of the relatives of kept stages ends without a panic when every repo digest
  is well formed, and it is a closure between two bounds: everything protected before stays
  protected, the parents of every protected stage become protected (an index excepted that was kept for itself,
  whose platform images become protected instead), and nothing else than stages that a kept stage
  leads to becomes protected, whatever the order in which Go visits the groups.\<close>

theorem protect_groups_closure:
  assumes "manager_inv m" and "digests_ok m" and "\<And>g. set (order g) = set g"
  defines "P \<equiv> set (GetProtectedStageDescSet m)"
  shows "\<exists>m'. protect_groups order checksums m = Inr m' \<and> manager_inv m' \<and> GetStageDescSet m' = GetStageDescSet m \<and>
    P \<subseteq> set (GetProtectedStageDescSet m') \<and>
    (\<forall>d \<in> set (GetProtectedStageDescSet m'). d \<notin> P \<or> \<not> iIsIndex (desc_info d) \<longrightarrow>
       fst ` set (parents m d) \<subseteq> set (GetProtectedStageDescSet m')) \<and>
    (\<forall>d \<in> P. iIsIndex (desc_info d) \<longrightarrow>
       platform_covered (iIndex (desc_info d)) (GetStageDescSet m) (set (GetProtectedStageDescSet m'))) \<and>
    (\<forall>x \<in> set (GetProtectedStageDescSet m'). \<exists>d \<in> P. kept_by checksums m d x)"
proof -
  obtain m' where "protect_groups order checksums m = Inr m'" using protect_groups_ok [OF assms(1-3)] by blast
  from this protect_groups_closed [OF this assms(1,3)] show ?thesis unfolding P_def by auto
qed

text \<open>When nothing is kept by the Git history policy, the sources of the imports and
  dependencies of every kept stage are kept with it.\<close>

lemma protect_groups_sourced:
  assumes ok: "protect_groups order checksums m = Inr m'" and inv: "manager_inv m" and "\<And>g. set (order g) = set g"
    and "\<forall>d \<in> set (GetProtectedStageDescSet m). reason_of_stage m d \<noteq> Some ProtectionReasonGitPolicy"
  shows "\<forall>d \<in> set (GetProtectedStageDescSet m'). d \<notin> set (GetProtectedStageDescSet m) \<or> \<not> iIsIndex (desc_info d) \<longrightarrow>
       fst ` set (relatives checksums True m d) \<subseteq> set (GetProtectedStageDescSet m')"
proof -
  obtain rs h where r: "m' = mark_relatives rs m" "grown checksums True m [] rs h"
    "\<forall>d \<in> set (GetProtectedStageDescSet m). covers m rs h d"
    using protect_groups_result [OF ok inv assms(3), where b = True] assms(4) by blast
  let ?P = "set (GetProtectedStageDescSet m)"
  have src: "fst ` set (relatives checksums True m d) \<subseteq> fst ` set rs" if "d \<in> set h" for d
    using r(2) that unfolding grown_def by auto
  have "d \<in> set h" if "d \<in> ?P \<union> fst ` set rs" "d \<notin> ?P \<or> \<not> iIsIndex (desc_info d)" for d
    using that r(2,3) unfolding grown_def covers_def by (auto split: if_splits)
  then have "\<forall>d \<in> ?P \<union> fst ` set rs. d \<notin> ?P \<or> \<not> iIsIndex (desc_info d) \<longrightarrow>
      fst ` set (relatives checksums True m d) \<subseteq> ?P \<union> fst ` set rs"
    using src by blast
  then show ?thesis using r(1) protected_mark_relatives [OF inv, of rs] by simp
qed

theorem protect_groups_sources:
  assumes "manager_inv m" and "digests_ok m" and "\<And>g. set (order g) = set g"
    and "\<forall>d \<in> set (GetProtectedStageDescSet m). reason_of_stage m d \<noteq> Some ProtectionReasonGitPolicy"
  shows "\<exists>m'. protect_groups order checksums m = Inr m' \<and>
    set (GetProtectedStageDescSet m) \<subseteq> set (GetProtectedStageDescSet m') \<and>
    (\<forall>d \<in> set (GetProtectedStageDescSet m'). d \<notin> set (GetProtectedStageDescSet m) \<or> \<not> iIsIndex (desc_info d) \<longrightarrow>
       fst ` set (relatives checksums True m d) \<subseteq> set (GetProtectedStageDescSet m'))"
proof -
  obtain m' where ok: "protect_groups order checksums m = Inr m'" using protect_groups_ok [OF assms(1-3)] by blast
  from protect_groups_closed [OF ok assms(1,3)] protect_groups_sourced [OF ok assms(1,3,4)] ok show ?thesis by auto
qed

subsection \<open>Examples\<close>

text \<open>An application image that is built from a base; the base imports files of a third stage. The
  application is used in Kubernetes.\<close>

definition example_stage :: "nat \<Rightarrow> string \<Rightarrow> (string, string) go_map \<Rightarrow> StageDesc" where
  "example_stage n digest labels = \<lparr>desc_addr = n, desc_id = NewStageID digest 0,
     desc_info = Info digest [] digest [] [] [] digest [] labels 0 0 [] False []\<rparr>"

definition example_source :: StageDesc where
  "example_source = example_stage 0 ''src'' []"

definition example_base :: StageDesc where
  "example_base = example_stage 1 ''base'' [(''werf-dependency-stage-id-0'', ''src'')]"

definition example_app :: StageDesc where
  "example_app = example_stage 2 ''app'' [(''werf.io/parent-stage-id'', ''base'')]"

definition example_manager :: Manager where
  "example_manager = NewManager\<lparr>m_managedStageDescSet :=
     newManagedStageDescSet [example_source, example_base, example_app]\<rparr>"

definition example_deployed :: Manager where
  "example_deployed = MarkStageDescAsProtected example_app ProtectionReasonKubernetesBasedPolicy False example_manager"

lemmas example_defs = example_stage_def example_source_def example_base_def example_app_def NewStageID_def

lemma example_manager_inv: "manager_inv example_manager" "manager_inv example_deployed"
proof -
  show "manager_inv example_manager"
    by (simp add: manager_inv_def example_manager_def NewManager_def set_inv_new)
  then show "manager_inv example_deployed" unfolding example_deployed_def by (rule repo.inv_mark)
qed

lemma example_protected: "set (GetProtectedStageDescSet example_deployed) = {example_app}"
proof -
  have "GetProtectedStageDescSet example_manager = []"
    by (simp add: example_manager_def GetProtectedStageDescSet_def set_GetProtectedStageDescSet_def newManagedStageDescSet_def
        set_GetProtectedStageDescSetByReason_def)
  then show ?thesis by (simp add: example_deployed_def repo.protected_mark [OF example_manager_inv(1)])
qed

lemma example_digests: "digests_ok example_deployed"
  unfolding digests_ok_def example_protected
  by (simp add: example_deployed_def GetStageDescSet_def example_manager_def newManagedStageDescSet_def
      MarkStageDescAsProtected_def digest_ok_def GetDigest_def example_defs)

lemma example_parents: "fst ` set (parents example_deployed example_app) = {example_base}"
  by (simp add: parents_def found_def example_deployed_def example_manager_def example_defs newManagedStageDescSet_def
      GetStageDescSet_def MarkStageDescAsProtected_def GetStageDescByStageID_def set_GetStageDescByStageID_def
      WerfParentStageID_def StageID_String_def)

theorem protect_groups_closure_witness:
  "\<exists>m'. protect_groups rev [] example_deployed = Inr m' \<and> {example_app, example_base} \<subseteq> set (GetProtectedStageDescSet m')"
proof -
  have "\<not> iIsIndex (desc_info example_app)" by (simp add: example_defs)
  then show ?thesis
    using protect_groups_closure [OF example_manager_inv(2) example_digests, of rev "[]"] unfolding example_protected
    using example_parents by auto
qed

theorem protect_groups_sources_witness:
  "\<exists>m'. protect_groups rev [] example_deployed = Inr m' \<and>
     fst ` set (relatives [] True example_deployed example_app) \<subseteq> set (GetProtectedStageDescSet m')"
proof -
  have "reason_of_stage example_deployed example_app = Some ProtectionReasonKubernetesBasedPolicy"
    using repo.reason_mark [OF example_manager_inv(1)] example_protected
    by (simp add: example_deployed_def example_manager_def GetProtectedStageDescSet_def set_GetProtectedStageDescSet_def
        newManagedStageDescSet_def set_GetProtectedStageDescSetByReason_def)
  then have "\<forall>d \<in> set (GetProtectedStageDescSet example_deployed).
      reason_of_stage example_deployed d \<noteq> Some ProtectionReasonGitPolicy" unfolding example_protected by simp
  from protect_groups_sources [OF example_manager_inv(2) example_digests _ this, of rev "[]"]
  moreover have "\<not> iIsIndex (desc_info example_app)" by (simp add: example_defs)
  ultimately show ?thesis unfolding example_protected by auto
qed

lemma case_sum_Inr:
  assumes "case x of Inr m \<Rightarrow> P m | Inl _ \<Rightarrow> False"
  obtains m where "x = Inr m" "P m"
  using assms by (cases x) auto

text \<open>C38: which stages survive can depend on the order in which Go visits the groups of protected
  stages: the base is kept by the git history as well; visited first for that, it is handled without its
  sources, and the application, visited later, does not bring them in any more.\<close>

theorem protection_depends_on_map_order:
  "\<exists>m. manager_inv m \<and> digests_ok m \<and>
     (\<exists>m1 m2 d. protect_groups id [] m = Inr m1 \<and> protect_groups rev [] m = Inr m2 \<and> d \<in> set (GetStageDescSet m) \<and>
        d \<in> set (GetProtectedStageDescSet m1) \<and> d \<notin> set (GetProtectedStageDescSet m2))"
proof -
  let ?m = "MarkStageDescAsProtected example_base ProtectionReasonGitPolicy True example_deployed"
  have prot: "set (GetProtectedStageDescSet ?m) = {example_base, example_app}"
    by (simp add: repo.protected_mark [OF example_manager_inv(2)] example_protected)
  have "manager_inv ?m" by (rule repo.inv_mark [OF example_manager_inv(2)])
  moreover have "digests_ok ?m" using example_digests unfolding digests_ok_def prot example_protected
    by (simp add: example_defs)
  moreover have "example_source \<in> set (GetStageDescSet ?m)"
    by (simp add: GetStageDescSet_def example_deployed_def example_manager_def newManagedStageDescSet_def MarkStageDescAsProtected_def)
  moreover have "(case protect_groups id [] ?m of Inr m1 \<Rightarrow> example_source \<in> set (GetProtectedStageDescSet m1) | Inl _ \<Rightarrow> False)"
    by code_simp
  moreover have "(case protect_groups rev [] ?m of Inr m2 \<Rightarrow> example_source \<notin> set (GetProtectedStageDescSet m2) | Inl _ \<Rightarrow> False)"
    by code_simp
  ultimately show ?thesis by (blast elim: case_sum_Inr)
qed

end
