(* ===== verification/Cleanup.thy ===== *)
theory Cleanup
  imports Complex_Main History_Scanner Deployed_Images Relatives
begin

text \<open>
  The cleanup command: \<open>src/pkg/cleaning/cleanup.go\<close>, and the purge command of
  \<open>src/pkg/cleaning/purge.go\<close>. The policies mark the stages to keep one after the other; the
  relatives of kept stages are marked; what is left is deleted, then the custom tags and the
  import metadata without a stage, then the final stages.

  Every phase is a step over the state of the cleanup. The images of the git history phase are
  handled one after the other, in the order of the list; with several workers their calls
  interleave. The log output and the tables are left out.
\<close>

subsection \<open>Options and surroundings\<close>

record CleanupOptions =
  ImageNameList :: "string list"
  WithoutKube :: bool
  ConfigMetaCleanup :: MetaCleanup
  KeepStagesBuiltWithinLastNHours :: "nat option"
  DryRun :: bool
  keepList :: "string list"

text \<open>
  What the cleanup asks of the outside: the clusters of the Kubernetes contexts, the git
  repository, the clock (one reading: the time the cleanup takes is not modelled), the rounding
  of a float64, the sorting routine, the two list helpers of another repository, and the order in
  which Go visits the map of the protected groups.
\<close>

record surroundings =
  KubernetesContextClients :: "(string \<times> cluster) list"
  IsCommitExists :: "string \<Rightarrow> go_error + bool"
  LocalGit :: "go_error + git_repository"
  Compile_regexp :: "string \<Rightarrow> regexp option"
  sort_refs :: sorter
  sort_commits :: commit_sorter
  AddNewStrings :: "string list \<Rightarrow> string list \<Rightarrow> string list"
  ExcludeStrings :: "string list \<Rightarrow> string list \<Rightarrow> string list"
  group_order :: "protected_groups \<Rightarrow> protected_groups"
  time_Now :: int
  float64 :: "rat \<Rightarrow> rat"

definition update_manager :: "(Manager \<Rightarrow> go_error + Manager) \<Rightarrow> cleanupManager step" where
  "update_manager f s =
     (case f (stageManager s) of
        Inl e \<Rightarrow> Some (Some e, s)
      | Inr m \<Rightarrow> Some (None, s\<lparr>stageManager := m\<rparr>))"

definition change_manager :: "(Manager \<Rightarrow> Manager) \<Rightarrow> cleanupManager step" where
  "change_manager f = update_manager (\<lambda>m. Inr (f m))"

definition with_manager :: "(Manager \<Rightarrow> cleanupManager step) \<Rightarrow> cleanupManager step" where
  "with_manager f s = f (stageManager s) s"

definition do_when :: "bool \<Rightarrow> 's step \<Rightarrow> 's step" where
  "do_when b f = (if b then f else skip)"

subsection \<open>Init\<close>

definition newCleanupManager :: cleanupManager where
  "newCleanupManager =
     \<lparr>stageManager = NewManager, checksumSourceStageIDs = [], sourceStageIDImportIDs = [], trace = []\<rparr>"

definition cleanup_init :: "storage \<Rightarrow> surroundings \<Rightarrow> CleanupOptions \<Rightarrow> cleanupManager step" where
  "cleanup_init w env opts = in_order
     [update_manager (InitStageDescSet (stage_descs w)),
      (case final_repo w of
         None \<Rightarrow> skip
       | Some (_, answer) \<Rightarrow> update_manager (InitFinalStageDescSet answer)),
      update_manager (InitImagesMetadata (IsCommitExists env) (image_metadata w (ImageNameList opts))),
      update_manager (InitCustomTagsMetadata (custom_tag_ids w) (custom_tag_metadata w))]"

subsection \<open>Images used in Kubernetes\<close>

definition is_deployed :: "DeployedDockerImage list \<Rightarrow> string \<Rightarrow> string \<Rightarrow> bool" where
  "is_deployed deployed address tag \<longleftrightarrow> (\<exists>i \<in> set deployed. ddi_Name i = address @ '':'' @ tag)"

definition handleTagFunc ::
  "DeployedDockerImage list \<Rightarrow> string \<Rightarrow> string \<Rightarrow> string \<Rightarrow> (Manager \<Rightarrow> Manager) \<Rightarrow>
   string list \<times> Manager \<Rightarrow> string list \<times> Manager" where
  "handleTagFunc deployed address tag stageID f = (\<lambda>(handled, m).
     if is_deployed deployed address tag \<and> stageID \<notin> set handled then (stageID # handled, f m) else (handled, m))"

definition keep_deployed_stage ::
  "DeployedDockerImage list \<Rightarrow> string \<Rightarrow> string list \<times> Manager \<Rightarrow> StageDesc \<Rightarrow> string list \<times> Manager" where
  "keep_deployed_stage deployed address hm d =
     handleTagFunc deployed address (desc_stageID d) (desc_stageID d)
       (MarkStageDescAsProtected d ProtectionReasonKubernetesBasedPolicy False) hm"

definition keep_deployed_tag ::
  "DeployedDockerImage list \<Rightarrow> string \<Rightarrow> string list \<times> Manager \<Rightarrow> string \<times> string \<Rightarrow> string list \<times> Manager" where
  "keep_deployed_tag deployed address hm = (\<lambda>(stageID, customTag).
     handleTagFunc deployed address customTag stageID
       (\<lambda>m. case GetStageDescByStageID m stageID of
              Some d \<Rightarrow> MarkStageDescAsProtected d ProtectionReasonKubernetesBasedPolicy False m
            | None \<Rightarrow> ForgetCustomTagsByStageID stageID m) hm)"

definition skipStageIDsThatAreUsedInKubernetes ::
  "string \<Rightarrow> DeployedDockerImage list \<Rightarrow> Manager \<Rightarrow> Manager" where
  "skipStageIDsThatAreUsedInKubernetes address deployed m =
     snd (foldl (keep_deployed_tag deployed address)
            (foldl (keep_deployed_stage deployed address) ([], m) (GetStageDescSet m))
            (concat (map (\<lambda>(stageID, tags). map (\<lambda>tag. (stageID, tag)) tags) (GetCustomTagsMetadata m))))"

definition skipFinalStageIDsThatAreUsedInKubernetes ::
  "string \<Rightarrow> DeployedDockerImage list \<Rightarrow> Manager \<Rightarrow> Manager" where
  "skipFinalStageIDsThatAreUsedInKubernetes address deployed m =
     snd (foldl (\<lambda>hm d. handleTagFunc deployed address (desc_stageID d) (desc_stageID d)
                   (MarkFinalStageDescAsProtected d ProtectionReasonKubernetesBasedPolicy False) hm)
            ([], m) (GetFinalStageDescSet m))"

definition kubernetes_policy :: "storage \<Rightarrow> surroundings \<Rightarrow> cleanupManager step" where
  "kubernetes_policy w env =
     (if KubernetesContextClients env = [] then fail (Err ''no kubernetes configs found'')
      else case deployedDockerImages (KubernetesContextClients env) of
             Inl e \<Rightarrow> fail e
           | Inr deployed \<Rightarrow> in_order
               [change_manager (skipStageIDsThatAreUsedInKubernetes (repo_Address w) deployed),
                change_manager (skipFinalStageIDsThatAreUsedInKubernetes
                  (case final_repo w of None \<Rightarrow> [] | Some (address, _) \<Rightarrow> address) deployed)])"

subsection \<open>Git history\<close>

definition countStageIDCommitList :: "commit_map \<Rightarrow> nat" where
  "countStageIDCommitList t = sum_list (map (\<lambda>(_, commits). length commits) t)"

definition handleSavedStageIDs :: "string list \<Rightarrow> cleanupManager step" where
  "handleSavedStageIDs savedStageIDs =
     for_each (\<lambda>stageID. update_manager (MarkStageDescAsProtectedByStageID stageID ProtectionReasonGitPolicy True))
       savedStageIDs"

definition commits_to_delete ::
  "(string list \<Rightarrow> string list \<Rightarrow> string list) \<Rightarrow> commit_map \<Rightarrow> string list \<Rightarrow> commit_map \<Rightarrow> commit_map" where
  "commits_to_delete exclude hits stageIDsToUnlink toCleanup =
     map (\<lambda>(stageID, commits).
            (stageID, if stageID \<in> set stageIDsToUnlink then commits
                      else case map_of hits stageID of None \<Rightarrow> commits | Some hit \<Rightarrow> exclude commits hit)) toCleanup"

definition delete_counted :: "storage \<Rightarrow> bool \<Rightarrow> string \<Rightarrow> commit_map \<Rightarrow> cleanupManager step" where
  "delete_counted w dryRun imageName t =
     do_when (countStageIDCommitList t \<noteq> 0) (deleteImageMetadata w dryRun imageName t)"

definition cleanupImageMetadata ::
  "storage \<Rightarrow> (string list \<Rightarrow> string list \<Rightarrow> string list) \<Rightarrow> bool \<Rightarrow> string \<Rightarrow> commit_map \<Rightarrow> string list \<Rightarrow>
   cleanupManager step" where
  "cleanupImageMetadata w exclude dryRun imageName hits stageIDsToUnlink = with_manager (\<lambda>m. in_order
     [do_when (countStageIDCommitList hits \<noteq> 0 \<or> stageIDsToUnlink \<noteq> [])
        (delete_counted w dryRun imageName
           (commits_to_delete exclude hits stageIDsToUnlink (GetStageIDCommitListToCleanup m imageName))),
      delete_counted w dryRun imageName (GetNonexistentStageIDCommitList m imageName),
      delete_counted w dryRun imageName (GetStageIDNonexistentCommitList m imageName)])"

definition scan_image ::
  "surroundings \<Rightarrow> commit_source \<Rightarrow> refs \<Rightarrow> commit_map \<Rightarrow> (go_error + string list \<times> commit_map) option" where
  "scan_image env git refs stageIDCommitList =
     (if countStageIDCommitList stageIDCommitList \<noteq> 0
      then ScanReferencesHistory (AddNewStrings env) git (time_Now env) (sort_commits env) refs stageIDCommitList
      else Some (Inr ([], [])))"

definition image_cleanup ::
  "storage \<Rightarrow> surroundings \<Rightarrow> CleanupOptions \<Rightarrow> commit_source \<Rightarrow> refs \<Rightarrow> string \<times> commit_map \<Rightarrow> cleanupManager step" where
  "image_cleanup w env opts git refs = (\<lambda>(imageName, stageIDCommitList) s.
     case scan_image env git refs stageIDCommitList of
       None \<Rightarrow> None
     | Some (Inl e) \<Rightarrow> fail e s
     | Some (Inr (reachedStageIDs, hits)) \<Rightarrow> in_order
         [handleSavedStageIDs reachedStageIDs,
          cleanupImageMetadata w (ExcludeStrings env) (DryRun opts) imageName hits
            (filter (\<lambda>stageID. stageID \<notin> set reachedStageIDs) (map fst stageIDCommitList))] s)"

definition cleanupNonexistentImageMetadata :: "storage \<Rightarrow> bool \<Rightarrow> cleanupManager step" where
  "cleanupNonexistentImageMetadata w dryRun = with_manager (\<lambda>m.
     let t = GetStageIDCommitListByNonexistentImage m
     in do_when (sum_list (map (\<lambda>(_, inner). countStageIDCommitList inner) t) \<noteq> 0)
          (for_each (\<lambda>(imageName, inner). deleteImageMetadata w dryRun imageName inner) t))"

definition gitHistoryBasedCleanup :: "storage \<Rightarrow> surroundings \<Rightarrow> CleanupOptions \<Rightarrow> cleanupManager step" where
  "gitHistoryBasedCleanup w env opts =
     (case LocalGit env of
        Inl e \<Rightarrow> fail e
      | Inr repo \<Rightarrow>
          (case ReferencesToScan (sort_refs env) (time_Now env) (Compile_regexp env) repo (KeepPolicies (ConfigMetaCleanup opts)) of
             Inl e \<Rightarrow> fail e
           | Inr refs \<Rightarrow> in_order
               [with_manager (\<lambda>m. for_each (image_cleanup w env opts (CommitObject repo) refs)
                  (GetImageStageIDCommitListToCleanup m)),
                cleanupNonexistentImageMetadata w (DryRun opts)]))"

subsection \<open>Age and keep list\<close>

text \<open>\<open>time.Since\<close> saturates at the bounds of a \<open>Duration\<close>; \<open>Hours\<close> divides in float64.\<close>

definition time_Since :: "int \<Rightarrow> int \<Rightarrow> int" where
  "time_Since now t = max (- (2 ^ 63)) (min (2 ^ 63 - 1) (now - t))"

definition hour :: int where "hour = 3600000000000"

definition Hours :: "(rat \<Rightarrow> rat) \<Rightarrow> int \<Rightarrow> rat" where
  "Hours rnd d = rnd (rnd (of_int (go_div d hour)) + rnd (rnd (of_int (go_mod d hour)) / of_int hour))"

definition keep_hours :: "CleanupOptions \<Rightarrow> nat" where
  "keep_hours opts =
     (case KeepStagesBuiltWithinLastNHours opts of
        None \<Rightarrow> KeepImagesBuiltWithinLastNHours (ConfigMetaCleanup opts)
      | Some n \<Rightarrow> n)"

definition built_recently :: "surroundings \<Rightarrow> nat \<Rightarrow> StageDesc \<Rightarrow> bool" where
  "built_recently env n d =
     list_ex (\<lambda>info. Hours (float64 env) (time_Since (time_Now env) (GetCreatedAt info)) \<le> float64 env (of_nat n))
       (if iIsIndex (desc_info d) then iIndex (desc_info d) else [desc_info d])"

definition mark_where :: "(StageDesc \<Rightarrow> bool) \<Rightarrow> protectionReason \<Rightarrow> Manager \<Rightarrow> Manager" where
  "mark_where P reason m =
     foldl (\<lambda>m d. if P d then MarkStageDescAsProtected d reason False m else m) m (GetStageDescSet m)"

definition built_within_policy :: "surroundings \<Rightarrow> CleanupOptions \<Rightarrow> cleanupManager step" where
  "built_within_policy env opts =
     do_when (\<not> (DisableBuiltWithinLastNHoursPolicy (ConfigMetaCleanup opts) \<or> keep_hours opts = 0))
       (change_manager (mark_where (built_recently env (keep_hours opts)) ProtectionReasonBuiltWithinLastNHoursPolicy))"

definition markWhitelistStagesAsProtected :: "CleanupOptions \<Rightarrow> cleanupManager step" where
  "markWhitelistStagesAsProtected opts =
     do_when (keepList opts \<noteq> [])
       (change_manager (mark_where (\<lambda>d. iTag (desc_info d) \<in> set (keepList opts)) ProtectionReasonKeepList))"

subsection \<open>Unused stages\<close>

definition load_import :: "storage \<Rightarrow> bool \<Rightarrow> string \<Rightarrow> cleanupManager step" where
  "load_import w dryRun metadataID =
     (case import_metadata w metadataID of
        Inl e \<Rightarrow> fail e
      | Inr None \<Rightarrow> deleteImportsMetadata w dryRun [metadataID]
      | Inr (Some md) \<Rightarrow> modify (\<lambda>s. s\<lparr>
          checksumSourceStageIDs := slice_append (Checksum md) [SourceStageID md] (checksumSourceStageIDs s),
          sourceStageIDImportIDs := slice_append (SourceStageID md) [ImportSourceID md] (sourceStageIDImportIDs s)\<rparr>))"

definition initImportsMetadata :: "storage \<Rightarrow> bool \<Rightarrow> cleanupManager step" where
  "initImportsMetadata w dryRun = in_order
     [modify (\<lambda>s. s\<lparr>checksumSourceStageIDs := [], sourceStageIDImportIDs := []\<rparr>),
      (case import_metadata_ids w of
         Inl e \<Rightarrow> fail e
       | Inr ids \<Rightarrow> for_each (load_import w dryRun) ids)]"

definition deleteUnusedCustomTags :: "storage \<Rightarrow> bool \<Rightarrow> cleanupManager step" where
  "deleteUnusedCustomTags w dryRun = with_manager (\<lambda>m.
     let tags = concat (map snd (filter (\<lambda>(stageID, _). \<not> ContainsStageDescByStageID m stageID) (GetCustomTagsMetadata m)))
     in do_when (tags \<noteq> []) (deleteCustomTags w dryRun tags))"

definition unused_imports :: "cleanupManager \<Rightarrow> string list" where
  "unused_imports s =
     concat (map snd (filter (\<lambda>(sourceStageID, _).
        sourceStageID \<notin> desc_stageID ` set (GetProtectedStageDescSet (stageManager s))) (sourceStageIDImportIDs s)))"

definition deleteUnusedImportsMetadata :: "storage \<Rightarrow> bool \<Rightarrow> cleanupManager step" where
  "deleteUnusedImportsMetadata w dryRun s =
     do_when (unused_imports s \<noteq> []) (deleteImportsMetadata w dryRun (unused_imports s)) s"

definition protect_relatives :: "surroundings \<Rightarrow> cleanupManager step" where
  "protect_relatives env s = update_manager (protect_groups (group_order env) (checksumSourceStageIDs s)) s"

definition stages_to_delete :: "Manager \<Rightarrow> StageDesc list" where
  "stages_to_delete m = set_Difference (GetStageDescSet m) (GetProtectedStageDescSet m)"

definition deleteStages :: "storage \<Rightarrow> bool \<Rightarrow> StageDesc list \<Rightarrow> bool \<Rightarrow> cleanupManager step" where
  "deleteStages w dryRun ds isFinal = deleteStageDescSet w dryRun True ds isFinal"

definition cleanupUnusedStages :: "storage \<Rightarrow> surroundings \<Rightarrow> bool \<Rightarrow> cleanupManager step" where
  "cleanupUnusedStages w env dryRun = in_order
     [initImportsMetadata w dryRun,
      protect_relatives env,
      with_manager (\<lambda>m. do_when (stages_to_delete m \<noteq> []) (in_order
        [deleteStages w dryRun (stages_to_delete m) False,
         change_manager (ForgetDeletedStageDescSet (stages_to_delete m))])),
      deleteUnusedCustomTags w dryRun,
      deleteUnusedImportsMetadata w dryRun]"

definition protect_not_found :: "Manager \<Rightarrow> Manager" where
  "protect_not_found m =
     foldl (\<lambda>m' d. if \<not> (\<exists>d' \<in> set (GetStageDescSet m). StageID_IsEqual (desc_id d') (desc_id d))
                   then MarkFinalStageDescAsProtected d ProtectionReasonNotFoundInRepo False m' else m')
       m (GetFinalStageDescSet m)"

definition final_stages_to_delete :: "Manager \<Rightarrow> StageDesc list" where
  "final_stages_to_delete m = set_Difference (GetFinalStageDescSet m) (GetFinalProtectedStageDescSet m)"

definition cleanupFinalStages :: "storage \<Rightarrow> bool \<Rightarrow> cleanupManager step" where
  "cleanupFinalStages w dryRun = in_order
     [change_manager protect_not_found,
      with_manager (\<lambda>m. do_when (final_stages_to_delete m \<noteq> []) (in_order
        [deleteStages w dryRun (final_stages_to_delete m) True,
         change_manager (ForgetDeletedFinalStageDescSet (final_stages_to_delete m))]))]"

subsection \<open>The commands\<close>

text \<open>The answer of \<open>PostLastCleanupRecord\<close> is only logged.\<close>

definition cleanup_run :: "storage \<Rightarrow> surroundings \<Rightarrow> CleanupOptions \<Rightarrow> cleanupManager step" where
  "cleanup_run w env opts =
     (if DisableCleanup (ConfigMetaCleanup opts)
      then in_order [purgeManagedImages w (DryRun opts), purgeImageMetadata w (DryRun opts)]
      else in_order
        [cleanup_init w env opts,
         do_when (\<not> (WithoutKube opts \<or> DisableKubernetesBasedPolicy (ConfigMetaCleanup opts))) (kubernetes_policy w env),
         (if \<not> DisableGitHistoryBasedPolicy (ConfigMetaCleanup opts) then gitHistoryBasedCleanup w env opts
          else purgeImageMetadata w (DryRun opts)),
         built_within_policy env opts,
         markWhitelistStagesAsProtected opts,
         cleanupUnusedStages w env (DryRun opts),
         do_when (final_repo w \<noteq> None) (cleanupFinalStages w (DryRun opts)),
         modify (issue Post_last_cleanup_record)])"

definition Cleanup :: "storage \<Rightarrow> surroundings \<Rightarrow> CleanupOptions \<Rightarrow> (go_error option \<times> cleanupManager) option" where
  "Cleanup w env opts = cleanup_run w env opts newCleanupManager"

text \<open>The purge deletes without looking at any policy.\<close>

definition purge_run :: "storage \<Rightarrow> bool \<Rightarrow> cleanupManager step" where
  "purge_run w dryRun = in_order
     [(case stage_descs w of Inl e \<Rightarrow> fail e | Inr ds \<Rightarrow> deleteStageDescSet w dryRun False ds False),
      (case import_metadata_ids w of Inl e \<Rightarrow> fail e | Inr ids \<Rightarrow> deleteImportsMetadata w dryRun ids),
      purgeManagedImages w dryRun,
      purgeImageMetadata w dryRun,
      (case GetCustomTagsMetadata_answer (custom_tag_ids w) (custom_tag_metadata w) of
         Inl e \<Rightarrow> fail e
       | Inr t \<Rightarrow> deleteCustomTags w dryRun (concat (map snd t))),
      (case final_repo w of
         None \<Rightarrow> skip
       | Some (_, Inl e) \<Rightarrow> fail e
       | Some (_, Inr ds) \<Rightarrow> deleteStageDescSet w dryRun False ds True)]"

definition Purge :: "storage \<Rightarrow> bool \<Rightarrow> (go_error option \<times> cleanupManager) option" where
  "Purge w dryRun = purge_run w dryRun newCleanupManager"

end
