(* ===== verification/Cleanup_Safety.thy ===== *)
theory Cleanup_Safety
  imports Cleanup
begin

text \<open>
  What the cleanup never deletes. The phases before the deletion only add protection and never
  touch the set of stages (\<open>grows\<close>); what a policy wants to keep is protected by the time the
  deletion computes the difference; so it is not in the trace of the calls.
\<close>

subsection \<open>Growing managers\<close>

definition grows :: "Manager \<Rightarrow> Manager \<Rightarrow> bool" where
  "grows m m' \<longleftrightarrow> GetStageDescSet m' = GetStageDescSet m \<and> GetStageDescByStageID m' = GetStageDescByStageID m \<and>
     m_imageMetadataList m' = m_imageMetadataList m \<and>
     set (GetCustomTagsMetadata m') \<subseteq> set (GetCustomTagsMetadata m) \<and>
     (manager_inv m \<longrightarrow> manager_inv m' \<and> set (GetProtectedStageDescSet m) \<subseteq> set (GetProtectedStageDescSet m'))"

lemma grows_refl [simp, intro]: "grows m m"
  by (simp add: grows_def)

lemma grows_trans: "grows m1 m2 \<Longrightarrow> grows m2 m3 \<Longrightarrow> grows m1 m3"
  unfolding grows_def by (metis subset_trans)

lemma grows_mark [intro]: "grows m (MarkStageDescAsProtected d r f m)"
  using repo.inv_mark repo.protected_mark
  by (auto simp: grows_def GetCustomTagsMetadata_def) (simp add: MarkStageDescAsProtected_def)+

lemma grows_mark_final [intro]: "grows m (MarkFinalStageDescAsProtected d r f m)"
  using final.inv_mark
  by (auto simp: grows_def GetCustomTagsMetadata_def MarkFinalStageDescAsProtected_def GetStageDescSet_def
      GetStageDescByStageID_def GetProtectedStageDescSet_def fun_eq_iff)

lemma set_AList_delete: "set (AList.delete k xs) \<subseteq> set xs"
  by (auto simp: AList.delete_eq)

lemma grows_forget_tags [intro]: "grows m (ForgetCustomTagsByStageID i m)"
  using set_AList_delete [of i "m_stageIDCustomTagList m"]
  by (auto simp: grows_def ForgetCustomTagsByStageID_def GetStageDescSet_def GetCustomTagsMetadata_def manager_inv_def
      GetStageDescByStageID_def GetProtectedStageDescSet_def fun_eq_iff)

lemma grows_mark_relatives [intro]: "grows m (mark_relatives rs m)"
proof -
  have "m_imageMetadataList (mark_relatives rs m) = m_imageMetadataList m \<and>
      m_stageIDCustomTagList (mark_relatives rs m) = m_stageIDCustomTagList m"
    unfolding mark_relatives_def by (induction rs arbitrary: m) (auto simp: MarkStageDescAsProtected_def)
  then show ?thesis using protected_mark_relatives [of m rs]
    by (auto simp: grows_def GetCustomTagsMetadata_def)
qed

lemma grows_foldl: "(\<And>m x. grows m (f m x)) \<Longrightarrow> grows m (foldl f m xs)"
  by (induction xs arbitrary: m) (auto intro: grows_trans)

lemma grows_mark_where: "grows m (mark_where P r m)"
  unfolding mark_where_def by (rule grows_foldl) auto

lemma grows_handled_fold:
  assumes "\<And>h m x. grows m (snd (f (h, m) x))"
  shows "grows m (snd (foldl f (h, m) xs))"
proof (induction xs arbitrary: h m)
  case (Cons x xs)
  obtain h' m' where "f (h, m) x = (h', m')" by (metis surj_pair)
  then show ?case using Cons.IH [of m' h'] assms [of m h x] by (auto intro: grows_trans)
qed simp

lemma grows_stage: "grows m (snd (keep_deployed_stage deployed address (h, m) d))"
  by (auto simp: keep_deployed_stage_def handleTagFunc_def)

lemma grows_tag: "grows m (snd (keep_deployed_tag deployed address (h, m) x))"
  by (auto simp: keep_deployed_tag_def handleTagFunc_def split: prod.splits option.splits)

lemma grows_kubernetes: "grows m (skipStageIDsThatAreUsedInKubernetes address deployed m)"
proof -
  obtain h1 m1 where m1: "foldl (keep_deployed_stage deployed address) ([], m) (GetStageDescSet m) = (h1, m1)"
    by (metis surj_pair)
  have "grows m (snd (foldl (keep_deployed_stage deployed address) ([], m) (GetStageDescSet m)))"
    by (rule grows_handled_fold [OF grows_stage])
  then have "grows m m1" by (simp add: m1)
  then show ?thesis
    unfolding skipStageIDsThatAreUsedInKubernetes_def m1 by (rule grows_trans) (rule grows_handled_fold [OF grows_tag])
qed

lemma grows_kubernetes_final: "grows m (skipFinalStageIDsThatAreUsedInKubernetes address deployed m)"
  unfolding skipFinalStageIDsThatAreUsedInKubernetes_def by (rule grows_handled_fold) (auto simp: handleTagFunc_def)

lemma grows_not_found: "grows m (protect_not_found m)"
  unfolding protect_not_found_def by (rule grows_foldl) auto

subsection \<open>Phases\<close>

text \<open>A phase lets the manager grow and only makes calls of a set.\<close>

definition phase :: "storage_call set \<Rightarrow> cleanupManager \<Rightarrow> cleanupManager \<Rightarrow> bool" where
  "phase C s s' \<longleftrightarrow> grows (stageManager s) (stageManager s') \<and> (\<exists>cs. trace s' = trace s @ cs \<and> set cs \<subseteq> C)"

lemma phase_refl [simp, intro]: "reflp (phase C)"
  by (auto simp: reflp_def phase_def)

lemma phase_trans [simp, intro]: "transp (phase C)"
  unfolding transp_def phase_def using grows_trans by (fastforce simp: append_eq_append_conv2)

lemma adds_phase: "keeps (adds_only C) f \<Longrightarrow> C \<subseteq> D \<Longrightarrow> keeps (phase D) f"
  unfolding keeps_def adds_only_def phase_def by (metis grows_refl subset_trans)

lemma phase_update: "(\<And>m m'. f m = Inr m' \<Longrightarrow> grows m m') \<Longrightarrow> keeps (phase C) (update_manager f)"
  by (auto simp: keeps_def update_manager_def phase_def split: sum.splits)

lemma phase_change: "(\<And>m. grows m (f m)) \<Longrightarrow> keeps (phase C) (change_manager f)"
  unfolding change_manager_def by (rule phase_update) auto

lemma keeps_with: "(\<And>m. keeps R (f m)) \<Longrightarrow> keeps R (with_manager f)"
  by (auto simp: keeps_def with_manager_def)

lemma keeps_do_when: "reflp R \<Longrightarrow> keeps R f \<Longrightarrow> keeps R (do_when b f)"
  by (auto simp: do_when_def)

lemma keeps_in_order_list:
  "reflp R \<Longrightarrow> transp R \<Longrightarrow> list_all (keeps R) fs \<Longrightarrow> keeps R (in_order fs)"
  by (rule keeps_in_order) (auto simp: list_all_iff)

text \<open>The calls that remove metadata only.\<close>

definition metadata_calls :: "storage_call set" where
  "metadata_calls = {Rm_image_metadata n c i | n c i. True} \<union> range Rm_managed_image \<union> range Rm_import_metadata"

lemma phase_delete_counted: "keeps (phase metadata_calls) (delete_counted w b n t)"
  unfolding delete_counted_def
  by (intro keeps_do_when phase_refl adds_phase [OF deleteImageMetadata_adds]) (auto simp: metadata_calls_def split: if_splits)

lemma phase_cleanupImageMetadata: "keeps (phase metadata_calls) (cleanupImageMetadata w exclude b n hits ids)"
  unfolding cleanupImageMetadata_def
  by (intro keeps_with keeps_in_order_list) (auto intro: keeps_do_when phase_delete_counted)

lemma phase_saved: "keeps (phase C) (handleSavedStageIDs ids)"
  unfolding handleSavedStageIDs_def
  by (intro keeps_for_each phase_refl phase_trans phase_update)
    (auto simp: MarkStageDescAsProtectedByStageID_def split: option.splits)

lemma phase_image_cleanup: "keeps (phase metadata_calls) (image_cleanup w env opts git refs x)"
proof -
  have "keeps (phase metadata_calls) (in_order [handleSavedStageIDs ids, cleanupImageMetadata w exclude b n hits ids'])"
    for ids exclude b n hits ids'
    by (intro keeps_in_order_list) (auto intro: phase_saved phase_cleanupImageMetadata)
  moreover have "keeps (phase metadata_calls) (fail e)" for e by auto
  ultimately show ?thesis
    unfolding image_cleanup_def keeps_def by (auto split: option.splits sum.splits prod.splits)
qed

lemma phase_nonexistent: "keeps (phase metadata_calls) (cleanupNonexistentImageMetadata w b)"
  unfolding cleanupNonexistentImageMetadata_def Let_def
  by (intro keeps_with keeps_do_when phase_refl keeps_for_each phase_trans)
      (auto intro!: adds_phase [OF deleteImageMetadata_adds] simp: metadata_calls_def split: if_splits)

lemma phase_git: "keeps (phase metadata_calls) (gitHistoryBasedCleanup w env opts)"
proof -
  have "keeps (phase metadata_calls) (with_manager (\<lambda>m. for_each (image_cleanup w env opts git refs) (f m)))"
    for git refs f by (intro keeps_with keeps_for_each phase_refl phase_trans phase_image_cleanup)
  then show ?thesis
    unfolding gitHistoryBasedCleanup_def
    by (auto intro!: keeps_in_order_list phase_nonexistent simp del: in_order.simps split: sum.splits)
qed

lemma phase_kubernetes: "keeps (phase C) (kubernetes_policy w env)"
  unfolding kubernetes_policy_def
  by (auto intro!: keeps_in_order_list phase_change grows_kubernetes grows_kubernetes_final
      simp del: in_order.simps split: sum.splits)

lemma phase_purge: "keeps (phase metadata_calls) (purgeImageMetadata w b)"
  by (rule adds_phase [OF purgeImageMetadata_adds]) (auto simp: metadata_calls_def split: if_splits)

lemma phase_built_within: "keeps (phase C) (built_within_policy env opts)"
  unfolding built_within_policy_def by (intro keeps_do_when phase_change grows_mark_where phase_refl)

lemma phase_whitelist: "keeps (phase C) (markWhitelistStagesAsProtected opts)"
  unfolding markWhitelistStagesAsProtected_def by (intro keeps_do_when phase_change grows_mark_where phase_refl)

lemma phase_imports: "keeps (phase metadata_calls) (initImportsMetadata w b)"
proof -
  have m: "keeps (phase C) (modify f)" if "\<And>s. stageManager (f s) = stageManager s \<and> trace (f s) = trace s" for f C
    by (rule keeps_modify) (use that in \<open>auto simp: phase_def\<close>)
  have "keeps (phase metadata_calls) (load_import w b i)" for i
    unfolding load_import_def
    by (auto intro!: m adds_phase [OF deleteImportsMetadata_adds] simp: metadata_calls_def split: sum.splits option.splits if_splits)
  then have "keeps (phase metadata_calls) (for_each (load_import w b) ids)" for ids
    by (intro keeps_for_each phase_refl phase_trans)
  then show ?thesis
    unfolding initImportsMetadata_def by (intro keeps_in_order_list) (auto intro!: m split: sum.splits)
qed

subsection \<open>What the policies keep\<close>

definition used_in_kubernetes :: "string \<Rightarrow> DeployedDockerImage list \<Rightarrow> Manager \<Rightarrow> StageDesc \<Rightarrow> bool" where
  "used_in_kubernetes address deployed m d \<longleftrightarrow> is_deployed deployed address (desc_stageID d) \<or>
     (\<exists>tags. (desc_stageID d, tags) \<in> set (GetCustomTagsMetadata m) \<and> (\<exists>t \<in> set tags. is_deployed deployed address t))"

text \<open>A lookup by stage ID finds the only stage of that ID.\<close>

abbreviation ids_ok :: "Manager \<Rightarrow> bool" where
  "ids_ok m \<equiv> inj_on desc_stageID (set (GetStageDescSet m))"

lemma lookup_Some:
  assumes "manager_inv m" and "GetStageDescByStageID m i = Some d"
  shows "d \<in> set (GetStageDescSet m) \<and> desc_stageID d = i"
  using assms by (fastforce simp: manager_inv_def set_inv_def GetStageDescByStageID_def set_GetStageDescByStageID_def
      GetStageDescSet_def dest: map_of_SomeD)

lemma lookup_stage:
  assumes "manager_inv m" "ids_ok m" "d \<in> set (GetStageDescSet m)"
  shows "GetStageDescByStageID m (desc_stageID d) = Some d"
proof -
  have "desc_stageID d \<in> map_keys (stageDescByStageID (m_managedStageDescSet m))"
    using assms(1,3) by (simp add: manager_inv_def set_inv_def GetStageDescSet_def)
  then obtain d' where "GetStageDescByStageID m (desc_stageID d) = Some d'"
    unfolding GetStageDescByStageID_def set_GetStageDescByStageID_def
    by (metis map_of_eq_None_keys not_Some_eq)
  moreover have "d' = d" using lookup_Some [OF assms(1) calculation] assms(2,3) by (auto dest: inj_onD)
  ultimately show ?thesis by simp
qed

text \<open>The loops over the deployed images: the stage IDs in the handled set are those of kept stages,
  or of no stage and then without custom tags.\<close>

definition handled_ok :: "Manager \<Rightarrow> string list \<Rightarrow> Manager \<Rightarrow> bool" where
  "handled_ok m0 h m \<longleftrightarrow> grows m0 m \<and>
     (\<forall>i \<in> set h. (\<exists>d \<in> set (GetStageDescSet m0). desc_stageID d = i \<and> d \<in> set (GetProtectedStageDescSet m)) \<or>
        GetStageDescByStageID m0 i = None \<and> i \<notin> map_keys (GetCustomTagsMetadata m))"

lemma handled_grows:
  assumes "handled_ok m0 h m" "manager_inv m0" "grows m m'"
  shows "handled_ok m0 h m'"
proof -
  have inv: "manager_inv m" using assms(1,2) by (simp add: handled_ok_def grows_def)
  have "map_keys (GetCustomTagsMetadata m') \<subseteq> map_keys (GetCustomTagsMetadata m)"
    "set (GetProtectedStageDescSet m) \<subseteq> set (GetProtectedStageDescSet m')"
    using assms(3) inv by (auto simp: grows_def)
  moreover have "grows m0 m'" using assms grows_trans by (auto simp: handled_ok_def)
  ultimately show ?thesis using assms(1) unfolding handled_ok_def by (meson subsetD)
qed

lemma handled_stage:
  assumes "handled_ok m0 h m" "manager_inv m0" "d \<in> set (GetStageDescSet m0)"
    and "keep_deployed_stage deployed address (h, m) d = (h', m')"
  shows "handled_ok m0 h' m' \<and> set h \<subseteq> set h' \<and> (is_deployed deployed address (desc_stageID d) \<longrightarrow> desc_stageID d \<in> set h')"
proof (cases "is_deployed deployed address (desc_stageID d) \<and> desc_stageID d \<notin> set h")
  case True
  have m': "h' = desc_stageID d # h" "m' = MarkStageDescAsProtected d ProtectionReasonKubernetesBasedPolicy False m"
    using True assms(4) by (auto simp: keep_deployed_stage_def handleTagFunc_def)
  have "manager_inv m" using assms(1,2) by (simp add: handled_ok_def grows_def)
  then have "d \<in> set (GetProtectedStageDescSet m')" by (simp add: m' repo.protected_mark)
  moreover have "handled_ok m0 h m'" by (rule handled_grows [OF assms(1,2)]) (auto simp: m')
  ultimately show ?thesis using assms(3) by (auto simp: handled_ok_def m'(1))
qed (use assms in \<open>auto simp: keep_deployed_stage_def handleTagFunc_def\<close>)

lemma handled_tag:
  assumes "handled_ok m0 h m" "manager_inv m0"
    and "keep_deployed_tag deployed address (h, m) (i, t) = (h', m')"
  shows "handled_ok m0 h' m' \<and> set h \<subseteq> set h' \<and> (is_deployed deployed address t \<longrightarrow> i \<in> set h')"
proof (cases "is_deployed deployed address t \<and> i \<notin> set h")
  case True
  have h': "h' = i # h" using True assms(3) by (auto simp: keep_deployed_tag_def handleTagFunc_def)
  have g: "grows m m'" using grows_tag [of m deployed address h "(i, t)"] assms(3) by simp
  have inv: "manager_inv m" and same: "GetStageDescByStageID m = GetStageDescByStageID m0"
    using assms(1,2) by (auto simp: handled_ok_def grows_def)
  have "(\<exists>d \<in> set (GetStageDescSet m0). desc_stageID d = i \<and> d \<in> set (GetProtectedStageDescSet m')) \<or>
        GetStageDescByStageID m0 i = None \<and> i \<notin> map_keys (GetCustomTagsMetadata m')"
  proof (cases "GetStageDescByStageID m0 i")
    case None
    then have "m' = ForgetCustomTagsByStageID i m"
      using True assms(3) same by (auto simp: keep_deployed_tag_def handleTagFunc_def)
    then show ?thesis using None
      by (auto simp: ForgetCustomTagsByStageID_def GetCustomTagsMetadata_def AList.delete_eq)
  next
    case (Some d)
    then have "m' = MarkStageDescAsProtected d ProtectionReasonKubernetesBasedPolicy False m"
      using True assms(3) same by (auto simp: keep_deployed_tag_def handleTagFunc_def)
    then show ?thesis using lookup_Some [OF assms(2) Some] inv by (auto simp: repo.protected_mark)
  qed
  then show ?thesis using handled_grows [OF assms(1,2) g] unfolding h' handled_ok_def by auto
qed (use assms in \<open>auto simp: keep_deployed_tag_def handleTagFunc_def\<close>)

lemma handled_stages:
  assumes "handled_ok m0 h m" "manager_inv m0" "set ds \<subseteq> set (GetStageDescSet m0)"
    and "foldl (keep_deployed_stage deployed address) (h, m) ds = (h', m')"
  shows "handled_ok m0 h' m' \<and> set h \<subseteq> set h' \<and>
    (\<forall>d \<in> set ds. is_deployed deployed address (desc_stageID d) \<longrightarrow> desc_stageID d \<in> set h')"
  using assms
proof (induction ds arbitrary: h m)
  case (Cons d ds)
  obtain h1 m1 where one: "keep_deployed_stage deployed address (h, m) d = (h1, m1)" by (metis surj_pair)
  have "d \<in> set (GetStageDescSet m0)" using Cons.prems(3) by simp
  note s = handled_stage [OF Cons.prems(1,2) this one]
  then show ?case using Cons.IH [of h1 m1] Cons.prems one by auto
qed simp

lemma handled_tags:
  assumes "handled_ok m0 h m" "manager_inv m0"
    and "foldl (keep_deployed_tag deployed address) (h, m) its = (h', m')"
  shows "handled_ok m0 h' m' \<and> set h \<subseteq> set h' \<and> (\<forall>i t. (i, t) \<in> set its \<longrightarrow> is_deployed deployed address t \<longrightarrow> i \<in> set h')"
  using assms
proof (induction its arbitrary: h m)
  case (Cons x its)
  obtain i t where x: "x = (i, t)" by (cases x)
  obtain h1 m1 where one: "keep_deployed_tag deployed address (h, m) (i, t) = (h1, m1)" by (metis surj_pair)
  note s = handled_tag [OF Cons.prems(1,2) one]
  then show ?case using Cons.IH [of h1 m1] Cons.prems one by (auto simp: x)
qed simp

text \<open>The phase: the used stages are protected; a custom tag that is used belongs to a protected
  stage, or is forgotten.\<close>

definition tags_safe :: "(string \<Rightarrow> bool) \<Rightarrow> Manager \<Rightarrow> bool" where
  "tags_safe used m \<longleftrightarrow> (\<forall>(i, tags) \<in> set (GetCustomTagsMetadata m). (\<exists>t \<in> set tags. used t) \<longrightarrow>
     (\<exists>d \<in> set (GetStageDescSet m). desc_stageID d = i \<and> d \<in> set (GetProtectedStageDescSet m)))"

lemma kubernetes_keeps:
  fixes address :: string and deployed :: "DeployedDockerImage list"
  assumes "manager_inv m" "ids_ok m"
  defines "m' \<equiv> skipStageIDsThatAreUsedInKubernetes address deployed m"
  shows "{d \<in> set (GetStageDescSet m). used_in_kubernetes address deployed m d} \<subseteq> set (GetProtectedStageDescSet m')"
    and "tags_safe (is_deployed deployed address) m'"
proof -
  obtain h1 m1 where one: "foldl (keep_deployed_stage deployed address) ([], m) (GetStageDescSet m) = (h1, m1)"
    by (metis surj_pair)
  let ?its = "concat (map (\<lambda>(stageID, tags). map (\<lambda>tag. (stageID, tag)) tags) (GetCustomTagsMetadata m))"
  obtain h2 where two: "foldl (keep_deployed_tag deployed address) (h1, m1) ?its = (h2, m')"
    unfolding m'_def skipStageIDsThatAreUsedInKubernetes_def one by (metis prod.collapse)
  have "handled_ok m [] m" by (simp add: handled_ok_def)
  note s = handled_stages [OF this assms(1) order.refl one]
  have ok: "handled_ok m h2 m'" and sub: "set h1 \<subseteq> set h2"
    and tags: "\<And>i t. (i, t) \<in> set ?its \<Longrightarrow> is_deployed deployed address t \<Longrightarrow> i \<in> set h2"
    using handled_tags [OF _ assms(1) two] s by blast+
  have unique: "d \<in> set (GetProtectedStageDescSet m')"
    if "d \<in> set (GetStageDescSet m)" "desc_stageID d \<in> set h2" for d
    using that ok lookup_stage [OF assms(1,2)] assms(2) unfolding handled_ok_def by (metis inj_onD option.distinct(1))
  show "{d \<in> set (GetStageDescSet m). used_in_kubernetes address deployed m d} \<subseteq> set (GetProtectedStageDescSet m')"
  proof clarify
    fix d assume d: "d \<in> set (GetStageDescSet m)" "used_in_kubernetes address deployed m d"
    have "desc_stageID d \<in> set h2"
    proof (cases "is_deployed deployed address (desc_stageID d)")
      case True
      then show ?thesis using s sub d(1) by auto
    next
      case False
      then obtain tags t where "(desc_stageID d, tags) \<in> set (GetCustomTagsMetadata m)" "t \<in> set tags"
        "is_deployed deployed address t" using d(2) by (auto simp: used_in_kubernetes_def)
      then show ?thesis by (intro tags) auto
    qed
    then show "d \<in> set (GetProtectedStageDescSet m')" by (rule unique [OF d(1)])
  qed
  have g: "grows m m'" using ok by (simp add: handled_ok_def)
  show "tags_safe (is_deployed deployed address) m'"
    unfolding tags_safe_def
  proof clarify
    fix i tags t assume t: "(i, tags) \<in> set (GetCustomTagsMetadata m')" "t \<in> set tags" "is_deployed deployed address t"
    then have "(i, tags) \<in> set (GetCustomTagsMetadata m)" using g by (auto simp: grows_def)
    then have "i \<in> set h2" using t by (intro tags) auto
    then show "\<exists>d \<in> set (GetStageDescSet m'). desc_stageID d = i \<and> d \<in> set (GetProtectedStageDescSet m')"
      using ok rev_image_eqI [OF t(1), of i fst] g unfolding handled_ok_def grows_def by auto
  qed
qed

lemma tags_safeD: "tags_safe used m \<Longrightarrow> (i, tags) \<in> set (GetCustomTagsMetadata m) \<Longrightarrow> t \<in> set tags \<Longrightarrow> used t \<Longrightarrow>
    \<exists>d \<in> set (GetStageDescSet m). desc_stageID d = i \<and> d \<in> set (GetProtectedStageDescSet m)"
  unfolding tags_safe_def by fast

lemma tags_safe_grows:
  assumes "tags_safe used m" "manager_inv m" "grows m m'"
  shows "tags_safe used m'"
  unfolding tags_safe_def
proof clarify
  fix i tags t assume t: "(i, tags) \<in> set (GetCustomTagsMetadata m')" "t \<in> set tags" "used t"
  then have "(i, tags) \<in> set (GetCustomTagsMetadata m)" using assms(3) by (auto simp: grows_def)
  from tags_safeD [OF assms(1) this t(2,3)]
  show "\<exists>d \<in> set (GetStageDescSet m'). desc_stageID d = i \<and> d \<in> set (GetProtectedStageDescSet m')"
    using assms(2,3) by (auto simp: grows_def)
qed

text \<open>The other policies.\<close>

lemma mark_where_keeps:
  "manager_inv m \<Longrightarrow> {d \<in> set (GetStageDescSet m). P d} \<subseteq> set (GetProtectedStageDescSet (mark_where P r m))"
  unfolding mark_where_def using repo.protected_marks by auto

lemma saved_keeps:
  assumes "manager_inv (stageManager s)" "ids_ok (stageManager s)" and "handleSavedStageIDs ids s = Some (None, s')"
    and "d \<in> set (GetStageDescSet (stageManager s))" "desc_stageID d \<in> set ids"
  shows "d \<in> set (GetProtectedStageDescSet (stageManager s'))"
  using assms unfolding handleSavedStageIDs_def
proof (induction ids arbitrary: s)
  case (Cons i ids)
  obtain s1 where one: "update_manager (MarkStageDescAsProtectedByStageID i ProtectionReasonGitPolicy True) s = Some (None, s1)"
    and rest: "for_each (\<lambda>i. update_manager (MarkStageDescAsProtectedByStageID i ProtectionReasonGitPolicy True)) ids s1 = Some (None, s')"
    using Cons.prems(3) by (auto elim: and_then_SomeE)
  obtain d1 where d1: "GetStageDescByStageID (stageManager s) i = Some d1"
    "stageManager s1 = MarkStageDescAsProtected d1 ProtectionReasonGitPolicy True (stageManager s)"
    using one by (auto simp: update_manager_def MarkStageDescAsProtectedByStageID_def split: option.splits)
  have inv1: "manager_inv (stageManager s1)" using Cons.prems(1) by (simp add: d1 repo.inv_mark)
  have g: "grows (stageManager s1) (stageManager s')"
    using rest phase_saved [of UNIV ids] unfolding handleSavedStageIDs_def by (auto simp: phase_def dest: keepsD)
  show ?case
  proof (cases "desc_stageID d \<in> set ids")
    case True
    then show ?thesis using Cons.IH [OF inv1 _ rest] Cons.prems(2,4) by (simp add: d1(2))
  next
    case False
    then have "d1 = d" using Cons.prems lookup_stage d1(1) by auto
    then have "d \<in> set (GetProtectedStageDescSet (stageManager s1))" by (simp add: d1 repo.protected_mark Cons.prems(1))
    then show ?thesis using g inv1 by (auto simp: grows_def)
  qed
qed simp

subsection \<open>Triples\<close>

text \<open>From a state of \<open>P\<close> a step that returns nil ends in \<open>Q\<close>, and one that fails in \<open>E\<close>.\<close>

definition triple :: "('s \<Rightarrow> bool) \<Rightarrow> 's step \<Rightarrow> ('s \<Rightarrow> bool) \<Rightarrow> ('s \<Rightarrow> bool) \<Rightarrow> bool" where
  "triple P f Q E \<longleftrightarrow> (\<forall>s e s'. P s \<longrightarrow> f s = Some (e, s') \<longrightarrow> (if e = None then Q s' else E s'))"

lemma tripleI: "(\<And>s s'. P s \<Longrightarrow> f s = Some (None, s') \<Longrightarrow> Q s') \<Longrightarrow>
    (\<And>s e s'. P s \<Longrightarrow> f s = Some (Some e, s') \<Longrightarrow> E s') \<Longrightarrow> triple P f Q E"
  by (auto simp: triple_def)

lemma tripleD: "triple P f Q E \<Longrightarrow> P s \<Longrightarrow> f s = Some (e, s') \<Longrightarrow> if e = None then Q s' else E s'"
  unfolding triple_def by blast

lemma triple_conseq: "triple P f Q E \<Longrightarrow> (\<And>s. P' s \<Longrightarrow> P s) \<Longrightarrow> (\<And>s. Q s \<Longrightarrow> Q' s) \<Longrightarrow> (\<And>s. E s \<Longrightarrow> E' s) \<Longrightarrow> triple P' f Q' E'"
  unfolding triple_def by (metis (full_types))

lemma triple_and_then: "triple P f Q E \<Longrightarrow> triple Q g R E \<Longrightarrow> triple P (and_then f g) R E"
  unfolding triple_def by (auto elim!: and_then_SomeE split: if_splits) (metis option.distinct(1))+

lemma triple_Nil: "triple P (in_order []) P E"
  by (simp add: triple_def skip_def)

lemma triple_Cons: "triple P f Q E \<Longrightarrow> triple Q (in_order fs) R E \<Longrightarrow> triple P (in_order (f # fs)) R E"
  by (simp add: triple_and_then)

lemma triple_keeps: "keeps R f \<Longrightarrow> (\<And>s s'. P s \<Longrightarrow> R s s' \<Longrightarrow> Q s' \<and> E s') \<Longrightarrow> triple P f Q E"
  unfolding triple_def keeps_def by auto

lemma triple_do_when: "(b \<Longrightarrow> triple P f Q E) \<Longrightarrow> (\<not> b \<Longrightarrow> (\<And>s. P s \<Longrightarrow> Q s)) \<Longrightarrow> triple P (do_when b f) Q E"
  by (auto simp: do_when_def triple_def skip_def)

lemma triple_with: "(\<And>m. triple (\<lambda>s. P s \<and> stageManager s = m) (f m) Q E) \<Longrightarrow> triple P (with_manager f) Q E"
  unfolding triple_def with_manager_def by blast

subsection \<open>The state before the deletion\<close>

definition kept_at :: "Manager \<Rightarrow> (string \<Rightarrow> bool) \<Rightarrow> StageDesc set \<Rightarrow> cleanupManager \<Rightarrow> bool" where
  "kept_at m0 used X s \<longleftrightarrow> manager_inv m0 \<and> grows m0 (stageManager s) \<and> X \<subseteq> set (GetProtectedStageDescSet (stageManager s)) \<and>
     tags_safe used (stageManager s) \<and> set (trace s) \<subseteq> metadata_calls"

definition only_metadata :: "cleanupManager \<Rightarrow> bool" where
  "only_metadata s \<longleftrightarrow> set (trace s) \<subseteq> metadata_calls"

lemma kept_at_inv: "kept_at m0 used X s \<Longrightarrow> manager_inv (stageManager s) \<and>
    GetStageDescSet (stageManager s) = GetStageDescSet m0 \<and> m_imageMetadataList (stageManager s) = m_imageMetadataList m0"
  by (auto simp: kept_at_def grows_def)

lemma kept_at_phase:
  assumes "phase metadata_calls s s'" "kept_at m0 used X s"
  shows "kept_at m0 used X s'" "only_metadata s'"
proof -
  have inv: "manager_inv (stageManager s)" using kept_at_inv [OF assms(2)] by simp
  have g: "grows (stageManager s) (stageManager s')" using assms(1) by (simp add: phase_def)
  have "set (trace s') \<subseteq> metadata_calls" using assms by (auto simp: phase_def kept_at_def)
  moreover have "X \<subseteq> set (GetProtectedStageDescSet (stageManager s'))" using g inv assms(2) by (auto simp: grows_def kept_at_def)
  ultimately show "kept_at m0 used X s'" "only_metadata s'"
    using g inv assms(2) grows_trans tags_safe_grows by (auto simp: kept_at_def only_metadata_def)
qed

lemma triple_phase: "keeps (phase metadata_calls) f \<Longrightarrow> triple (kept_at m0 used X) f (kept_at m0 used X) only_metadata"
  by (erule triple_keeps) (auto intro: kept_at_phase)

text \<open>A phase that protects more.\<close>

lemma triple_phase_adds:
  assumes "keeps (phase metadata_calls) f"
    and "\<And>s s'. kept_at m0 used X s \<Longrightarrow> f s = Some (None, s') \<Longrightarrow> Y \<subseteq> set (GetProtectedStageDescSet (stageManager s'))"
  shows "triple (kept_at m0 used X) f (kept_at m0 used (X \<union> Y)) only_metadata"
proof (rule tripleI)
  fix s s' assume s: "kept_at m0 used X s" "f s = Some (None, s')"
  have "phase metadata_calls s s'" using keepsD [OF assms(1) s(2)] .
  from kept_at_phase [OF this s(1)] assms(2) [OF s] show "kept_at m0 used (X \<union> Y) s'" by (simp add: kept_at_def)
next
  fix s e s' assume s: "kept_at m0 used X s" "f s = Some (Some e, s')"
  show "only_metadata s'" by (rule kept_at_phase(2) [OF keepsD [OF assms(1) s(2)] s(1)])
qed

lemma triple_for_each:
  "(\<And>x X. x \<in> set xs \<Longrightarrow> triple (kept_at m0 used X) (f x) (kept_at m0 used (X \<union> Y x)) E) \<Longrightarrow>
   triple (kept_at m0 used X) (for_each f xs) (kept_at m0 used (X \<union> (\<Union>x \<in> set xs. Y x))) E"
proof (induction xs arbitrary: X)
  case (Cons x xs)
  have "triple (kept_at m0 used (X \<union> Y x)) (for_each f xs) (kept_at m0 used (X \<union> Y x \<union> (\<Union>x \<in> set xs. Y x))) E"
    by (rule Cons.IH) (rule Cons.prems, simp)
  moreover have "triple (kept_at m0 used X) (f x) (kept_at m0 used (X \<union> Y x)) E" by (rule Cons.prems) simp
  ultimately show ?case using triple_and_then by (fastforce simp: Un_assoc)
qed (simp add: triple_def skip_def)

text \<open>The policies, as sets of stages.\<close>

definition kubernetes_on :: "CleanupOptions \<Rightarrow> bool" where
  "kubernetes_on opts \<longleftrightarrow> \<not> (WithoutKube opts \<or> DisableKubernetesBasedPolicy (ConfigMetaCleanup opts))"

definition deployed_now :: "surroundings \<Rightarrow> CleanupOptions \<Rightarrow> DeployedDockerImage list" where
  "deployed_now env opts =
     (if kubernetes_on opts
      then (case deployedDockerImages (KubernetesContextClients env) of Inr l \<Rightarrow> l | Inl _ \<Rightarrow> []) else [])"

definition tag_in_use :: "storage \<Rightarrow> surroundings \<Rightarrow> CleanupOptions \<Rightarrow> string \<Rightarrow> bool" where
  "tag_in_use w env opts = is_deployed (deployed_now env opts) (repo_Address w)"

definition kept_by_kubernetes where
  "kept_by_kubernetes w env opts m0 =
     {d \<in> set (GetStageDescSet m0). used_in_kubernetes (repo_Address w) (deployed_now env opts) m0 d}"

definition reached_for :: "surroundings \<Rightarrow> commit_source \<Rightarrow> refs \<Rightarrow> Manager \<Rightarrow> string \<times> commit_map \<Rightarrow> StageDesc set" where
  "reached_for env git refs m0 x = {d \<in> set (GetStageDescSet m0). \<exists>reached hits.
     scan_image env git refs (snd x) = Some (Inr (reached, hits)) \<and> desc_stageID d \<in> set reached}"

definition kept_by_git where
  "kept_by_git env opts m0 =
     {d. \<not> DisableGitHistoryBasedPolicy (ConfigMetaCleanup opts) \<and> (\<exists>repo refs. LocalGit env = Inr repo \<and>
        ReferencesToScan (sort_refs env) (time_Now env) (Compile_regexp env) repo (KeepPolicies (ConfigMetaCleanup opts)) = Inr refs \<and>
        d \<in> (\<Union>x \<in> set (GetImageStageIDCommitListToCleanup m0). reached_for env (CommitObject repo) refs m0 x))}"

definition kept_by_age where
  "kept_by_age env opts m0 =
     {d \<in> set (GetStageDescSet m0). \<not> DisableBuiltWithinLastNHoursPolicy (ConfigMetaCleanup opts) \<and>
        keep_hours opts \<noteq> 0 \<and> built_recently env (keep_hours opts) d}"

definition kept_by_list where
  "kept_by_list opts m0 = {d \<in> set (GetStageDescSet m0). iTag (desc_info d) \<in> set (keepList opts)}"

definition kept_by_policies where
  "kept_by_policies w env opts m0 = kept_by_kubernetes w env opts m0 \<union> kept_by_git env opts m0 \<union>
     kept_by_age env opts m0 \<union> kept_by_list opts m0"

lemma triple_kubernetes:
  assumes "ids_ok m0" "kubernetes_on opts"
  shows "triple (\<lambda>s. kept_at m0 (\<lambda>_. False) {} s \<and> GetCustomTagsMetadata (stageManager s) = GetCustomTagsMetadata m0)
    (kubernetes_policy w env) (kept_at m0 (tag_in_use w env opts) (kept_by_kubernetes w env opts m0)) only_metadata"
proof (rule tripleI)
  fix s s' assume "kept_at m0 (\<lambda>_. False) {} s \<and> GetCustomTagsMetadata (stageManager s) = GetCustomTagsMetadata m0"
    and f: "kubernetes_policy w env s = Some (None, s')"
  then have s: "kept_at m0 (\<lambda>_. False) {} s" "GetCustomTagsMetadata (stageManager s) = GetCustomTagsMetadata m0" by auto
  let ?m = "stageManager s"
  have inv: "manager_inv ?m" and same: "GetStageDescSet ?m = GetStageDescSet m0" using kept_at_inv [OF s(1)] by auto
  have k: "kept_at m0 (\<lambda>_. False) {} s'" using kept_at_phase(1) [OF keepsD [OF phase_kubernetes f] s(1)] .
  obtain deployed where d: "deployedDockerImages (KubernetesContextClients env) = Inr deployed"
    using f by (auto simp: kubernetes_policy_def fail_def split: if_splits sum.splits)
  let ?m1 = "skipStageIDsThatAreUsedInKubernetes (repo_Address w) deployed ?m"
  have "\<exists>a. stageManager s' = skipFinalStageIDsThatAreUsedInKubernetes a deployed ?m1"
    using f d by (auto simp: kubernetes_policy_def change_manager_def update_manager_def and_then_def skip_def
        fail_def split: if_splits)
  then have g: "grows ?m1 (stageManager s')" using grows_kubernetes_final by auto
  have inv1: "manager_inv ?m1" using grows_kubernetes inv by (auto simp: grows_def)
  have now: "deployed_now env opts = deployed" using assms(2) d by (simp add: deployed_now_def)
  note kk = kubernetes_keeps [OF inv, where address = "repo_Address w" and deployed = deployed, unfolded same, OF assms(1)]
  have "kept_by_kubernetes w env opts m0 \<subseteq> set (GetProtectedStageDescSet ?m1)"
    using kk(1) s(2) by (simp add: kept_by_kubernetes_def now used_in_kubernetes_def)
  then have "kept_by_kubernetes w env opts m0 \<subseteq> set (GetProtectedStageDescSet (stageManager s'))"
    using g inv1 by (auto simp: grows_def)
  moreover have "tags_safe (tag_in_use w env opts) (stageManager s')"
    using tags_safe_grows [OF kk(2) inv1 g] by (simp add: tag_in_use_def now)
  ultimately show "kept_at m0 (tag_in_use w env opts) (kept_by_kubernetes w env opts m0) s'"
    using k by (simp add: kept_at_def)
next
  fix s e s' assume "kept_at m0 (\<lambda>_. False) {} s \<and> GetCustomTagsMetadata (stageManager s) = GetCustomTagsMetadata m0"
    and f: "kubernetes_policy w env s = Some (Some e, s')"
  then show "only_metadata s'" using kept_at_phase(2) [OF keepsD [OF phase_kubernetes f]] by blast
qed

lemma triple_image_cleanup:
  assumes "ids_ok m0"
  shows "triple (kept_at m0 used X) (image_cleanup w env opts git refs x)
    (kept_at m0 used (X \<union> reached_for env git refs m0 x)) only_metadata"
proof (rule triple_phase_adds [OF phase_image_cleanup])
  fix s s' assume s: "kept_at m0 used X s" and f: "image_cleanup w env opts git refs x s = Some (None, s')"
  obtain n t where x: "x = (n, t)" by (cases x)
  obtain reached hits where scan: "scan_image env git refs t = Some (Inr (reached, hits))"
    using f by (auto simp: image_cleanup_def x fail_def split: option.splits sum.splits)
  let ?rest = "cleanupImageMetadata w (ExcludeStrings env) (DryRun opts) n hits
            (filter (\<lambda>stageID. stageID \<notin> set reached) (map fst t))"
  have "in_order [handleSavedStageIDs reached, ?rest] s = Some (None, s')" using f by (simp add: image_cleanup_def x scan)
  then obtain s1 where one: "handleSavedStageIDs reached s = Some (None, s1)" and two: "?rest s1 = Some (None, s')"
    by (auto elim!: and_then_SomeE simp: skip_def)
  note i = kept_at_inv [OF s]
  have "kept_at m0 used X s1" using kept_at_phase(1) [OF keepsD [OF phase_saved one] s] .
  then have inv1: "manager_inv (stageManager s1)" using kept_at_inv by blast
  have g: "grows (stageManager s1) (stageManager s')"
    using keepsD [OF phase_cleanupImageMetadata two] by (simp add: phase_def)
  have "d \<in> set (GetProtectedStageDescSet (stageManager s1))" if "d \<in> reached_for env git refs m0 x" for d
    using that saved_keeps [OF _ _ one, of d] i assms by (auto simp: reached_for_def x scan)
  then show "reached_for env git refs m0 x \<subseteq> set (GetProtectedStageDescSet (stageManager s'))"
    using g inv1 by (auto simp: grows_def)
qed

lemma triple_git:
  assumes "ids_ok m0" "\<not> DisableGitHistoryBasedPolicy (ConfigMetaCleanup opts)"
  shows "triple (kept_at m0 used X) (gitHistoryBasedCleanup w env opts)
    (kept_at m0 used (X \<union> kept_by_git env opts m0)) only_metadata"
proof (rule triple_phase_adds [OF phase_git])
  fix s s' assume s: "kept_at m0 used X s" and f: "gitHistoryBasedCleanup w env opts s = Some (None, s')"
  obtain repo refs where r: "LocalGit env = Inr repo"
    "ReferencesToScan (sort_refs env) (time_Now env) (Compile_regexp env) repo (KeepPolicies (ConfigMetaCleanup opts)) = Inr refs"
    using f by (auto simp: gitHistoryBasedCleanup_def fail_def split: sum.splits)
  let ?table = "GetImageStageIDCommitListToCleanup m0" and ?f = "image_cleanup w env opts (CommitObject repo) refs"
  have same: "GetImageStageIDCommitListToCleanup (stageManager s) = ?table"
    using kept_at_inv [OF s] by (simp add: GetImageStageIDCommitListToCleanup_def)
  obtain s1 where one: "for_each ?f ?table s = Some (None, s1)"
    and two: "cleanupNonexistentImageMetadata w (DryRun opts) s1 = Some (None, s')"
    using f by (auto simp: gitHistoryBasedCleanup_def r with_manager_def same skip_def elim!: and_then_SomeE)
  let ?Y = "\<Union>x \<in> set ?table. reached_for env (CommitObject repo) refs m0 x"
  have "kept_at m0 used (X \<union> ?Y) s1"
    using tripleD [OF triple_for_each [where f = ?f and xs = ?table, OF triple_image_cleanup [OF assms(1)]] s one] by simp
  then have "kept_at m0 used (X \<union> ?Y) s'" using kept_at_phase(1) [OF keepsD [OF phase_nonexistent two]] by blast
  then show "kept_by_git env opts m0 \<subseteq> set (GetProtectedStageDescSet (stageManager s'))"
    by (auto simp: kept_at_def kept_by_git_def r)
qed

lemma triple_age:
  "triple (kept_at m0 used X) (built_within_policy env opts) (kept_at m0 used (X \<union> kept_by_age env opts m0)) only_metadata"
proof (rule triple_phase_adds [OF phase_built_within])
  fix s s' assume s: "kept_at m0 used X s" and f: "built_within_policy env opts s = Some (None, s')"
  note i = kept_at_inv [OF s]
  show "kept_by_age env opts m0 \<subseteq> set (GetProtectedStageDescSet (stageManager s'))"
    using f mark_where_keeps [of "stageManager s" "built_recently env (keep_hours opts)" ProtectionReasonBuiltWithinLastNHoursPolicy] i
    by (auto simp: built_within_policy_def kept_by_age_def do_when_def change_manager_def update_manager_def skip_def
        split: if_splits)
qed

lemma triple_list:
  "triple (kept_at m0 used X) (markWhitelistStagesAsProtected opts) (kept_at m0 used (X \<union> kept_by_list opts m0)) only_metadata"
proof (rule triple_phase_adds [OF phase_whitelist])
  fix s s' assume s: "kept_at m0 used X s" and f: "markWhitelistStagesAsProtected opts s = Some (None, s')"
  note i = kept_at_inv [OF s]
  show "kept_by_list opts m0 \<subseteq> set (GetProtectedStageDescSet (stageManager s'))"
    using f mark_where_keeps [of "stageManager s" "\<lambda>d. iTag (desc_info d) \<in> set (keepList opts)" ProtectionReasonKeepList] i
    by (auto simp: markWhitelistStagesAsProtected_def kept_by_list_def do_when_def change_manager_def update_manager_def skip_def
        split: if_splits)
qed

subsection \<open>The deletion\<close>

text \<open>The set \<open>K\<close> of kept stages: it has what the policies keep and is closed under parents and
  platform images.\<close>

definition kept_set :: "Manager \<Rightarrow> StageDesc set \<Rightarrow> StageDesc set \<Rightarrow> bool" where
  "kept_set m0 X K \<longleftrightarrow> X \<subseteq> K \<and>
     (\<forall>d \<in> K. \<not> iIsIndex (desc_info d) \<longrightarrow> fst ` set (parents m0 d) \<subseteq> K) \<and>
     (\<forall>d \<in> X. iIsIndex (desc_info d) \<longrightarrow> platform_covered (iIndex (desc_info d)) (GetStageDescSet m0) K)"

text \<open>The calls a cleanup may make when it keeps \<open>K\<close>: a custom tag is only deleted when the stage it
  belongs to is not kept and no tag of that stage is in use.\<close>

definition free_tag :: "Manager \<Rightarrow> (string \<Rightarrow> bool) \<Rightarrow> StageDesc set \<Rightarrow> string \<Rightarrow> bool" where
  "free_tag m0 used K t \<longleftrightarrow> (\<exists>i tags. (i, tags) \<in> set (GetCustomTagsMetadata m0) \<and> t \<in> set tags \<and>
     (\<forall>t' \<in> set tags. \<not> used t') \<and> (\<forall>d \<in> set (GetStageDescSet m0) \<inter> K. desc_stageID d \<noteq> i))"

definition stage_calls :: "Manager \<Rightarrow> StageDesc set \<Rightarrow> storage_call set" where
  "stage_calls m0 K = metadata_calls \<union> Delete_stage ` (set (GetStageDescSet m0) - K)"

definition allowed_calls :: "Manager \<Rightarrow> (string \<Rightarrow> bool) \<Rightarrow> StageDesc set \<Rightarrow> storage_call set" where
  "allowed_calls m0 used K = stage_calls m0 K \<union> Delete_custom_tag ` Collect (free_tag m0 used K) \<union>
     range Unregister_custom_tag \<union> range Delete_final_stage \<union> {Post_last_cleanup_record}"

lemma kept_set_UNIV: "kept_set m0 X UNIV"
  by (auto simp: kept_set_def platform_covered_def)

definition safe_end :: "Manager \<Rightarrow> (string \<Rightarrow> bool) \<Rightarrow> StageDesc set \<Rightarrow> cleanupManager \<Rightarrow> bool" where
  "safe_end m0 used X s \<longleftrightarrow> (\<exists>K. kept_set m0 X K \<and> set (trace s) \<subseteq> allowed_calls m0 used K)"

lemma only_metadata_safe: "only_metadata s \<Longrightarrow> safe_end m0 used X s"
  unfolding safe_end_def only_metadata_def allowed_calls_def stage_calls_def using kept_set_UNIV by blast

definition calls_in :: "storage_call set \<Rightarrow> cleanupManager \<Rightarrow> cleanupManager \<Rightarrow> bool" where
  "calls_in C s s' \<longleftrightarrow> (\<exists>cs. trace s' = trace s @ cs \<and> set cs \<subseteq> C)"

lemma calls_in_refl [simp, intro]: "reflp (calls_in C)"
  by (auto simp: reflp_def calls_in_def)

lemma calls_in_trans [simp, intro]: "transp (calls_in C)"
  unfolding transp_def calls_in_def by (fastforce simp: append_eq_append_conv2)

lemma adds_calls_in: "keeps (adds_only C) f \<Longrightarrow> C \<subseteq> D \<Longrightarrow> keeps (calls_in D) f"
  unfolding keeps_def adds_only_def calls_in_def by (metis subset_trans)

lemma change_calls_in: "keeps (calls_in C) (change_manager f)"
  by (auto simp: keeps_def change_manager_def update_manager_def calls_in_def)

lemma triple_calls_in:
  "keeps (calls_in (allowed_calls m0 used K)) f \<Longrightarrow>
   triple (\<lambda>s. set (trace s) \<subseteq> allowed_calls m0 used K) f (\<lambda>s. set (trace s) \<subseteq> allowed_calls m0 used K)
     (\<lambda>s. set (trace s) \<subseteq> allowed_calls m0 used K)"
  by (erule triple_keeps) (auto simp: calls_in_def)

text \<open>The state with the relatives protected.\<close>

definition closed_at :: "Manager \<Rightarrow> (string \<Rightarrow> bool) \<Rightarrow> StageDesc set \<Rightarrow> cleanupManager \<Rightarrow> bool" where
  "closed_at m0 used X s \<longleftrightarrow> kept_at m0 used X s \<and> kept_set m0 X (set (GetProtectedStageDescSet (stageManager s)))"

lemma parents_grows: "grows m m' \<Longrightarrow> parents m' = parents m"
  by (simp add: grows_def parents_def fun_eq_iff)

lemma triple_relatives:
  assumes "\<And>g. set (group_order env g) = set g"
  shows "triple (kept_at m0 used X) (protect_relatives env) (closed_at m0 used X) only_metadata"
proof (rule tripleI)
  fix s s' assume s: "kept_at m0 used X s" and f: "protect_relatives env s = Some (None, s')"
  let ?m = "stageManager s"
  obtain m' where m': "protect_groups (group_order env) (checksumSourceStageIDs s) ?m = Inr m'" "s' = s\<lparr>stageManager := m'\<rparr>"
    using f by (auto simp: protect_relatives_def update_manager_def split: sum.splits)
  have inv: "manager_inv ?m" and g: "grows m0 ?m" using kept_at_inv [OF s] s by (auto simp: kept_at_def)
  note c = protect_groups_closed [OF m'(1) inv assms]
  have "phase metadata_calls s s'" using c m'(2) by (auto simp: phase_def)
  moreover have "X \<subseteq> set (GetProtectedStageDescSet ?m)" using s by (simp add: kept_at_def)
  ultimately show "closed_at m0 used X s'"
    using kept_at_phase(1) [OF _ s] c m'(2) g parents_grows [OF g] unfolding closed_at_def kept_set_def
    by (auto simp: grows_def)
next
  fix s e s' assume s: "kept_at m0 used X s" and f: "protect_relatives env s = Some (Some e, s')"
  then have "s' = s" by (auto simp: protect_relatives_def update_manager_def split: sum.splits)
  then show "only_metadata s'" using s by (simp add: kept_at_def only_metadata_def)
qed

text \<open>The state with the other stages deleted and forgotten.\<close>

definition after_delete :: "Manager \<Rightarrow> (string \<Rightarrow> bool) \<Rightarrow> StageDesc set \<Rightarrow> cleanupManager \<Rightarrow> bool" where
  "after_delete m0 used K s \<longleftrightarrow> set (trace s) \<subseteq> stage_calls m0 K \<and>
     set (GetCustomTagsMetadata (stageManager s)) \<subseteq> set (GetCustomTagsMetadata m0) \<and>
     (\<forall>i tags. (i, tags) \<in> set (GetCustomTagsMetadata (stageManager s)) \<longrightarrow> (\<exists>t \<in> set tags. used t) \<longrightarrow>
        (\<exists>d \<in> set (GetStageDescSet m0) \<inter> K. desc_stageID d = i)) \<and>
     (\<forall>d \<in> set (GetStageDescSet m0) \<inter> K. GetStageDescByStageID (stageManager s) (desc_stageID d) \<noteq> None)"

lemma forget_lookup:
  assumes "manager_inv m" "ids_ok m" "d \<in> set (GetStageDescSet m)" "set ds \<subseteq> set (GetStageDescSet m)" "d \<notin> set ds"
  shows "GetStageDescByStageID (ForgetDeletedStageDescSet ds m) (desc_stageID d) \<noteq> None"
proof -
  have "desc_stageID d \<notin> desc_stageID ` set ds" using assms(2-5) by (auto dest!: inj_onD subsetD)
  then show ?thesis using lookup_stage [OF assms(1-3)]
    by (simp add: GetStageDescByStageID_def set_GetStageDescByStageID_def ForgetDeletedStageDescSet_def
        DifferenceInPlace_def byID_delete_foldl)
qed

lemma triple_delete:
  fixes w :: storage and b :: bool
  assumes ids: "ids_ok m0" and w: "storage_ok w"
  defines "del \<equiv> \<lambda>m. do_when (stages_to_delete m \<noteq> []) (in_order
        [deleteStages w b (stages_to_delete m) False, change_manager (ForgetDeletedStageDescSet (stages_to_delete m))])"
  assumes m: "closed_at m0 used X s" and "K = set (GetProtectedStageDescSet (stageManager s))"
    and f: "with_manager del s = Some (e, s')"
  shows "set (trace s') \<subseteq> stage_calls m0 K" and "e = None \<Longrightarrow> after_delete m0 used K s'"
proof -
  let ?m = "stageManager s" and ?D = "stages_to_delete (stageManager s)"
  have k: "kept_at m0 used X s" using m by (simp add: closed_at_def)
  note i = kept_at_inv [OF k]
  have ids': "ids_ok ?m" using i ids by simp
  have D: "set ?D = set (GetStageDescSet m0) - K" using i assms(5) by (simp add: stages_to_delete_def)
  have t0: "set (trace s) \<subseteq> stage_calls m0 K" using k by (auto simp: kept_at_def stage_calls_def)
  have ad: "keeps (adds_only (Delete_stage ` set ?D)) (deleteStages w b ?D False)"
    unfolding deleteStages_def by (rule keeps_adds_mono [OF deleteStageDescSet_adds [OF w]]) auto
  have lookups: "GetStageDescByStageID (ForgetDeletedStageDescSet ?D ?m) (desc_stageID d) \<noteq> None"
    if "d \<in> set (GetStageDescSet m0) \<inter> K" for d
    using that i D by (intro forget_lookup ids') auto
  have plain: "GetStageDescByStageID ?m (desc_stageID d) \<noteq> None" if "d \<in> set (GetStageDescSet m0) \<inter> K" for d
    using that i lookup_stage [OF _ ids', of d] by auto
  have tags: "set (GetCustomTagsMetadata ?m) \<subseteq> set (GetCustomTagsMetadata m0)" using k by (auto simp: kept_at_def grows_def)
  have used: "\<exists>d \<in> set (GetStageDescSet m0) \<inter> K. desc_stageID d = j"
    if "(j, ts) \<in> set (GetCustomTagsMetadata ?m)" "t \<in> set ts" "used t" for j ts t
    using tags_safeD [where used = used and m = ?m, OF _ that] k i assms(5) by (auto simp: kept_at_def)
  have after: "after_delete m0 used K s'" if "set (trace s') \<subseteq> stage_calls m0 K"
      "GetCustomTagsMetadata (stageManager s') = GetCustomTagsMetadata ?m"
      "\<And>d. d \<in> set (GetStageDescSet m0) \<inter> K \<Longrightarrow> GetStageDescByStageID (stageManager s') (desc_stageID d) \<noteq> None"
    using that tags used unfolding after_delete_def by (metis (no_types))
  have "(set (trace s') \<subseteq> stage_calls m0 K) \<and> (e = None \<longrightarrow> after_delete m0 used K s')"
  proof (cases "?D = []")
    case True
    then have "s' = s" "e = None" using f by (auto simp: del_def with_manager_def do_when_def skip_def)
    then show ?thesis using after t0 plain by simp
  next
    case False
    then have f': "and_then (deleteStages w b ?D False) (and_then (change_manager (ForgetDeletedStageDescSet ?D)) skip) s = Some (e, s')"
      using f by (simp add: del_def with_manager_def do_when_def)
    from this show ?thesis
    proof (cases rule: and_then_SomeE)
      case (fails e')
      then show ?thesis using keepsD [OF ad fails(2)] t0 D by (auto simp: adds_only_def stage_calls_def)
    next
      case (goes_on t)
      have t: "stageManager t = ?m" "set (trace t) \<subseteq> stage_calls m0 K"
        using keepsD [OF ad goes_on(1)] t0 D by (auto simp: adds_only_def stage_calls_def)
      have s': "s' = t\<lparr>stageManager := ForgetDeletedStageDescSet ?D ?m\<rparr>"
        using goes_on(2) t(1) by (auto simp: and_then_def change_manager_def update_manager_def skip_def)
      have "after_delete m0 used K s'"
        by (rule after) (use t lookups in \<open>auto simp: s' ForgetDeletedStageDescSet_def GetCustomTagsMetadata_def\<close>)
      then show ?thesis using t s' by simp
    qed
  qed
  then show "set (trace s') \<subseteq> stage_calls m0 K" and "e = None \<Longrightarrow> after_delete m0 used K s'" by auto
qed

lemma triple_tags:
  "triple (after_delete m0 used K) (deleteUnusedCustomTags w b) (\<lambda>s. set (trace s) \<subseteq> allowed_calls m0 used K)
     (\<lambda>s. set (trace s) \<subseteq> allowed_calls m0 used K)"
proof -
  have "set (trace s') \<subseteq> allowed_calls m0 used K"
    if s: "after_delete m0 used K s" and f: "deleteUnusedCustomTags w b s = Some (e, s')" for s e s'
  proof -
    let ?m = "stageManager s"
    let ?tags = "concat (map snd (filter (\<lambda>(stageID, _). \<not> ContainsStageDescByStageID ?m stageID) (GetCustomTagsMetadata ?m)))"
    have free: "free_tag m0 used K t" if t: "t \<in> set ?tags" for t
    proof -
      obtain i ts where e: "(i, ts) \<in> set (GetCustomTagsMetadata ?m)" "t \<in> set ts" "GetStageDescByStageID ?m i = None"
        using t by (auto simp: ContainsStageDescByStageID_def)
      then have none: "\<forall>d \<in> set (GetStageDescSet m0) \<inter> K. desc_stageID d \<noteq> i" using s unfolding after_delete_def by blast
      moreover have "\<forall>t' \<in> set ts. \<not> used t'" using none e(1) s unfolding after_delete_def by blast
      ultimately show ?thesis using e s unfolding free_tag_def after_delete_def by blast
    qed
    define tags where "tags = ?tags"
    have "keeps (calls_in (allowed_calls m0 used K)) (deleteCustomTags w b tags)"
    proof (rule adds_calls_in [OF deleteCustomTags_adds])
      have "set tags \<subseteq> Collect (free_tag m0 used K)" using free unfolding tags_def by (meson CollectI subsetI)
      then show "(if b then {} else Delete_custom_tag ` set tags \<union> Unregister_custom_tag ` set tags) \<subseteq> allowed_calls m0 used K"
        unfolding allowed_calls_def by auto
    qed
    then have "calls_in (allowed_calls m0 used K) s s'"
      using f unfolding deleteUnusedCustomTags_def with_manager_def Let_def tags_def [symmetric]
      by (intro keepsD [OF keeps_do_when [OF calls_in_refl]])
    moreover have "set (trace s) \<subseteq> allowed_calls m0 used K" using s by (auto simp: after_delete_def allowed_calls_def)
    ultimately show ?thesis by (auto simp: calls_in_def)
  qed
  then show ?thesis by (auto simp: triple_def)
qed

subsection \<open>The init\<close>

text \<open>The init of the image metadata leaves the sets of stages alone.\<close>

definition same_sets :: "Manager \<Rightarrow> Manager \<Rightarrow> bool" where
  "same_sets m m' \<longleftrightarrow> m_managedStageDescSet m' = m_managedStageDescSet m \<and>
     m_finalManagedStageDescSet m' = m_finalManagedStageDescSet m \<and> m_stageIDCustomTagList m' = m_stageIDCustomTagList m"

lemma same_sets_create: "getOrCreateImageMetadata n i m = (j, m') \<Longrightarrow> same_sets m (update_imageMetadata j f m')"
  by (auto simp: getOrCreateImageMetadata_def update_imageMetadata_def same_sets_def split: option.splits)

lemma same_sets_trans: "same_sets m1 m2 \<Longrightarrow> same_sets m2 m3 \<Longrightarrow> same_sets m1 m3"
  by (simp add: same_sets_def)

lemma InitImagesMetadata_sets:
  assumes "InitImagesMetadata ex answer m = Inr m'"
  shows "same_sets m m'"
proof -
  have entry: "same_sets m (notManaged_entry m e)" for m e
    by (cases e) (auto simp: notManaged_entry_def same_sets_create split: prod.splits)
  have "same_sets m (foldl notManaged_entry m es)" for m es
  proof (induction es arbitrary: m)
    case (Cons e es)
    then show ?case using entry [of m e] by (auto intro: same_sets_trans)
  qed (simp add: same_sets_def)
  moreover have "same_sets m1 m'" if p: "processImageMetadata ex t m1 = Inr m'" for t m1
  proof -
    obtain cache where "fold_res (processImageMetadata_entry ex) ([], m1) (image_entries t) = Inr (cache, m')"
      using p by (auto simp: processImageMetadata_def map_sum_def split: sum.splits)
    then have "same_sets m1 (snd (cache, m'))"
    proof (rule fold_res_invariant)
      fix s :: "(string, bool) go_map \<times> Manager" and e s'
      assume "same_sets m1 (snd s)" "processImageMetadata_entry ex s e = Inr s'"
      then show "same_sets m1 (snd s')"
        by (auto simp: processImageMetadata_entry_def elim: same_sets_trans [OF _ same_sets_create] split: prod.splits sum.splits)
    qed (simp add: same_sets_def)
    then show ?thesis by simp
  qed
  ultimately show ?thesis using assms
    by (auto simp: InitImagesMetadata_def split: sum.splits prod.splits) (metis same_sets_trans)
qed

lemma protected_new: "GetProtectedStageDescSet (m\<lparr>m_managedStageDescSet := newManagedStageDescSet ds\<rparr>) = []"
  by (simp add: GetProtectedStageDescSet_def set_GetProtectedStageDescSet_def newManagedStageDescSet_def
        set_GetProtectedStageDescSetByReason_def)

lemma update_manager_iff: "update_manager f s = Some (e, s') \<longleftrightarrow>
    (case f (stageManager s) of Inl x \<Rightarrow> e = Some x \<and> s' = s | Inr m \<Rightarrow> e = None \<and> s' = s\<lparr>stageManager := m\<rparr>)"
  by (auto simp: update_manager_def split: sum.splits)

lemma set_inv_manager: "set_inv a \<Longrightarrow> set_inv b \<Longrightarrow> manager_inv (m\<lparr>m_managedStageDescSet := a, m_finalManagedStageDescSet := b\<rparr>)"
  by (simp add: manager_inv_def)

lemma init_calls: "cleanup_init w env opts s = Some (e, s') \<Longrightarrow> trace s' = trace s"
proof -
  have "keeps (\<lambda>s s'. trace s' = trace s) (cleanup_init w env opts)"
    unfolding cleanup_init_def
    by (intro keeps_in_order_list)
      (auto simp: reflp_def transp_def keeps_def update_manager_iff skip_def split: sum.splits option.splits)
  then show "cleanup_init w env opts s = Some (e, s') \<Longrightarrow> trace s' = trace s" by (rule keepsD)
qed

lemma init_manager:
  assumes "cleanup_init w env opts newCleanupManager = Some (None, s)"
  shows "manager_inv (stageManager s) \<and> (\<exists>ds. stage_descs w = Inr ds \<and> GetStageDescSet (stageManager s) = ds)"
proof -
  define tail where "tail = [(case final_repo w of None \<Rightarrow> skip | Some (_, answer) \<Rightarrow> update_manager (InitFinalStageDescSet answer)),
      update_manager (InitImagesMetadata (IsCommitExists env) (image_metadata w (ImageNameList opts))),
      update_manager (InitCustomTagsMetadata (custom_tag_ids w) (custom_tag_metadata w))]"
  have "and_then (update_manager (InitStageDescSet (stage_descs w))) (in_order tail) newCleanupManager = Some (None, s)"
    using assms by (simp add: cleanup_init_def tail_def)
  then obtain ds where ds: "stage_descs w = Inr ds" and
    rest: "in_order tail (newCleanupManager\<lparr>stageManager := NewManager\<lparr>m_managedStageDescSet := newManagedStageDescSet ds\<rparr>\<rparr>) = Some (None, s)"
    by (cases "stage_descs w") (auto simp: update_manager_iff InitStageDescSet_def newCleanupManager_def elim!: and_then_SomeE)
  define ok where "ok = (\<lambda>m :: Manager. m_managedStageDescSet m = newManagedStageDescSet ds \<and> set_inv (m_finalManagedStageDescSet m))"
  have "triple (\<lambda>s. ok (stageManager s)) (in_order tail) (\<lambda>s. ok (stageManager s)) (\<lambda>_. True)"
    unfolding tail_def
  proof (intro triple_Cons triple_Nil)
    show "triple (\<lambda>s. ok (stageManager s)) (case final_repo w of None \<Rightarrow> skip | Some (_, answer) \<Rightarrow> update_manager (InitFinalStageDescSet answer))
       (\<lambda>s. ok (stageManager s)) (\<lambda>_. True)"
      by (auto simp: triple_def skip_def update_manager_iff InitFinalStageDescSet_def ok_def set_inv_new
          split: option.splits sum.splits)
    show "triple (\<lambda>s. ok (stageManager s)) (update_manager (InitImagesMetadata (IsCommitExists env) (image_metadata w (ImageNameList opts))))
       (\<lambda>s. ok (stageManager s)) (\<lambda>_. True)"
      by (auto simp: triple_def update_manager_iff ok_def same_sets_def dest!: InitImagesMetadata_sets split: sum.splits)
    show "triple (\<lambda>s. ok (stageManager s)) (update_manager (InitCustomTagsMetadata (custom_tag_ids w) (custom_tag_metadata w)))
       (\<lambda>s. ok (stageManager s)) (\<lambda>_. True)"
      by (auto simp: triple_def update_manager_iff ok_def InitCustomTagsMetadata_def split: sum.splits)
  qed (rule triple_Nil)
  from tripleD [OF this _ rest] have "ok (stageManager s)"
    by (simp add: ok_def NewManager_def set_inv_new)
  moreover have "stageDescSet (newManagedStageDescSet ds) = ds" by (simp add: newManagedStageDescSet_def)
  ultimately show ?thesis using ds by (simp add: ok_def manager_inv_def set_inv_new GetStageDescSet_def)
qed

subsection \<open>The whole run\<close>

lemma metadata_allowed: "metadata_calls \<subseteq> allowed_calls m0 used K"
  by (auto simp: allowed_calls_def stage_calls_def)

lemma calls_in_metadata: "keeps (phase metadata_calls) f \<Longrightarrow> keeps (calls_in (allowed_calls m0 used K)) f"
  unfolding keeps_def phase_def calls_in_def by (meson metadata_allowed subset_trans)

lemma imports_calls: "keeps (calls_in (allowed_calls m0 used K)) (deleteUnusedImportsMetadata w b)"
proof -
  have "keeps (calls_in (allowed_calls m0 used K)) (do_when c (deleteImportsMetadata w b ids))" for c ids
    by (intro keeps_do_when calls_in_refl adds_calls_in [OF deleteImportsMetadata_adds])
      (auto simp: allowed_calls_def stage_calls_def metadata_calls_def)
  then show ?thesis unfolding keeps_def deleteUnusedImportsMetadata_def by blast
qed

lemma final_calls: "storage_ok w \<Longrightarrow> keeps (calls_in (allowed_calls m0 used K)) (cleanupFinalStages w b)"
  unfolding cleanupFinalStages_def
  by (intro keeps_in_order_list)
    (auto simp: deleteStages_def allowed_calls_def simp del: in_order.simps split: if_splits
      intro!: keeps_with keeps_do_when keeps_in_order_list change_calls_in adds_calls_in [OF deleteStageDescSet_adds])

lemma triple_unused_stages:
  assumes "ids_ok m0" "storage_ok w" "\<And>g. set (group_order env g) = set g"
  shows "triple (kept_at m0 used X) (cleanupUnusedStages w env b)
    (\<lambda>s. \<exists>K. kept_set m0 X K \<and> set (trace s) \<subseteq> allowed_calls m0 used K) (safe_end m0 used X)"
proof -
  define del where "del = (\<lambda>m. do_when (stages_to_delete m \<noteq> []) (in_order
        [deleteStages w b (stages_to_delete m) False, change_manager (ForgetDeletedStageDescSet (stages_to_delete m))]))"
  note d = triple_delete [OF assms(1,2), where b = b, folded del_def]
  have sub: "stage_calls m0 K \<subseteq> allowed_calls m0 used K" for K by (auto simp: allowed_calls_def)
  have del: "triple (closed_at m0 used X) (with_manager del)
      (\<lambda>s. \<exists>K. kept_set m0 X K \<and> after_delete m0 used K s) (safe_end m0 used X)"
  proof (rule tripleI)
    fix s s' assume s: "closed_at m0 used X s" and f: "with_manager del s = Some (None, s')"
    show "\<exists>K. kept_set m0 X K \<and> after_delete m0 used K s'"
      using d(2) [OF s refl f] s by (auto simp: closed_at_def)
  next
    fix s e s' assume s: "closed_at m0 used X s" and f: "with_manager del s = Some (Some e, s')"
    show "safe_end m0 used X s'"
      using d(1) [OF s refl f] s sub unfolding safe_end_def closed_at_def by blast
  qed
  have lift: "triple (\<lambda>s. \<exists>K. kept_set m0 X K \<and> P K s) f (\<lambda>s. \<exists>K. kept_set m0 X K \<and> set (trace s) \<subseteq> allowed_calls m0 used K)
      (safe_end m0 used X)"
    if "\<And>K. triple (P K) f (\<lambda>s. set (trace s) \<subseteq> allowed_calls m0 used K) (\<lambda>s. set (trace s) \<subseteq> allowed_calls m0 used K)" for P f
    using that unfolding triple_def safe_end_def by (metis (no_types, lifting))
  show ?thesis
    unfolding cleanupUnusedStages_def del_def [symmetric]
  proof (intro triple_Cons)
    show "triple (kept_at m0 used X) (initImportsMetadata w b) (kept_at m0 used X) (safe_end m0 used X)"
      by (rule triple_conseq [OF triple_phase [OF phase_imports]]) (auto intro: only_metadata_safe)
    show "triple (kept_at m0 used X) (protect_relatives env) (closed_at m0 used X) (safe_end m0 used X)"
      by (rule triple_conseq [OF triple_relatives [OF assms(3)]]) (auto intro: only_metadata_safe)
    show "triple (closed_at m0 used X) (with_manager del) (\<lambda>s. \<exists>K. kept_set m0 X K \<and> after_delete m0 used K s) (safe_end m0 used X)"
      by (rule del)
    show "triple (\<lambda>s. \<exists>K. kept_set m0 X K \<and> after_delete m0 used K s) (deleteUnusedCustomTags w b)
       (\<lambda>s. \<exists>K. kept_set m0 X K \<and> set (trace s) \<subseteq> allowed_calls m0 used K) (safe_end m0 used X)"
      by (rule lift) (rule triple_tags)
    show "triple (\<lambda>s. \<exists>K. kept_set m0 X K \<and> set (trace s) \<subseteq> allowed_calls m0 used K) (deleteUnusedImportsMetadata w b)
       (\<lambda>s. \<exists>K. kept_set m0 X K \<and> set (trace s) \<subseteq> allowed_calls m0 used K) (safe_end m0 used X)"
      by (rule lift) (rule triple_calls_in [OF imports_calls])
  qed (rule triple_Nil)
qed

text \<open>A run that gets past the init ends safely.\<close>

lemma Cleanup_safe_end:
  assumes on: "\<not> DisableCleanup (ConfigMetaCleanup opts)"
    and init: "cleanup_init w env opts newCleanupManager = Some (None, s0)"
    and ok: "ids_ok (stageManager s0)" "storage_ok w" "\<And>g. set (group_order env g) = set g"
    and run: "Cleanup w env opts = Some (e, s)"
  shows "safe_end (stageManager s0) (tag_in_use w env opts) (kept_by_policies w env opts (stageManager s0)) s"
proof -
  let ?m0 = "stageManager s0" and ?used = "tag_in_use w env opts" and ?X = "kept_by_policies w env opts (stageManager s0)"
  define tail where "tail = [do_when (\<not> (WithoutKube opts \<or> DisableKubernetesBasedPolicy (ConfigMetaCleanup opts))) (kubernetes_policy w env),
         (if \<not> DisableGitHistoryBasedPolicy (ConfigMetaCleanup opts) then gitHistoryBasedCleanup w env opts
          else purgeImageMetadata w (DryRun opts)),
         built_within_policy env opts,
         markWhitelistStagesAsProtected opts,
         cleanupUnusedStages w env (DryRun opts),
         do_when (final_repo w \<noteq> None) (cleanupFinalStages w (DryRun opts)),
         modify (issue Post_last_cleanup_record)]"
  have rest: "in_order tail s0 = Some (e, s)"
    using run init on unfolding Cleanup_def cleanup_run_def tail_def in_order.simps(2) [of "cleanup_init w env opts"]
    by (simp add: and_then_def)
  have start: "kept_at ?m0 (\<lambda>_. False) {} s0 \<and> GetCustomTagsMetadata (stageManager s0) = GetCustomTagsMetadata ?m0"
    using init_manager [OF init] init_calls [OF init] by (simp add: kept_at_def tags_safe_def newCleanupManager_def)
  let ?K = "kept_by_kubernetes w env opts ?m0" and ?G = "kept_by_git env opts ?m0"
    and ?A = "kept_by_age env opts ?m0" and ?L = "kept_by_list opts ?m0"
  have X: "?X = ?K \<union> ?G \<union> ?A \<union> ?L" by (simp add: kept_by_policies_def)
  have weak: "triple P f Q only_metadata \<Longrightarrow> triple P f Q (safe_end ?m0 ?used ?X)" for P f Q
    by (erule triple_conseq) (auto intro: only_metadata_safe)
  have off: "kept_at ?m0 ?used ?K s"
    if "\<not> kubernetes_on opts" "kept_at ?m0 (\<lambda>_. False) {} s \<and> GetCustomTagsMetadata (stageManager s) = GetCustomTagsMetadata ?m0" for s
    using that by (auto simp: kept_at_def kept_by_kubernetes_def deployed_now_def used_in_kubernetes_def is_deployed_def
        tag_in_use_def tags_safe_def)
  let ?Q = "\<lambda>s. \<exists>K. kept_set ?m0 ?X K \<and> set (trace s) \<subseteq> allowed_calls ?m0 ?used K"
  have lift: "triple ?Q f ?Q (safe_end ?m0 ?used ?X)"
    if "\<And>K. keeps (calls_in (allowed_calls ?m0 ?used K)) f" for f
    using triple_calls_in [OF that] unfolding triple_def safe_end_def by (metis (no_types, lifting))
  have post: "keeps (calls_in (allowed_calls ?m0 ?used K)) (modify (issue Post_last_cleanup_record))" for K
    by (rule keeps_modify) (auto simp: calls_in_def issue_def allowed_calls_def)
  have "triple (\<lambda>s. kept_at ?m0 (\<lambda>_. False) {} s \<and> GetCustomTagsMetadata (stageManager s) = GetCustomTagsMetadata ?m0)
      (in_order tail) ?Q (safe_end ?m0 ?used ?X)"
    unfolding tail_def
  proof (intro triple_Cons)
    show "triple (\<lambda>s. kept_at ?m0 (\<lambda>_. False) {} s \<and> GetCustomTagsMetadata (stageManager s) = GetCustomTagsMetadata ?m0)
       (do_when (\<not> (WithoutKube opts \<or> DisableKubernetesBasedPolicy (ConfigMetaCleanup opts))) (kubernetes_policy w env))
       (kept_at ?m0 ?used ?K) (safe_end ?m0 ?used ?X)"
      using triple_kubernetes [OF ok(1)] off by (intro triple_do_when weak) (auto simp: kubernetes_on_def)
    show "triple (kept_at ?m0 ?used ?K) (if \<not> DisableGitHistoryBasedPolicy (ConfigMetaCleanup opts) then gitHistoryBasedCleanup w env opts
          else purgeImageMetadata w (DryRun opts)) (kept_at ?m0 ?used (?K \<union> ?G)) (safe_end ?m0 ?used ?X)"
    proof (cases "DisableGitHistoryBasedPolicy (ConfigMetaCleanup opts)")
      case True
      then have "?G = {}" by (simp add: kept_by_git_def)
      then show ?thesis using weak [OF triple_phase [OF phase_purge]] True by simp
    next
      case False
      then show ?thesis using weak [OF triple_git [OF ok(1) False]] by simp
    qed
    show "triple (kept_at ?m0 ?used (?K \<union> ?G)) (built_within_policy env opts) (kept_at ?m0 ?used (?K \<union> ?G \<union> ?A)) (safe_end ?m0 ?used ?X)"
      by (rule weak [OF triple_age])
    show "triple (kept_at ?m0 ?used (?K \<union> ?G \<union> ?A)) (markWhitelistStagesAsProtected opts) (kept_at ?m0 ?used ?X) (safe_end ?m0 ?used ?X)"
      using weak [OF triple_list, of ?m0 ?used "?K \<union> ?G \<union> ?A"] X by simp
    show "triple (kept_at ?m0 ?used ?X) (cleanupUnusedStages w env (DryRun opts)) ?Q (safe_end ?m0 ?used ?X)"
      by (rule triple_unused_stages [OF ok])
    show "triple ?Q (do_when (final_repo w \<noteq> None) (cleanupFinalStages w (DryRun opts))) ?Q (safe_end ?m0 ?used ?X)"
      by (rule lift, rule keeps_do_when) (auto intro: final_calls [OF ok(2)])
    show "triple ?Q (modify (issue Post_last_cleanup_record)) ?Q (safe_end ?m0 ?used ?X)"
      by (rule lift [OF post])
  qed (rule triple_Nil)
  from tripleD [OF this start rest] show ?thesis by (auto simp: safe_end_def split: if_splits)
qed

end
