(* ===== verification/Cleanup_Properties.thy ===== *)
theory Cleanup_Properties
  imports Cleanup_Safety
begin

text \<open>
  The properties of the cleanup and the purge commands, over the lemmas of \<open>Cleanup_Safety\<close>, and a
  small registry on which their witnesses run.
\<close>

subsection \<open>What is never deleted\<close>

text \<open>C1: the cleanup never deletes what a policy keeps. When the stage IDs of the repo are distinct, then
  whatever answers the storage gives and whether the cleanup ends with an error or not, there is a
  set of stages that no call deletes and that contains: every stage whose image or custom tag is
  used in Kubernetes, every stage the scan of the git history reaches, every stage built within
  the last hours, every stage of the keep list; with every stage its parents, and with every kept
  index the images of its platforms.\<close>

theorem Cleanup_keeps_policies:
  assumes "\<not> DisableCleanup (ConfigMetaCleanup opts)"
    and "cleanup_init w env opts newCleanupManager = Some (None, s0)" and "m = stageManager s0"
    and "inj_on desc_stageID (set (GetStageDescSet m))" "storage_ok w" "\<And>g. set (group_order env g) = set g"
    and "Cleanup w env opts = Some (e, s)"
  shows "\<exists>K. kept_by_kubernetes w env opts m \<union> kept_by_git env opts m \<union> kept_by_age env opts m \<union> kept_by_list opts m \<subseteq> K \<and>
    (\<forall>d \<in> K. \<not> iIsIndex (desc_info d) \<longrightarrow> fst ` set (parents m d) \<subseteq> K) \<and>
    (\<forall>d \<in> kept_by_policies w env opts m. iIsIndex (desc_info d) \<longrightarrow>
       platform_covered (iIndex (desc_info d)) (GetStageDescSet m) K) \<and>
    (\<forall>d. Delete_stage d \<in> set (trace s) \<longrightarrow> d \<in> set (GetStageDescSet m) - K)"
proof -
  obtain K where K: "kept_set m (kept_by_policies w env opts m) K" "set (trace s) \<subseteq> allowed_calls m (tag_in_use w env opts) K"
    using Cleanup_safe_end [OF assms(1,2)] assms(3-7) unfolding safe_end_def by blast
  have "d \<in> set (GetStageDescSet m) - K" if "Delete_stage d \<in> set (trace s)" for d
    using that K(2) by (auto simp: allowed_calls_def stage_calls_def metadata_calls_def)
  then show ?thesis using K(1) unfolding kept_set_def kept_by_policies_def [symmetric] by blast
qed

text \<open>C3: a custom tag that is used in Kubernetes is never deleted, nor is any other tag of its stage;
  and no tag of a stage is deleted that a policy keeps.\<close>

theorem Cleanup_keeps_used_tags:
  assumes "\<not> DisableCleanup (ConfigMetaCleanup opts)"
    and "cleanup_init w env opts newCleanupManager = Some (None, s0)" and "m = stageManager s0"
    and "inj_on desc_stageID (set (GetStageDescSet m))" "storage_ok w" "\<And>g. set (group_order env g) = set g"
    and "Cleanup w env opts = Some (e, s)" and "Delete_custom_tag t \<in> set (trace s)"
  shows "\<exists>i tags. (i, tags) \<in> set (GetCustomTagsMetadata m) \<and> t \<in> set tags \<and>
    (\<forall>t' \<in> set tags. \<not> is_deployed (deployed_now env opts) (repo_Address w) t') \<and>
    (\<forall>d \<in> kept_by_policies w env opts m. d \<in> set (GetStageDescSet m) \<longrightarrow> desc_stageID d \<noteq> i)"
proof -
  obtain K where K: "kept_set m (kept_by_policies w env opts m) K" "set (trace s) \<subseteq> allowed_calls m (tag_in_use w env opts) K"
    using Cleanup_safe_end [OF assms(1,2)] assms(3-7) unfolding safe_end_def by blast
  have "free_tag m (tag_in_use w env opts) K t"
    using assms(8) K(2) by (auto simp: allowed_calls_def stage_calls_def metadata_calls_def)
  then obtain i tags where i: "(i, tags) \<in> set (GetCustomTagsMetadata m)" "t \<in> set tags"
    "\<forall>t' \<in> set tags. \<not> tag_in_use w env opts t'" "\<forall>d \<in> set (GetStageDescSet m) \<inter> K. desc_stageID d \<noteq> i"
    unfolding free_tag_def by (elim exE conjE)
  moreover have "kept_by_policies w env opts m \<subseteq> K" using K(1) by (simp add: kept_set_def)
  ultimately show ?thesis unfolding tag_in_use_def by (intro exI [of _ i] exI [of _ tags]) auto
qed

subsection \<open>Dry runs and a disabled cleanup\<close>

lemma keeps_calls_mono: "keeps (calls_in C) f \<Longrightarrow> C \<subseteq> D \<Longrightarrow> keeps (calls_in D) f"
  unfolding keeps_def calls_in_def by (meson subset_trans)

lemma update_calls_in: "keeps (calls_in C) (update_manager f)"
  by (auto simp: keeps_def update_manager_def calls_in_def split: sum.splits)

lemma modify_calls_in: "(\<And>s. trace (f s) = trace s) \<Longrightarrow> keeps (calls_in C) (modify f)"
  by (rule keeps_modify) (simp add: calls_in_def)

text \<open>The calls of every deletion in a dry run: none.\<close>

lemma dry_deletions:
  "keeps (calls_in C) (deleteImageMetadata w True n t)" "keeps (calls_in C) (deleteImportsMetadata w True ids)"
  "keeps (calls_in C) (deleteManagedImages w True images)" "keeps (calls_in C) (deleteCustomTags w True tags)"
  "keeps (calls_in C) (deleteStageDescSet w True b ds isFinal)"
  by (auto simp: deleteImageMetadata_def deleteImportsMetadata_def deleteManagedImages_def deleteCustomTags_def deleteStageDescSet_def)

lemma dry_purges:
  "keeps (calls_in C) (purgeManagedImages w True)" "keeps (calls_in C) (purgeImageMetadata w True)"
  by (auto simp: purgeManagedImages_def purgeImageMetadata_def intro!: keeps_for_each dry_deletions split: sum.splits)

lemma dry_image:
  "keeps (calls_in C) (cleanupImageMetadata w exclude True n hits ids)"
  unfolding cleanupImageMetadata_def delete_counted_def
  by (intro keeps_with keeps_in_order_list) (auto intro: keeps_do_when dry_deletions)

lemma dry_image_cleanup: "DryRun opts \<Longrightarrow> keeps (calls_in C) (image_cleanup w env opts git refs x)"
proof -
  assume "DryRun opts"
  then have "keeps (calls_in C) (in_order [handleSavedStageIDs ids, cleanupImageMetadata w exclude (DryRun opts) n hits ids'])"
    for ids exclude n hits ids'
    unfolding handleSavedStageIDs_def
    by (intro keeps_in_order_list) (auto intro: keeps_for_each update_calls_in dry_image)
  moreover have "keeps (calls_in C) (fail e)" for e by auto
  ultimately show ?thesis
    unfolding image_cleanup_def keeps_def by (auto split: option.splits sum.splits prod.splits)
qed

lemma dry_git: "DryRun opts \<Longrightarrow> keeps (calls_in C) (gitHistoryBasedCleanup w env opts)"
  unfolding gitHistoryBasedCleanup_def cleanupNonexistentImageMetadata_def Let_def
  by (auto simp del: in_order.simps split: sum.splits
      intro!: keeps_in_order_list keeps_with keeps_for_each keeps_do_when dry_image_cleanup dry_deletions)

lemma dry_unused: "keeps (calls_in C) (cleanupUnusedStages w env True)"
proof -
  have "keeps (calls_in C) (load_import w True i)" for i
    unfolding load_import_def by (auto intro!: modify_calls_in dry_deletions split: sum.splits option.splits)
  then have "keeps (calls_in C) (initImportsMetadata w True)"
    unfolding initImportsMetadata_def
    by (intro keeps_in_order_list) (auto intro!: modify_calls_in keeps_for_each split: sum.splits)
  moreover have "keeps (calls_in C) (protect_relatives env)"
    using update_calls_in unfolding keeps_def protect_relatives_def by blast
  moreover have "keeps (calls_in C) (deleteUnusedImportsMetadata w True)"
    using keeps_do_when [OF calls_in_refl dry_deletions(2)] unfolding keeps_def deleteUnusedImportsMetadata_def by blast
  moreover have "keeps (calls_in C) (deleteUnusedCustomTags w True)"
    unfolding deleteUnusedCustomTags_def Let_def by (intro keeps_with keeps_do_when dry_deletions calls_in_refl)
  moreover have "keeps (calls_in C) (with_manager (\<lambda>m. do_when (stages_to_delete m \<noteq> []) (in_order
        [deleteStages w True (stages_to_delete m) False, change_manager (ForgetDeletedStageDescSet (stages_to_delete m))])))"
    unfolding deleteStages_def change_manager_def
    by (intro keeps_with keeps_do_when keeps_in_order_list calls_in_refl calls_in_trans) (simp add: dry_deletions update_calls_in)
  ultimately show ?thesis unfolding cleanupUnusedStages_def by (intro keeps_in_order_list) simp_all
qed

lemma dry_final: "keeps (calls_in C) (cleanupFinalStages w True)"
  unfolding cleanupFinalStages_def deleteStages_def change_manager_def
  by (intro keeps_in_order_list)
    (auto simp del: in_order.simps intro!: keeps_with keeps_do_when keeps_in_order_list update_calls_in dry_deletions)

text \<open>C28: a dry run deletes nothing: the only call it may make is the record of the last cleanup, which
  is posted in a dry run too.\<close>

theorem Cleanup_dry_run:
  assumes "DryRun opts" and "Cleanup w env opts = Some (e, s)"
  shows "set (trace s) \<subseteq> {Post_last_cleanup_record}"
proof -
  let ?C = "{Post_last_cleanup_record}"
  have init: "keeps (calls_in ?C) (cleanup_init w env opts)"
    using init_calls unfolding keeps_def calls_in_def by auto
  have age: "keeps (calls_in ?C) (built_within_policy env opts)" "keeps (calls_in ?C) (markWhitelistStagesAsProtected opts)"
    unfolding built_within_policy_def markWhitelistStagesAsProtected_def change_manager_def
    by (intro keeps_do_when update_calls_in calls_in_refl)+
  have post: "keeps (calls_in ?C) (modify (issue Post_last_cleanup_record))"
    by (rule keeps_modify) (simp add: calls_in_def issue_def)
  have kube: "keeps (calls_in ?C) (kubernetes_policy w env)"
    unfolding kubernetes_policy_def change_manager_def
    by (auto simp del: in_order.simps intro!: keeps_in_order_list update_calls_in split: sum.splits)
  have "keeps (calls_in ?C) (cleanup_run w env opts)"
    unfolding cleanup_run_def
    using assms(1) init age post kube dry_purges dry_git [OF assms(1)] dry_unused dry_final
    by (auto simp del: in_order.simps intro!: keeps_in_order_list keeps_do_when)
  from keepsD [OF this assms(2) [unfolded Cleanup_def]] show ?thesis
    by (auto simp: calls_in_def newCleanupManager_def)
qed

text \<open>With the cleanup disabled in the configuration no stage, no tag and no import metadata is deleted,
  only the managed images and the image metadata.\<close>

theorem Cleanup_disabled:
  assumes "DisableCleanup (ConfigMetaCleanup opts)" and "Cleanup w env opts = Some (e, s)"
  shows "set (trace s) \<subseteq> range Rm_managed_image \<union> {Rm_image_metadata n c i | n c i. True}"
proof -
  let ?C = "range Rm_managed_image \<union> {Rm_image_metadata n c i | n c i. True}"
  have "keeps (calls_in ?C) (cleanup_run w env opts)"
    unfolding cleanup_run_def using assms(1)
    by (auto simp del: in_order.simps split: if_splits
        intro!: keeps_in_order_list adds_calls_in [OF purgeManagedImages_adds] adds_calls_in [OF purgeImageMetadata_adds])
  from keepsD [OF this assms(2) [unfolded Cleanup_def]] show ?thesis
    by (auto simp: calls_in_def newCleanupManager_def)
qed

end
