(* ===== verification/Cleanup_Publishing.thy ===== *)
theory Cleanup_Publishing
  imports Cleanup_Properties
begin

text \<open>
  The git history policy from the outside: what the metadata of the published images and the git
  repository mean for the stages that a cleanup keeps, which metadata it removes, and that it
  ends.
\<close>

subsection \<open>The commits of an image after the init\<close>

definition init_tail where
  "init_tail w env opts =
     [(case final_repo w of None \<Rightarrow> skip | Some (_, answer) \<Rightarrow> update_manager (InitFinalStageDescSet answer)),
      update_manager (InitImagesMetadata (IsCommitExists env) (image_metadata w (ImageNameList opts))),
      update_manager (InitCustomTagsMetadata (custom_tag_ids w) (custom_tag_metadata w))]"

lemma cleanup_to_cleanup_cong:
  "m_imageMetadataList m' = m_imageMetadataList m \<Longrightarrow>
   GetImageStageIDCommitListToCleanup m' = GetImageStageIDCommitListToCleanup m"
  by (simp add: GetImageStageIDCommitListToCleanup_def)

lemma contains_new: "ContainsStageDescByStageID (m\<lparr>m_managedStageDescSet := newManagedStageDescSet ds\<rparr>) i \<longleftrightarrow> i \<in> desc_stageID ` set ds"
proof -
  have "set_inv (newManagedStageDescSet ds)" by (rule set_inv_new)
  then have "i \<in> map_keys (stageDescByStageID (newManagedStageDescSet ds)) \<longleftrightarrow> i \<in> desc_stageID ` set ds"
    by (force simp: set_inv_def newManagedStageDescSet_def)
  then show ?thesis
    by (simp add: ContainsStageDescByStageID_def GetStageDescByStageID_def set_GetStageDescByStageID_def map_of_eq_None_keys)
qed

lemma init_to_cleanup:
  assumes "cleanup_init w env opts newCleanupManager = Some (None, s)"
    and "image_metadata w (ImageNameList opts) = Inr (t, u)" and "stage_descs w = Inr ds"
    and "table_ok t" "table_ok u" "map_keys t \<inter> map_keys u = {}"
    and "\<And>c. IsCommitExists env c = Inr (ex c)"
  shows "slice_get (GetStageIDCommitListToCleanup (stageManager s) n) i =
      (if i \<in> desc_stageID ` set ds then filter ex (slice_get (map_get t n) i) else [])"
proof -
  define ok where "ok = (\<lambda>m :: Manager. m_managedStageDescSet m = newManagedStageDescSet ds)"
  define good where "good = (\<lambda>m. \<forall>n i. slice_get (GetStageIDCommitListToCleanup m n) i =
      (if i \<in> desc_stageID ` set ds then filter ex (slice_get (map_get t n) i) else []))"
  have "triple (\<lambda>s. s = newCleanupManager) (cleanup_init w env opts) (\<lambda>s. good (stageManager s)) (\<lambda>_. True)"
    unfolding cleanup_init_def
  proof (intro triple_Cons)
    show "triple (\<lambda>s. s = newCleanupManager) (update_manager (InitStageDescSet (stage_descs w)))
       (\<lambda>s. ok (stageManager s) \<and> m_imageMetadataList (stageManager s) = []) (\<lambda>_. True)"
      by (auto simp: triple_def update_manager_iff InitStageDescSet_def ok_def assms(3) newCleanupManager_def NewManager_def)
    show "triple (\<lambda>s. ok (stageManager s) \<and> m_imageMetadataList (stageManager s) = [])
       (case final_repo w of None \<Rightarrow> skip | Some (_, answer) \<Rightarrow> update_manager (InitFinalStageDescSet answer))
       (\<lambda>s. ok (stageManager s) \<and> m_imageMetadataList (stageManager s) = []) (\<lambda>_. True)"
      by (auto simp: triple_def skip_def update_manager_iff InitFinalStageDescSet_def ok_def split: option.splits sum.splits)
    show "triple (\<lambda>s. ok (stageManager s) \<and> m_imageMetadataList (stageManager s) = [])
       (update_manager (InitImagesMetadata (IsCommitExists env) (image_metadata w (ImageNameList opts))))
       (\<lambda>s. good (stageManager s)) (\<lambda>_. True)"
    proof (rule tripleI)
      fix s s' assume s: "ok (stageManager s) \<and> m_imageMetadataList (stageManager s) = []"
        and f: "update_manager (InitImagesMetadata (IsCommitExists env) (image_metadata w (ImageNameList opts))) s = Some (None, s')"
      have a: "\<forall>e \<in> set (image_entries t). \<forall>c \<in> set (snd (snd e)). IsCommitExists env c = Inr (ex c)" using assms(7) by simp
      have b: "InitImagesMetadata (IsCommitExists env) (Inr (t, u)) (stageManager s) = Inr (stageManager s')"
        using f by (auto simp: update_manager_iff assms(2) split: sum.splits)
      have c: "ContainsStageDescByStageID (stageManager s) i \<longleftrightarrow> i \<in> desc_stageID ` set ds" for i
        using contains_new [where m = "stageManager s" and ds = ds and i = i] s by (simp add: ok_def ContainsStageDescByStageID_def
            GetStageDescByStageID_def)
      show "good (stageManager s')"
        unfolding good_def InitImagesMetadata_to_cleanup [OF assms(4-6) conjunct2 [OF s] a b] c by simp
    qed simp
    show "triple (\<lambda>s. good (stageManager s)) (update_manager (InitCustomTagsMetadata (custom_tag_ids w) (custom_tag_metadata w)))
       (\<lambda>s. good (stageManager s)) (\<lambda>_. True)"
      by (auto simp: triple_def update_manager_iff InitCustomTagsMetadata_def good_def GetStageIDCommitListToCleanup_def
          GetImageStageIDCommitListToCleanup_def split: sum.splits)
  qed (rule triple_Nil)
  from tripleD [OF this refl assms(1)] show ?thesis by (simp add: good_def)
qed

subsection \<open>Published stages\<close>

lemma to_cleanup_map_ok: "map_ok (GetStageIDCommitListToCleanup m n)" "map_ok (GetImageStageIDCommitListToCleanup m)"
proof -
  have eq: "GetImageStageIDCommitListToCleanup m =
    foldl (\<lambda>r im. if \<not> (im_isNonexistentImage im \<or> im_isNonexistentStage im)
       then slice_append2 (im_imageName im) (im_stageID im) (im_commitList im) r else r) [] (m_imageMetadataList m)"
    unfolding GetImageStageIDCommitListToCleanup_def by (rule arg_cong3 [where f = foldl]) (auto simp: fun_eq_iff)
  show "map_ok (GetStageIDCommitListToCleanup m n)"
    unfolding GetStageIDCommitListToCleanup_def eq map_get_fold_append2 by (rule map_ok_fold_append) simp
  show "map_ok (GetImageStageIDCommitListToCleanup m)" unfolding eq by (rule map_ok_fold_append2) simp
qed

lemma countStageIDCommitList_pos: "map_ok t \<Longrightarrow> c \<in> set (slice_get t i) \<Longrightarrow> countStageIDCommitList t \<noteq> 0"
proof -
  assume "map_ok t" "c \<in> set (slice_get t i)"
  then obtain cs where "(i, cs) \<in> set t" "c \<in> set cs" using slice_get_iff_keys by metis
  then show ?thesis by (auto simp: countStageIDCommitList_def intro!: bexI [of _ "(i, cs)"])
qed

lemma to_cleanup_row:
  assumes "c \<in> set (slice_get (GetStageIDCommitListToCleanup m n) i)"
  shows "(n, GetStageIDCommitListToCleanup m n) \<in> set (GetImageStageIDCommitListToCleanup m)"
  using assms to_cleanup_map_ok(2) [of m]
  by (auto simp: GetStageIDCommitListToCleanup_def map_get_def split: option.splits dest: map_of_SomeD)

text \<open>C2: a stage that was published for a commit is kept as long as the commit can be reached from a
  reference whose policy keeps all its images: when the storage recorded commit \<open>c\<close> for the stage and a
  managed image, the commit exists and is reachable from the head of such a reference among the references to
  scan, then no run of the cleanup deletes the stage.\<close>

theorem Cleanup_keeps_published:
  assumes on: "\<not> DisableCleanup (ConfigMetaCleanup opts)" "\<not> DisableGitHistoryBasedPolicy (ConfigMetaCleanup opts)"
    and init: "cleanup_init w env opts newCleanupManager = Some (None, s0)" and "m = stageManager s0"
    and ok: "inj_on desc_stageID (set (GetStageDescSet m))" "storage_ok w" "\<And>g. set (group_order env g) = set g"
    and run: "Cleanup w env opts = Some (e, s)"
    and git: "LocalGit env = Inr repo" "git_ok (CommitObject repo)" "history (CommitObject repo) U"
      "\<And>c. IsCommitExists env c = Inr (\<exists>co. CommitObject repo c = Inr co)"
    and refs: "ReferencesToScan (sort_refs env) (time_Now env) (Compile_regexp env) repo (KeepPolicies (ConfigMetaCleanup opts)) = Inr refs"
      "\<forall>ref \<in> set refs. ref_ok (CommitObject repo) U ref"
    and lib: "sort_ok (sort_commits env)" "addNew_ok (AddNewStrings env)"
    and tables: "image_metadata w (ImageNameList opts) = Inr (t, u)" "table_ok t" "table_ok u" "map_keys t \<inter> map_keys u = {}"
    and published: "d \<in> set (GetStageDescSet m)" "c \<in> set (slice_get (map_get t n) (desc_stageID d))"
    and reach: "ref \<in> set refs" "keeps_all (CommitObject repo) (GetStageIDCommitListToCleanup m n) ref"
      "reachable (CommitObject repo) [] (commit_hash (HeadCommit ref)) c"
  shows "Delete_stage d \<notin> set (trace s)"
proof -
  let ?git = "CommitObject repo" and ?t = "GetStageIDCommitListToCleanup m n"
  obtain ds where ds: "stage_descs w = Inr ds" "GetStageDescSet m = ds" using init_manager [OF init] assms(4) by auto
  note row = init_to_cleanup [OF init tables(1) ds(1) tables(2-4) git(4), folded assms(4)]
  have "c \<in> U"
    using reach(3)
  proof (induction rule: reachable.induct)
    case head
    then show ?case using refs(2) reach(1) by (simp add: ref_ok_def)
  next
    case (parent c co p)
    then obtain co' where "?git c = Inr co'" "set (commit_parents co') \<subseteq> U" using git(3) by (auto simp: history_def)
    then show ?case using parent.hyps by auto
  qed
  then have "\<exists>co. ?git c = Inr co" using git(3) by (auto simp: history_def)
  then have c: "c \<in> set (slice_get ?t (desc_stageID d))" using row published ds by auto
  have "resolvable ?git ?t"
    unfolding resolvable_def
  proof clarify
    fix i cs c assume "(i, cs) \<in> set ?t" "c \<in> set cs"
    then have "c \<in> set (slice_get ?t i)" using slice_get_mem [OF to_cleanup_map_ok(1)] by simp
    then show "\<exists>co. ?git c = Inr co" using row [of n i] by (auto split: if_splits)
  qed
  from ScanReferencesHistory_result [OF to_cleanup_map_ok(1) this git(2,3) lib refs(2), where now = "time_Now env"] obtain reached hits where
    scan: "ScanReferencesHistory (AddNewStrings env) ?git (time_Now env) (sort_commits env) refs ?t = Some (Inr (reached, hits))"
    "\<forall>ref \<in> set refs. keeps_all ?git ?t ref \<longrightarrow> reachable_stages ?git ?t [] (commit_hash (HeadCommit ref)) \<subseteq> set reached"
    by - (elim exE conjE, rule that)
  have "scan_image env ?git refs ?t = Some (Inr (reached, hits))"
    using scan(1) countStageIDCommitList_pos [OF to_cleanup_map_ok(1) c] by (simp add: scan_image_def)
  moreover have "desc_stageID d \<in> set reached" using bspec [OF scan(2) reach(1)] reach(2,3) c by (auto simp: reachable_stages_def)
  ultimately have "d \<in> reached_for env ?git refs m (n, ?t)" using published(1) by (auto simp: reached_for_def)
  then have "d \<in> kept_by_git env opts m" using on(2) git(1) refs(1) to_cleanup_row [OF c] by (auto simp: kept_by_git_def)
  then have X: "d \<in> kept_by_policies w env opts m" by (simp add: kept_by_policies_def)
  obtain K where "kept_set m (kept_by_policies w env opts m) K" "set (trace s) \<subseteq> allowed_calls m (tag_in_use w env opts) K"
    using Cleanup_safe_end [OF on(1) init _ ok(2,3) run] ok(1) assms(4) unfolding safe_end_def by blast
  then show ?thesis using X by (auto simp: kept_set_def allowed_calls_def stage_calls_def metadata_calls_def)
qed

subsection \<open>Termination\<close>

definition total :: "'s step \<Rightarrow> bool" where
  "total f \<longleftrightarrow> (\<forall>s. f s \<noteq> None)"

named_theorems totals \<open>steps that always return\<close>

lemma total_basic [totals]: "total skip" "total (fail e)" "total (modify g)" "total (update_manager h)" "total (change_manager k)" "total (call w c)"
  by (auto simp: total_def skip_def fail_def modify_def update_manager_def change_manager_def call_def split: sum.splits option.splits)

lemma total_and_then [totals]: "total f \<Longrightarrow> total g \<Longrightarrow> total (and_then f g)"
  by (auto simp: total_def and_then_def split: option.splits)

lemma total_for_each [totals]: "(\<And>x. total (f x)) \<Longrightarrow> total (for_each f xs)"
  by (induction xs) (auto intro: totals)

lemma total_in_order: "list_all total fs \<Longrightarrow> total (in_order fs)"
  by (induction fs) (auto intro: totals)

lemma total_when [totals]: "total f \<Longrightarrow> total (do_when b f)"
  by (simp add: do_when_def totals)

lemma total_with [totals]: "(\<And>m. total (f m)) \<Longrightarrow> total (with_manager f)"
  by (auto simp: total_def with_manager_def)

lemma total_deletions [totals]:
  "total (deleteImageMetadata w b n t)" "total (deleteImportsMetadata w b ids)" "total (deleteManagedImages w b images)"
  "total (deleteCustomTags w b tags)" "total (deleteStageDescSet w b c ds isFinal)" "total (purgeManagedImages w b)"
  "total (purgeImageMetadata w b)"
proof -
  have tag: "total (delete_custom_tag w t)" for t
    by (auto simp: total_def delete_custom_tag_def call_def split: option.splits)
  have im: "total (deleteImageMetadata w b n t)" for n t by (auto simp: deleteImageMetadata_def intro!: totals)
  have mi: "total (deleteManagedImages w b images)" for images by (auto simp: deleteManagedImages_def intro!: totals)
  show "total (deleteImageMetadata w b n t)" "total (deleteManagedImages w b images)" by (rule im, rule mi)
  show "total (deleteImportsMetadata w b ids)" "total (deleteCustomTags w b tags)" "total (deleteStageDescSet w b c ds isFinal)"
    by (auto simp: deleteImportsMetadata_def deleteCustomTags_def deleteStageDescSet_def intro!: totals tag split: option.splits sum.splits)
  show "total (purgeManagedImages w b)" "total (purgeImageMetadata w b)"
    using im mi by (auto simp: purgeManagedImages_def purgeImageMetadata_def intro!: totals split: sum.splits)
qed

lemma total_phases [totals]:
  "total (cleanup_init w env opts)" "total (kubernetes_policy w env)" "total (built_within_policy env opts)"
  "total (markWhitelistStagesAsProtected opts)" "total (cleanupImageMetadata w exclude b n hits ids)"
  "total (cleanupNonexistentImageMetadata w b)" "total (handleSavedStageIDs ids)" "total (cleanupFinalStages w b)"
  by (auto simp: cleanup_init_def kubernetes_policy_def built_within_policy_def markWhitelistStagesAsProtected_def
      cleanupImageMetadata_def delete_counted_def cleanupNonexistentImageMetadata_def Let_def handleSavedStageIDs_def
      cleanupFinalStages_def deleteStages_def intro!: totals split: sum.splits option.splits)

lemma total_unused: "total (cleanupUnusedStages w env b)"
proof -
  have "total (load_import w b i)" for i
    unfolding load_import_def by (auto intro!: totals split: sum.splits option.splits)
  then have "total (initImportsMetadata w b)"
    by (auto simp: initImportsMetadata_def intro!: totals split: sum.splits)
  moreover have "total (protect_relatives env)" "total (deleteUnusedImportsMetadata w b)"
    using total_basic(4) total_when [OF total_deletions(2)]
    unfolding total_def protect_relatives_def deleteUnusedImportsMetadata_def by blast+
  ultimately show ?thesis
    unfolding cleanupUnusedStages_def deleteUnusedCustomTags_def deleteStages_def Let_def by (auto intro!: totals)
qed

lemma image_cleanup_returns:
  "(scan_image env git refs t \<noteq> None) \<Longrightarrow> image_cleanup w env opts git refs (n, t) s \<noteq> None"
proof -
  assume scan: "scan_image env git refs t \<noteq> None"
  have "total (in_order [handleSavedStageIDs ids, cleanupImageMetadata w exclude b n hits ids'])" for ids exclude b hits ids'
    by (auto intro!: totals)
  then show ?thesis using scan by (auto simp: image_cleanup_def total_def fail_def split: option.splits sum.splits)
qed

lemma for_each_image_returns:
  "\<forall>x \<in> set xs. scan_image env git refs (snd x) \<noteq> None \<Longrightarrow> total (for_each (image_cleanup w env opts git refs) xs)"
proof (induction xs)
  case (Cons x xs)
  then have "total (image_cleanup w env opts git refs x)"
    using image_cleanup_returns [of env git refs "snd x" w opts "fst x"] by (simp add: total_def)
  then show ?case using Cons by (auto intro: totals)
qed (simp add: totals)

text \<open>C9: the cleanup returns: whatever the storage, the clusters and the git repository answer, errors included, and whatever the
  options are, the run ends, with nil, an error or a crash (a panic of the code is an error of its own). The only loop without a bound of its own is the search
  of the history; it ends even in a cyclic or broken history, because the repository has finitely many commits
  and every level of the search but the last reads one of them for the first time.\<close>

theorem Cleanup_returns:
  assumes git: "\<And>repo. LocalGit env = Inr repo \<Longrightarrow> finite {c. \<exists>co. CommitObject repo c = Inr co}"
  shows "\<exists>e s. Cleanup w env opts = Some (e, s)"
proof -
  have images: "total (for_each (image_cleanup w env opts (CommitObject repo) refs) xs)" if "LocalGit env = Inr repo" for repo refs xs
    using ScanReferencesHistory_returns [of "CommitObject repo"] git [OF that]
    by (intro for_each_image_returns) (auto simp: scan_image_def readable_def)
  have history: "total (gitHistoryBasedCleanup w env opts)"
  proof (cases "LocalGit env")
    case (Inr repo)
    show ?thesis unfolding gitHistoryBasedCleanup_def Inr sum.case
      by (cases "ReferencesToScan (sort_refs env) (time_Now env) (Compile_regexp env) repo (KeepPolicies (ConfigMetaCleanup opts))")
        (simp_all add: totals total_in_order images [OF Inr])
  qed (simp add: gitHistoryBasedCleanup_def totals)
  have "total (cleanup_run w env opts)"
    unfolding cleanup_run_def by (auto intro!: totals history total_unused)
  then show ?thesis by (auto simp: Cleanup_def total_def)
qed

end
