(* ===== verification/Cleanup_Exact.thy ===== *)
theory Cleanup_Exact
  imports Cleanup_Publishing
begin

text \<open>
  What the steps of the cleanup and the purge do exactly when the storage obeys: the stages, the final stages
  and the metadata that are removed, no more and no less; and the age up to which a stage counts
  as built recently.
\<close>

subsection \<open>A storage that obeys\<close>

definition obeys :: "storage \<Rightarrow> bool" where
  "obeys w \<longleftrightarrow> (\<forall>c. outcome w c = None)"

definition issues :: "storage_call list \<Rightarrow> cleanupManager \<Rightarrow> cleanupManager" where
  "issues cs s = s\<lparr>trace := trace s @ cs\<rparr>"

lemma issues_simps [simp]:
  "trace (issues cs s) = trace s @ cs" "stageManager (issues cs s) = stageManager s"
  "issues cs' (issues cs s) = issues (cs @ cs') s" "issues [] s = s"
  "sourceStageIDImportIDs (issues cs s) = sourceStageIDImportIDs s"
  "checksumSourceStageIDs (issues cs s) = checksumSourceStageIDs s"
  by (simp_all add: issues_def)

lemma call_obeys: "obeys w \<Longrightarrow> call w c s = Some (None, issues [c] s)"
  by (simp add: obeys_def call_def issue_def issues_def)

lemma calls_obey: "obeys w \<Longrightarrow> for_each (\<lambda>x. call w (c x)) xs s = Some (None, issues (map c xs) s)"
  by (induction xs arbitrary: s) (simp_all add: skip_def and_then_def call_obeys)

definition image_calls :: "string \<Rightarrow> commit_map \<Rightarrow> storage_call list" where
  "image_calls n t = concat (map (\<lambda>(i, cs). map (\<lambda>c. Rm_image_metadata n c i) cs) t)"

lemma deleteImageMetadata_obeys:
  assumes "obeys w"
  shows "deleteImageMetadata w False n t s = Some (None, issues (image_calls n t) s)"
proof -
  have "for_each (\<lambda>(stageID, commits). for_each (\<lambda>commit. call w (Rm_image_metadata n commit stageID)) commits) t s =
      Some (None, issues (image_calls n t) s)" for s
    by (induction t arbitrary: s)
      (auto simp: image_calls_def skip_def and_then_def calls_obey [OF assms])
  then show ?thesis by (simp add: deleteImageMetadata_def)
qed

lemma custom_tags_obey:
  "obeys w \<Longrightarrow> deleteCustomTags w False tags s =
     Some (None, issues (concat (map (\<lambda>t. [Delete_custom_tag t, Unregister_custom_tag t]) tags)) s)"
proof -
  assume w: "obeys w"
  have one: "delete_custom_tag w t s = Some (None, issues [Delete_custom_tag t, Unregister_custom_tag t] s)" for t s
    using w by (simp add: delete_custom_tag_def obeys_def call_def issue_def issues_def)
  have "for_each (delete_custom_tag w) tags s =
      Some (None, issues (concat (map (\<lambda>t. [Delete_custom_tag t, Unregister_custom_tag t]) tags)) s)" for s
    by (induction tags arbitrary: s) (simp_all add: skip_def and_then_def one)
  then show ?thesis by (simp add: deleteCustomTags_def)
qed

lemma stages_obey:
  "obeys w \<Longrightarrow> filter_local w = None \<Longrightarrow> deleteStageDescSet w False b ds isFinal s =
     Some (None, issues (map (if isFinal then Delete_final_stage else Delete_stage) ds) s)"
  by (simp add: deleteStageDescSet_def calls_obey)

lemma final_stages_obey:
  "obeys w \<Longrightarrow> deleteStageDescSet w False b ds True s = Some (None, issues (map Delete_final_stage ds) s)"
  by (simp add: deleteStageDescSet_def calls_obey)

lemma imports_obey:
  "obeys w \<Longrightarrow> deleteImportsMetadata w False ids s = Some (None, issues (map Rm_import_metadata ids) s)"
  by (simp add: deleteImportsMetadata_def calls_obey)

subsection \<open>Purge\<close>

text \<open>C27: a purge of a storage that obeys removes everything it finds, each thing once and in
  this order: the stages, the import metadata, the managed images, the image metadata of the images that
  are not managed any more, the custom tags, the final stages.\<close>

theorem Purge_removes_everything:
  assumes "obeys w" "filter_local w = None" "stage_descs w = Inr ds" "import_metadata_ids w = Inr ids"
    and "managed_images w = Inr images" "image_metadata w [] = Inr (t, u)"
    and "GetCustomTagsMetadata_answer (custom_tag_ids w) (custom_tag_metadata w) = Inr tags"
    and "final_repo w = Some (a, Inr fds)"
  shows "\<exists>s. Purge w False = Some (None, s) \<and> trace s =
    map Delete_stage ds @ map Rm_import_metadata ids @ map Rm_managed_image images @
    concat (map (\<lambda>(n, inner). image_calls n inner) u) @
    concat (map (\<lambda>x. [Delete_custom_tag x, Unregister_custom_tag x]) (concat (map snd tags))) @
    map Delete_final_stage fds"
proof -
  have images: "for_each (\<lambda>(n, inner). deleteImageMetadata w False n inner) u s =
      Some (None, issues (concat (map (\<lambda>(n, inner). image_calls n inner) u)) s)" for s
    by (induction u arbitrary: s) (auto simp: skip_def and_then_def deleteImageMetadata_obeys [OF assms(1)])
  show ?thesis
    by (simp add: Purge_def purge_run_def assms(3-8) and_then_def skip_def stages_obey [OF assms(1,2)]
        imports_obey [OF assms(1)] purgeManagedImages_def deleteManagedImages_def calls_obey [OF assms(1)] purgeImageMetadata_def
        images custom_tags_obey [OF assms(1)] final_stages_obey [OF assms(1)]) (simp add: newCleanupManager_def)
qed

subsection \<open>Image metadata\<close>

lemma image_calls_mem: "map_ok t \<Longrightarrow> Rm_image_metadata n c i \<in> set (image_calls n t) \<longleftrightarrow> c \<in> set (slice_get t i)"
  by (auto simp: image_calls_def slice_get_iff_keys)

lemma image_calls_only: "x \<in> set (image_calls n t) \<Longrightarrow> \<exists>c i. x = Rm_image_metadata n c i"
  by (auto simp: image_calls_def)

lemma image_calls_empty: "countStageIDCommitList t = 0 \<Longrightarrow> image_calls n t = []"
  by (induction t) (auto simp: image_calls_def countStageIDCommitList_def)

lemma delete_counted_obeys: "obeys w \<Longrightarrow> delete_counted w False n t s = Some (None, issues (image_calls n t) s)"
  by (simp add: delete_counted_def do_when_def deleteImageMetadata_obeys skip_def image_calls_empty)

lemma nonexistent_map_ok: "map_ok (GetNonexistentStageIDCommitList m n)" "map_ok (GetStageIDNonexistentCommitList m n)"
proof -
  have "GetNonexistentStageIDCommitList m n =
    foldl (\<lambda>r im. if im_isNonexistentStage im \<and> im_imageName im = n
       then slice_append (im_stageID im) (im_commitList im @ im_commitListToDelete im) r else r) [] (m_imageMetadataList m)"
    unfolding GetNonexistentStageIDCommitList_def by (rule arg_cong3 [where f = foldl]) (auto simp: fun_eq_iff)
  then show "map_ok (GetNonexistentStageIDCommitList m n)" by (simp only: map_ok_fold_append list.map distinct.simps)
  have "GetStageIDNonexistentCommitList m n =
    foldl (\<lambda>r im. if \<not> im_isNonexistentStage im \<and> im_imageName im = n
       then slice_append (im_stageID im) (im_commitListToDelete im) r else r) [] (m_imageMetadataList m)"
    unfolding GetStageIDNonexistentCommitList_def by (rule arg_cong3 [where f = foldl]) (auto simp: fun_eq_iff)
  then show "map_ok (GetStageIDNonexistentCommitList m n)" by (simp only: map_ok_fold_append list.map distinct.simps)
qed

lemma commits_to_delete_get:
  assumes "map_ok t"
  shows "slice_get (commits_to_delete exclude hits unlink t) i =
    (if i \<in> set unlink then slice_get t i
     else case map_of t i of None \<Rightarrow> [] | Some cs \<Rightarrow> (case map_of hits i of None \<Rightarrow> cs | Some hit \<Rightarrow> exclude cs hit))"
proof -
  have "map_of (commits_to_delete exclude hits unlink t) i = map_option (\<lambda>cs. if i \<in> set unlink then cs
      else case map_of hits i of None \<Rightarrow> cs | Some hit \<Rightarrow> exclude cs hit) (map_of t i)"
    unfolding commits_to_delete_def
  proof (induction t)
    case (Cons x t)
    then show ?case by (cases x) simp
  qed simp
  then show ?thesis by (simp add: slice_get_def split: option.splits)
qed

text \<open>C25: the metadata of an image after the scan of its commits: removed are exactly the commits of stages that
  were not reached, the commits of reached stages that were not hit, and all commits recorded for a stage or
  under a commit that does not exist any more; the commits that were hit stay.\<close>

theorem cleanupImageMetadata_exact:
  fixes exclude :: "string list \<Rightarrow> string list \<Rightarrow> string list" and n :: string and s :: cleanupManager
  assumes "obeys w" and "\<And>xs ys. set (exclude xs ys) = set xs - set ys"
    and "map_keys hits = set reached" "map_ok hits" "\<forall>i \<in> set reached. slice_get hits i \<noteq> []"
  defines "t \<equiv> GetStageIDCommitListToCleanup (stageManager s) n"
  assumes "set reached \<subseteq> map_keys t"
  shows "\<exists>cs. cleanupImageMetadata w exclude False n hits (filter (\<lambda>i. i \<notin> set reached) (map fst t)) s = Some (None, issues cs s) \<and>
    (\<forall>x \<in> set cs. \<exists>c i. x = Rm_image_metadata n c i) \<and>
    (\<forall>c i. Rm_image_metadata n c i \<in> set cs \<longleftrightarrow>
       (c \<in> set (slice_get t i) \<and> (i \<notin> set reached \<or> c \<notin> set (slice_get hits i))) \<or>
       c \<in> set (slice_get (GetNonexistentStageIDCommitList (stageManager s) n) i) \<or>
       c \<in> set (slice_get (GetStageIDNonexistentCommitList (stageManager s) n) i))"
proof -
  let ?unlink = "filter (\<lambda>i. i \<notin> set reached) (map fst t)" and ?m = "stageManager s"
  let ?del = "commits_to_delete exclude hits ?unlink t"
  let ?guard = "countStageIDCommitList hits \<noteq> 0 \<or> ?unlink \<noteq> []"
  have t: "map_ok t" by (simp add: t_def to_cleanup_map_ok)
  then have del: "map_ok ?del" by (simp add: commits_to_delete_def case_prod_beta comp_def)
  have mem: "c \<in> set (slice_get ?del i) \<longleftrightarrow> c \<in> set (slice_get t i) \<and> (i \<notin> set reached \<or> c \<notin> set (slice_get hits i))" for c i
  proof (cases "i \<in> map_keys t")
    case False
    then have none: "map_of t i = None" "slice_get t i = []" by (simp_all add: map_of_eq_None_keys slice_get_notin)
    then show ?thesis unfolding commits_to_delete_get [OF t] by simp
  next
    case True
    show ?thesis
    proof (cases "i \<in> set reached")
      case False
      then have "i \<in> set ?unlink" using True by auto
      then show ?thesis using False by (simp only: commits_to_delete_get [OF t] if_True) simp
    next
      case r: True
      then obtain hit cs where "map_of hits i = Some hit" "map_of t i = Some cs"
        using assms(3) True by (metis map_of_eq_None_keys not_None_eq)
      then show ?thesis unfolding commits_to_delete_get [OF t] using r assms(2) by (simp add: slice_get_def)
    qed
  qed
  have guard: "slice_get t i = []" if "\<not> ?guard" for i
  proof (rule ccontr)
    assume "slice_get t i \<noteq> []"
    then have i: "i \<in> map_keys t" using slice_get_notin by metis
    then have "i \<in> set reached" using that by (auto simp: filter_empty_conv)
    then obtain c where "c \<in> set (slice_get hits i)" using assms(5) by (metis list.set_intros(1) neq_Nil_conv)
    then show False using countStageIDCommitList_pos [OF assms(4)] that by blast
  qed
  define first where "first = (if ?guard then image_calls n ?del else [])"
  have first: "Rm_image_metadata n c i \<in> set first \<longleftrightarrow>
      c \<in> set (slice_get t i) \<and> (i \<notin> set reached \<or> c \<notin> set (slice_get hits i))" for c i
  proof (cases ?guard)
    case True
    then show ?thesis unfolding first_def by (simp only: if_True image_calls_mem [OF del] mem)
  next
    case False
    then show ?thesis unfolding first_def using guard [OF False, of i] by (simp only: if_False) simp
  qed
  let ?cs = "first @ image_calls n (GetNonexistentStageIDCommitList ?m n) @ image_calls n (GetStageIDNonexistentCommitList ?m n)"
  have "do_when ?guard (delete_counted w False n ?del) s = Some (None, issues first s)"
    by (simp add: do_when_def first_def delete_counted_obeys [OF assms(1)] skip_def)
  then have "cleanupImageMetadata w exclude False n hits ?unlink s = Some (None, issues ?cs s)"
    by (simp add: cleanupImageMetadata_def with_manager_def t_def [symmetric] and_then_def
        delete_counted_obeys [OF assms(1)] skip_def)
  moreover have "\<forall>x \<in> set ?cs. \<exists>c i. x = Rm_image_metadata n c i"
    using image_calls_only by (auto simp: first_def split: if_splits)
  moreover have "Rm_image_metadata n c i \<in> set ?cs \<longleftrightarrow>
       (c \<in> set (slice_get t i) \<and> (i \<notin> set reached \<or> c \<notin> set (slice_get hits i))) \<or>
       c \<in> set (slice_get (GetNonexistentStageIDCommitList (stageManager s) n) i) \<or>
       c \<in> set (slice_get (GetStageIDNonexistentCommitList (stageManager s) n) i)" for c i
    using first by (simp add: image_calls_mem nonexistent_map_ok)
  ultimately show ?thesis by blast
qed

subsection \<open>Stages\<close>

lemma in_order_Cons_Some:
  "in_order (f # fs) s = Some (None, s') \<longleftrightarrow> (\<exists>s1. f s = Some (None, s1) \<and> in_order fs s1 = Some (None, s'))"
  by (auto simp: and_then_def split: option.splits)

lemma in_order_Nil_Some: "in_order [] s = Some (None, s') \<longleftrightarrow> s' = s"
  by (auto simp: skip_def)

text \<open>No other call than \<open>Delete_stage\<close>.\<close>

definition no_stage_calls :: "storage_call set" where
  "no_stage_calls = - range Delete_stage"

lemma tags_no_stage: "keeps (adds_only no_stage_calls) (deleteUnusedCustomTags w b)"
  unfolding deleteUnusedCustomTags_def Let_def
  by (intro keeps_with keeps_do_when)
    (auto intro!: keeps_adds_mono [OF deleteCustomTags_adds] simp: no_stage_calls_def split: if_splits)

lemma del_imports_no_stage: "keeps (adds_only no_stage_calls) (deleteImportsMetadata w b ids)"
  by (rule keeps_adds_mono [OF deleteImportsMetadata_adds]) (auto simp: no_stage_calls_def split: if_splits)

lemma imports_no_stage: "keeps (adds_only no_stage_calls) (deleteUnusedImportsMetadata w b)"
proof -
  have "keeps (adds_only no_stage_calls) (do_when c (deleteImportsMetadata w b ids))" for c ids
    by (intro keeps_do_when del_imports_no_stage) simp
  then show ?thesis unfolding keeps_def deleteUnusedImportsMetadata_def by blast
qed

lemma init_imports_keeps:
  "keeps (\<lambda>s s'. stageManager s' = stageManager s \<and> (\<exists>cs. trace s' = trace s @ cs \<and> set cs \<subseteq> no_stage_calls)) (initImportsMetadata w b)"
proof -
  let ?R = "\<lambda>s s'. stageManager s' = stageManager s \<and> (\<exists>cs. trace s' = trace s @ cs \<and> set cs \<subseteq> no_stage_calls)"
  have refl: "reflp ?R" by (auto simp: reflp_def)
  have trans: "transp ?R" by (fastforce simp: transp_def append_eq_append_conv2)
  have del: "keeps ?R (deleteImportsMetadata w b ids)" for ids
    using del_imports_no_stage by (auto simp: keeps_def adds_only_def)
  have m: "keeps ?R (modify f)" if "\<And>s. stageManager (f s) = stageManager s \<and> trace (f s) = trace s" for f
    by (rule keeps_modify) (simp add: that)
  have load: "keeps ?R (load_import w b i)" for i
    unfolding load_import_def using del keeps_fail [OF refl] by (auto intro!: m split: sum.splits option.splits)
  show ?thesis
    unfolding initImportsMetadata_def
    by (intro keeps_in_order_list refl trans)
      (auto intro!: m keeps_for_each refl trans load keeps_fail [OF refl] split: sum.splits)
qed

text \<open>C6: which stages the cleanup of unused stages deletes, exactly: there is a set \<open>K\<close> such that every stage of the repo outside of \<open>K\<close>
  is deleted and forgotten, and none in \<open>K\<close> is. \<open>K\<close> has the protected stages; it is closed under parents (those of an index excepted that is
  protected itself, whose platform images are in \<open>K\<close> instead), and under the sources of imports and dependencies as well unless a
  stage is protected by the Git history policy; nothing else is in \<open>K\<close> than stages that a protected stage leads to.\<close>

theorem cleanupUnusedStages_exact:
  assumes "obeys w" "filter_local w = None" "\<And>g. set (group_order env g) = set g"
    and "manager_inv (stageManager s)" and "set (trace s) \<subseteq> no_stage_calls"
    and "cleanupUnusedStages w env False s = Some (None, s')"
  defines "m \<equiv> stageManager s" and "P \<equiv> set (GetProtectedStageDescSet (stageManager s))"
  shows "\<exists>s1 K. initImportsMetadata w False s = Some (None, s1) \<and> P \<subseteq> K \<and>
    (\<forall>d \<in> K. d \<notin> P \<or> \<not> iIsIndex (desc_info d) \<longrightarrow> fst ` set (parents m d) \<subseteq> K) \<and>
    (\<forall>d \<in> P. iIsIndex (desc_info d) \<longrightarrow> platform_covered (iIndex (desc_info d)) (GetStageDescSet m) K) \<and>
    ((\<forall>d \<in> P. reason_of_stage m d \<noteq> Some ProtectionReasonGitPolicy) \<longrightarrow>
       (\<forall>d \<in> K. d \<notin> P \<or> \<not> iIsIndex (desc_info d) \<longrightarrow> fst ` set (relatives (checksumSourceStageIDs s1) True m d) \<subseteq> K)) \<and>
    (\<forall>x \<in> K. \<exists>d \<in> P. kept_by (checksumSourceStageIDs s1) m d x) \<and>
    (\<forall>d. Delete_stage d \<in> set (trace s') \<longleftrightarrow> d \<in> set (GetStageDescSet m) \<and> d \<notin> K) \<and>
    set (GetStageDescSet (stageManager s')) = set (GetStageDescSet m) \<inter> K"
proof -
  obtain s1 s2 s3 s4 where steps: "initImportsMetadata w False s = Some (None, s1)"
    "protect_relatives env s1 = Some (None, s2)"
    "with_manager (\<lambda>m. do_when (stages_to_delete m \<noteq> []) (in_order
        [deleteStages w False (stages_to_delete m) False, change_manager (ForgetDeletedStageDescSet (stages_to_delete m))])) s2 = Some (None, s3)"
    "deleteUnusedCustomTags w False s3 = Some (None, s4)" "deleteUnusedImportsMetadata w False s4 = Some (None, s')"
    using assms(6) unfolding cleanupUnusedStages_def in_order_Cons_Some in_order_Nil_Some by blast
  have s1: "stageManager s1 = stageManager s" "set (trace s1) \<subseteq> no_stage_calls"
    using keepsD [OF init_imports_keeps steps(1)] assms(5) by auto
  obtain m2 where m2: "protect_groups (group_order env) (checksumSourceStageIDs s1) (stageManager s) = Inr m2"
    "s2 = s1\<lparr>stageManager := m2\<rparr>"
    using steps(2) s1(1) by (auto simp: protect_relatives_def update_manager_iff split: sum.splits)
  note c = protect_groups_closed [OF m2(1) assms(4,3)]
  let ?K = "set (GetProtectedStageDescSet m2)" and ?D = "stages_to_delete m2"
  have L: "GetStageDescSet m2 = GetStageDescSet (stageManager s)" using c by auto
  have D: "set ?D = set (GetStageDescSet (stageManager s)) - ?K" by (simp add: stages_to_delete_def L)
  have s3: "trace s3 = trace s1 @ map Delete_stage ?D \<and>
      set (GetStageDescSet (stageManager s3)) = set (GetStageDescSet (stageManager s)) \<inter> ?K"
  proof (cases "?D = []")
    case True
    then have "s3 = s2" using steps(3) m2(2) by (simp add: with_manager_def do_when_def skip_def)
    then show ?thesis using True D L m2(2) by auto
  next
    case False
    then have "s3 = (issues (map Delete_stage ?D) s2)\<lparr>stageManager := ForgetDeletedStageDescSet ?D m2\<rparr>"
      using steps(3) m2(2)
      by (simp add: with_manager_def do_when_def and_then_def deleteStages_def stages_obey [OF assms(1,2)]
          change_manager_def update_manager_def skip_def)
    moreover have "set (GetStageDescSet (ForgetDeletedStageDescSet ?D m2)) = set (GetStageDescSet m2) - set ?D"
      by (simp add: GetStageDescSet_def ForgetDeletedStageDescSet_def DifferenceInPlace_def)
    ultimately show ?thesis using D L m2(2) by auto
  qed
  have rest: "\<exists>cs. trace s' = trace s3 @ cs \<and> set cs \<subseteq> no_stage_calls" "stageManager s' = stageManager s3"
    using keepsD [OF tags_no_stage steps(4)] keepsD [OF imports_no_stage steps(5)] by (auto simp: adds_only_def)
  have "Delete_stage d \<in> set (trace s') \<longleftrightarrow> d \<in> set (GetStageDescSet (stageManager s)) \<and> d \<notin> ?K" for d
  proof -
    obtain cs where cs: "trace s' = trace s1 @ map Delete_stage ?D @ cs" "set cs \<subseteq> no_stage_calls"
      using rest(1) s3 by auto
    have "Delete_stage d \<notin> set (trace s1)" "Delete_stage d \<notin> set cs"
      using s1(2) cs(2) by (auto simp: no_stage_calls_def)
    then show ?thesis by (simp add: cs(1) image_iff D)
  qed
  moreover note protect_groups_sourced [OF m2(1) assms(4,3)]
  moreover have "set (GetStageDescSet (stageManager s')) = set (GetStageDescSet (stageManager s)) \<inter> ?K" using s3 rest(2) by simp
  ultimately show ?thesis using c steps(1) unfolding m_def P_def by (intro exI [of _ s1] exI [of _ ?K]) blast
qed

text \<open>C26: the cleanup of the final repo deletes a final stage exactly when it is not in use in Kubernetes and
  its stage is still in the repo; a final stage whose stage is gone is kept.\<close>

theorem cleanupFinalStages_exact:
  assumes "obeys w" and "manager_inv (stageManager s)"
  defines "m \<equiv> stageManager s"
  shows "\<exists>ds s'. cleanupFinalStages w False s = Some (None, s') \<and> trace s' = trace s @ map Delete_final_stage ds \<and>
    set ds = {d \<in> set (GetFinalStageDescSet m). d \<notin> set (GetFinalProtectedStageDescSet m) \<and>
       (\<exists>d' \<in> set (GetStageDescSet m). StageID_IsEqual (desc_id d') (desc_id d))}"
proof -
  let ?m = "protect_not_found m" and ?P = "\<lambda>d. \<not> (\<exists>d' \<in> set (GetStageDescSet m). StageID_IsEqual (desc_id d') (desc_id d))"
  have inv: "manager_inv m" using assms(2) by (simp add: m_def)
  have "GetFinalStageDescSet (foldl (\<lambda>m' d. if ?P d then MarkFinalStageDescAsProtected d r b m' else m') m0 ds) = GetFinalStageDescSet m0"
    for r b m0 ds
  proof (induction ds arbitrary: m0)
    case (Cons d ds)
    have "GetFinalStageDescSet (if ?P d then MarkFinalStageDescAsProtected d r b m0 else m0) = GetFinalStageDescSet m0"
      by (simp only: split: if_split) (simp add: GetFinalStageDescSet_def MarkFinalStageDescAsProtected_def)
    then show ?case using Cons.IH by simp
  qed simp
  then have same: "GetFinalStageDescSet ?m = GetFinalStageDescSet m" unfolding protect_not_found_def .
  have prot: "set (GetFinalProtectedStageDescSet ?m) = set (GetFinalProtectedStageDescSet m) \<union> {d \<in> set (GetFinalStageDescSet m). ?P d}"
    unfolding protect_not_found_def by (rule final.protected_marks [OF inv])
  let ?D = "final_stages_to_delete ?m"
  have D: "set ?D = {d \<in> set (GetFinalStageDescSet m). d \<notin> set (GetFinalProtectedStageDescSet m) \<and> \<not> ?P d}"
    by (auto simp: final_stages_to_delete_def same prot)
  have "\<exists>s'. cleanupFinalStages w False s = Some (None, s') \<and> trace s' = trace s @ map Delete_final_stage ?D"
    by (simp add: cleanupFinalStages_def and_then_def change_manager_def update_manager_def with_manager_def do_when_def
        deleteStages_def final_stages_obey [OF assms(1)] skip_def m_def [symmetric])
  then show ?thesis using D by (intro exI [of _ ?D]) auto
qed

subsection \<open>Age\<close>

text \<open>What the theorem needs of the rounding to float64: it is monotone and exact on the integers up to \<open>2 ^ 53\<close>.\<close>

definition float64_ok :: "(rat \<Rightarrow> rat) \<Rightarrow> bool" where
  "float64_ok rnd \<longleftrightarrow> (\<forall>x y. x \<le> y \<longrightarrow> rnd x \<le> rnd y) \<and> (\<forall>i :: int. \<bar>i\<bar> \<le> 2 ^ 53 \<longrightarrow> rnd (of_int i) = of_int i)"

lemma Hours_upper:
  assumes rnd: "float64_ok rnd" and "d \<le> int n * hour" "- (2 ^ 63) \<le> d" "n \<le> 2 ^ 53"
  shows "Hours rnd d \<le> of_nat n"
proof -
  let ?h = "go_div d hour" and ?r = "go_mod d hour"
  have mono: "rnd x \<le> rnd y" if "x \<le> y" for x y using rnd that by (simp add: float64_ok_def)
  have ex: "rnd (of_int i) = of_int i" if "\<bar>i\<bar> \<le> 2 ^ 53" for i using rnd that by (simp add: float64_ok_def)
  have hour: "0 < hour" by (simp add: hour_def)
  have "int n \<le> 2 ^ 53" using assms(4) by simp
  then have n: "rnd (of_nat n) = of_nat n" using ex [of "int n"] by simp
  show ?thesis
  proof (cases "0 \<le> d")
    case True
    have eq: "?h = d div hour" "?r = d mod hour"
      using True hour by (cases "d = 0"; simp add: go_div_def go_mod_def minus_div_mult_eq_mod)+
    have h: "0 \<le> ?h" "?h \<le> int n" "0 \<le> ?r" "?r < hour"
      using True hour assms(2) zdiv_mono1 [of d "int n * hour" hour] by (auto simp: eq pos_imp_zdiv_nonneg_iff)
    have rh: "rnd (of_int ?h) = of_int ?h" using h assms(4) by (intro ex) auto
    have rr: "rnd (of_int ?r) = of_int ?r" using h by (intro ex) (auto simp: hour_def)
    have "rnd (of_int ?h) + rnd (rnd (of_int ?r) / of_int hour) \<le> of_nat n"
    proof (cases "?h = int n")
      case True
      then have "?r = 0" using assms(2) h(3) go_mod_div [of d hour] by (simp add: mult.commute)
      moreover have "rnd 0 = 0" using ex [of 0] by simp
      ultimately show ?thesis using rh True by simp
    next
      case False
      then have "?h + 1 \<le> int n" using h by simp
      then have "(of_int (?h + 1) :: rat) \<le> of_int (int n)" by (simp only: of_int_le_iff)
      moreover have "of_int ?r / of_int hour \<le> (1 :: rat)"
        using h(4) hour by (simp add: divide_le_eq)
      then have "rnd (of_int ?r / of_int hour) \<le> 1" using mono [of "of_int ?r / of_int hour" 1] ex [of 1] by simp
      ultimately show ?thesis by (simp add: rh rr)
    qed
    then show ?thesis unfolding Hours_def using mono n by fastforce
  next
    case False
    have h: "?h \<le> 0" "?r \<le> 0"
    proof -
      have e: "?h = - ((- d) div hour)" using False hour by (simp add: go_div_def)
      then show "?h \<le> 0" using False hour by (simp add: pos_imp_zdiv_nonneg_iff)
      have "?r = - ((- d) mod hour)" unfolding go_mod_def e by (simp add: minus_div_mult_eq_mod [symmetric])
      then show "?r \<le> 0" using hour by simp
    qed
    have z: "rnd 0 = 0" using ex [of 0] by simp
    have "rnd (of_int ?h) \<le> 0" "rnd (of_int ?r) \<le> 0" using mono [of _ 0] h z by simp_all
    moreover from this(2) have "rnd (rnd (of_int ?r) / of_int hour) \<le> 0"
      using mono [of "rnd (of_int ?r) / of_int hour" 0] z hour by (simp add: divide_nonpos_pos)
    ultimately have "rnd (of_int ?h) + rnd (rnd (of_int ?r) / of_int hour) \<le> 0" by simp
    then have "Hours rnd d \<le> 0" unfolding Hours_def using mono z by fastforce
    also have "\<dots> \<le> (of_nat n :: rat)" by simp
    finally show ?thesis .
  qed
qed

text \<open>No stage is too young to be kept: a stage, or an index with a platform image, that was created at
  most the configured number of hours ago counts as built recently, whatever float64 rounds away;
  one of the future does too.\<close>

theorem young_stages_built_recently:
  assumes "float64_ok (float64 env)" "n \<le> 2 ^ 53"
    and "info \<in> set (if iIsIndex (desc_info d) then iIndex (desc_info d) else [desc_info d])"
    and "time_Now env - iCreatedAtUnixNano info \<le> int n * 3600000000000"
  shows "built_recently env n d"
proof -
  let ?d = "time_Since (time_Now env) (GetCreatedAt info)"
  have "?d \<le> int n * hour" using assms(4) by (simp add: time_Since_def hour_def)
  moreover have "- (2 ^ 63) \<le> ?d" by (simp add: time_Since_def)
  ultimately have "Hours (float64 env) ?d \<le> of_nat n" by (rule Hours_upper [OF assms(1) _ _ assms(2)])
  moreover have "float64 env (of_nat n) = of_nat n"
    using assms(1,2) unfolding float64_ok_def by (metis abs_of_nat of_int_of_nat_eq of_nat_le_iff of_nat_numeral of_nat_power)
  ultimately show ?thesis using assms(3) by (auto simp: built_recently_def list_ex_iff split: if_splits)
qed

end
