(* ===== verification/Cleanup_Examples.thy ===== *)
theory Cleanup_Examples
  imports Cleanup_Publishing Cleanup_Exact Cleanup_Properties
begin

text \<open>
  A small repo on which the theorems on the cleanup are applied: the stages of the example of
  the relatives (a source, a base built with it and an application built on the base), one custom tag, one
  commit recorded for the application, a cluster that runs the application, and a git
  repository with one branch of two commits.
\<close>

definition shop_repo :: git_repository where
  "shop_repo = \<lparr>repo_References = Inr [Reference (demo_ref ''a'' 9)], CommitObject = demo_git,
     TagObject = (\<lambda>_. TagNotFound), reference_object = (\<lambda>_. Inr Other_object)\<rparr>"

definition shop_storage :: storage where
  "shop_storage = \<lparr>repo_Address = ''r'', stage_descs = Inr [example_source, example_base, example_app],
     final_repo = Some (''f'', Inr [example_app, example_stage 7 ''gone'' []]),
     image_metadata = (\<lambda>_. Inr ([(''web'', [(''app'', [''b''])])], [(''old'', [(''src'', [''b''])])])),
     managed_images = Inr [''web''], custom_tag_ids = Inr [''latest''],
     custom_tag_metadata = (\<lambda>_. Inr (''src'', ''latest'')),
     import_metadata_ids = Inr [], import_metadata = (\<lambda>_. Inr None), filter_local = None, outcome = (\<lambda>_. None)\<rparr>"

definition shop_cluster :: cluster where
  "shop_cluster = demo_cluster\<lparr>list_Pods := Inr [\<lparr>w_namespace = ''d'', w_name = ''p'',
     w_containers = [\<lparr>c_name = ''c'', c_image = ''r:app''\<rparr>], w_initContainers = []\<rparr>]\<rparr>"

definition shop_env :: surroundings where
  "shop_env = \<lparr>KubernetesContextClients = [(''ctx'', shop_cluster)],
     IsCommitExists = (\<lambda>c. Inr (c = ''a'' \<or> c = ''b'')), LocalGit = Inr shop_repo,
     Compile_regexp = (\<lambda>_. None), sort_refs = desc_sort, sort_commits = desc_sort,
     AddNewStrings = foldl append_new, ExcludeStrings = (\<lambda>xs ys. filter (\<lambda>x. x \<notin> set ys) xs), group_order = id,
     time_Now = 10, float64 = id\<rparr>"

definition shop_options :: "bool \<Rightarrow> bool \<Rightarrow> bool \<Rightarrow> bool \<Rightarrow> CleanupOptions" where
  "shop_options disabled kube git dry = \<lparr>ImageNameList = [''web''], WithoutKube = \<not> kube,
     ConfigMetaCleanup = \<lparr>DisableCleanup = disabled, DisableKubernetesBasedPolicy = False,
       DisableGitHistoryBasedPolicy = \<not> git, DisableBuiltWithinLastNHoursPolicy = True,
       KeepImagesBuiltWithinLastNHours = 2,
       KeepPolicies = [\<lparr>References = \<lparr>TagRegexp = None, BranchRegexp = Some (\<lambda>_. True), Limit = None\<rparr>,
         ImagesPerReference = \<lparr>limit_last = Some (-1), limit_in = None, limit_operator = None\<rparr>\<rparr>]\<rparr>,
     KeepStagesBuiltWithinLastNHours = None, DryRun = dry, keepList = []\<rparr>"

lemma shop_ok: "storage_ok shop_storage" "set (group_order shop_env g) = set g"
  by (simp_all add: storage_ok_def shop_storage_def shop_env_def)

lemma shop_obeys: "obeys shop_storage" "filter_local shop_storage = None" "set (ExcludeStrings shop_env xs ys) = set xs - set ys"
  by (auto simp: shop_storage_def shop_env_def obeys_def)

lemma Some_pair: "(case x of Some (e, s) \<Rightarrow> P e s | None \<Rightarrow> False) \<Longrightarrow> \<exists>e s. x = Some (e, s) \<and> P e s"
  by (auto split: option.splits)

lemma ends_well: "(case x of Some (e, s) \<Rightarrow> Option.is_none e | None \<Rightarrow> False) \<Longrightarrow> \<exists>s. x = Some (None, s)"
  by (auto split: option.splits simp: Option.is_none_def)

lemma shop_init: "\<exists>s0. cleanup_init shop_storage shop_env (shop_options a b c d) newCleanupManager = Some (None, s0)"
  by (rule ends_well) code_simp

lemma shop_runs:
  "\<exists>s. Cleanup shop_storage shop_env (shop_options False True False False) = Some (None, s)"
  "\<exists>s. Cleanup shop_storage shop_env (shop_options False False True False) = Some (None, s)"
  "\<exists>s. Cleanup shop_storage shop_env (shop_options False True True True) = Some (None, s)"
  "\<exists>s. Cleanup shop_storage shop_env (shop_options True True True False) = Some (None, s)"
  by (rule ends_well, code_simp)+

lemma shop_stages:
  assumes "cleanup_init shop_storage shop_env opts newCleanupManager = Some (None, s0)"
  shows "GetStageDescSet (stageManager s0) = [example_source, example_base, example_app]"
    "inj_on desc_stageID (set (GetStageDescSet (stageManager s0)))"
proof -
  show g: "GetStageDescSet (stageManager s0) = [example_source, example_base, example_app]"
    using init_manager [OF assms] by (simp add: shop_storage_def)
  show "inj_on desc_stageID (set (GetStageDescSet (stageManager s0)))"
    by (simp add: g inj_on_def example_defs StageID_String_def)
qed

theorem Cleanup_keeps_policies_witness:
  "\<exists>s. Cleanup shop_storage shop_env (shop_options False True False False) = Some (None, s) \<and>
     Delete_stage example_app \<notin> set (trace s)"
proof -
  let ?opts = "shop_options False True False False"
  obtain s0 where init: "cleanup_init shop_storage shop_env ?opts newCleanupManager = Some (None, s0)" using shop_init by blast
  obtain s where run: "Cleanup shop_storage shop_env ?opts = Some (None, s)" using shop_runs(1) by blast
  have "is_deployed (deployed_now shop_env ?opts) (repo_Address shop_storage) (desc_stageID example_app)" by code_simp
  then have "example_app \<in> kept_by_kubernetes shop_storage shop_env ?opts (stageManager s0)"
    by (simp add: kept_by_kubernetes_def shop_stages [OF init] used_in_kubernetes_def)
  moreover have "\<not> DisableCleanup (ConfigMetaCleanup ?opts)" by (simp add: shop_options_def)
  ultimately show ?thesis
    using Cleanup_keeps_policies [OF _ init refl shop_stages(2) [OF init] shop_ok run] run by auto
qed

theorem Cleanup_keeps_used_tags_witness:
  "\<exists>s. Cleanup shop_storage shop_env (shop_options False False True False) = Some (None, s) \<and>
     Delete_custom_tag ''latest'' \<in> set (trace s) \<and> \<not> is_deployed (deployed_now shop_env (shop_options False False True False)) ''r'' ''latest''"
proof -
  let ?opts = "shop_options False False True False"
  obtain s0 where init: "cleanup_init shop_storage shop_env ?opts newCleanupManager = Some (None, s0)" using shop_init by blast
  have "case Cleanup shop_storage shop_env ?opts of Some (e, s) \<Rightarrow> Option.is_none e \<and> Delete_custom_tag ''latest'' \<in> set (trace s) | None \<Rightarrow> False"
    by code_simp
  then obtain s where run: "Cleanup shop_storage shop_env ?opts = Some (None, s)" and tag: "Delete_custom_tag ''latest'' \<in> set (trace s)"
    by (auto split: option.splits simp: Option.is_none_def)
  have "\<not> DisableCleanup (ConfigMetaCleanup ?opts)" "repo_Address shop_storage = ''r''"
    by (simp_all add: shop_options_def shop_storage_def)
  then show ?thesis
    using Cleanup_keeps_used_tags [OF _ init refl shop_stages(2) [OF init] shop_ok run tag] run tag by auto
qed

theorem Cleanup_dry_run_witness:
  "\<exists>s. Cleanup shop_storage shop_env (shop_options False True True True) = Some (None, s) \<and>
     set (trace s) \<subseteq> {Post_last_cleanup_record}"
proof -
  obtain s where run: "Cleanup shop_storage shop_env (shop_options False True True True) = Some (None, s)" using shop_runs(3) by blast
  then show ?thesis using Cleanup_dry_run [OF _ run] by (simp add: shop_options_def)
qed

theorem Cleanup_disabled_witness:
  "\<exists>s. Cleanup shop_storage shop_env (shop_options True True True False) = Some (None, s) \<and>
     Delete_stage example_source \<notin> set (trace s)"
proof -
  obtain s where run: "Cleanup shop_storage shop_env (shop_options True True True False) = Some (None, s)" using shop_runs(4) by blast
  then show ?thesis using Cleanup_disabled [OF _ run] by (auto simp: shop_options_def)
qed

text \<open>The branch of the example.\<close>

definition shop_branch :: ReferenceToScan where
  "shop_branch = demo_branch\<lparr>HeadCommit := \<lparr>commit_hash = ''a'', commit_when = 9, commit_parents = [''b'']\<rparr>\<rparr>"

lemma shop_refs:
  "ReferencesToScan (sort_refs shop_env) (time_Now shop_env) (Compile_regexp shop_env) shop_repo
     (KeepPolicies (ConfigMetaCleanup (shop_options a b c d))) = Inr [shop_branch]"
  by code_simp

lemma shop_git:
  "LocalGit shop_env = Inr shop_repo" "git_ok (CommitObject shop_repo)" "history (CommitObject shop_repo) {''a'', ''b''}"
  "IsCommitExists shop_env c = Inr (\<exists>co. CommitObject shop_repo c = Inr co)"
  "sort_ok (sort_commits shop_env)" "addNew_ok (AddNewStrings shop_env)"
  "\<forall>ref \<in> set [shop_branch]. ref_ok (CommitObject shop_repo) {''a'', ''b''} ref"
  using demo_setting by (simp_all add: shop_env_def shop_repo_def demo_git_def ref_ok_def shop_branch_def demo_branch_def)

lemma shop_tables:
  "image_metadata shop_storage names = Inr ([(''web'', [(''app'', [''b''])])], [(''old'', [(''src'', [''b''])])])"
  "table_ok [(''web'', [(''app'', [''b'']) :: string \<times> string list])]" "table_ok [(''old'', [(''src'', [''b'']) :: string \<times> string list])]"
  "map_keys [(''web'', [(''app'', [''b'']) :: string \<times> string list])] \<inter> map_keys [(''old'', [(''src'', [''b'']) :: string \<times> string list])] = {}"
  by (simp_all add: shop_storage_def table_ok_def)

theorem Cleanup_keeps_published_witness:
  "\<exists>s. Cleanup shop_storage shop_env (shop_options False False True False) = Some (None, s) \<and>
     Delete_stage example_app \<notin> set (trace s)"
proof -
  let ?opts = "shop_options False False True False"
  obtain s0 where init: "cleanup_init shop_storage shop_env ?opts newCleanupManager = Some (None, s0)" using shop_init by blast
  obtain s where run: "Cleanup shop_storage shop_env ?opts = Some (None, s)" using shop_runs(2) by blast
  let ?m = "stageManager s0"
  have on: "\<not> DisableCleanup (ConfigMetaCleanup ?opts)" "\<not> DisableGitHistoryBasedPolicy (ConfigMetaCleanup ?opts)"
    by (simp_all add: shop_options_def)
  have a: "reachable demo_git [] ''a'' ''a''" by (rule reachable.head) simp
  have "reachable demo_git [] ''a'' ''b''"
    by (rule reachable.parent [OF a, of "\<lparr>commit_hash = ''a'', commit_when = 9, commit_parents = [''b'']\<rparr>"])
      (simp_all add: demo_git_def)
  then have reach: "reachable (CommitObject shop_repo) [] (commit_hash (HeadCommit shop_branch)) ''b''"
    by (simp add: shop_repo_def shop_branch_def)
  have all: "keeps_all (CommitObject shop_repo) (GetStageIDCommitListToCleanup ?m ''web'') shop_branch"
    by (simp add: keeps_all_def shop_branch_def demo_branch_def demo_ref_def unrestricted_def limit_defs)
  have "example_app \<in> set (GetStageDescSet ?m)"
    "''b'' \<in> set (slice_get (map_get [(''web'', [(''app'', [''b''])])] ''web'') (desc_stageID example_app))"
    by (simp_all add: shop_stages [OF init] slice_get_def map_get_def example_defs StageID_String_def)
  from Cleanup_keeps_published [OF on init refl shop_stages(2) [OF init] shop_ok run shop_git(1-4) shop_refs shop_git(7,5,6)
      shop_tables this _ all reach] run
  show ?thesis by simp
qed

theorem Cleanup_returns_witness:
  "\<exists>e s. Cleanup shop_storage shop_env (shop_options False False True False) = Some (e, s)"
proof (rule Cleanup_returns)
  fix repo assume "LocalGit shop_env = Inr repo"
  then have "repo = shop_repo" by (simp add: shop_git(1))
  moreover have "{c. \<exists>co. CommitObject shop_repo c = Inr co} \<subseteq> {''a'', ''b''}"
    by (auto simp: shop_repo_def demo_git_def split: if_splits)
  ultimately show "finite {c. \<exists>co. CommitObject repo c = Inr co}" using finite_subset by auto
qed

theorem Purge_removes_everything_witness:
  "\<exists>s. Purge shop_storage False = Some (None, s) \<and> Delete_stage example_app \<in> set (trace s) \<and>
     Delete_custom_tag ''latest'' \<in> set (trace s)"
proof -
  have "GetCustomTagsMetadata_answer (custom_tag_ids shop_storage) (custom_tag_metadata shop_storage) = Inr [(''src'', [''latest''])]"
    by code_simp
  then show ?thesis
    using Purge_removes_everything [OF shop_obeys(1), of "[example_source, example_base, example_app]" "[]" "[''web'']"]
    by (fastforce simp: shop_storage_def)
qed

theorem cleanupImageMetadata_exact_witness:
  "\<exists>cs. cleanupImageMetadata shop_storage (ExcludeStrings shop_env) False ''app'' [(''s1'', [''c1''])] [] 
     (newCleanupManager\<lparr>stageManager := demo_records\<rparr>) =
     Some (None, issues cs (newCleanupManager\<lparr>stageManager := demo_records\<rparr>)) \<and> Rm_image_metadata ''app'' ''c1'' ''s1'' \<notin> set cs"
proof -
  let ?s = "newCleanupManager\<lparr>stageManager := demo_records\<rparr>" and ?hits = "[(''s1'', [''c1''])]"
  have t: "map fst (GetStageIDCommitListToCleanup (stageManager ?s) ''app'') = [''s1'']" by code_simp
  have none: "slice_get (GetNonexistentStageIDCommitList (stageManager ?s) ''app'') ''s1'' = []"
    "slice_get (GetStageIDNonexistentCommitList (stageManager ?s) ''app'') ''s1'' = [''c2'']" by code_simp+
  have hits: "map_keys ?hits = set [''s1'']" "map_ok ?hits" "\<forall>i \<in> set [''s1'']. slice_get ?hits i \<noteq> []"
    by (simp_all add: slice_get_def)
  have "set [''s1''] \<subseteq> map_keys (GetStageIDCommitListToCleanup (stageManager ?s) ''app'')"
    using t by (metis order_refl set_map)
  from cleanupImageMetadata_exact [OF shop_obeys(1,3) hits this] obtain cs where
    cs: "cleanupImageMetadata shop_storage (ExcludeStrings shop_env) False ''app'' ?hits [] ?s = Some (None, issues cs ?s)"
    "Rm_image_metadata ''app'' ''c1'' ''s1'' \<in> set cs \<longleftrightarrow>
       ''c1'' \<in> set (slice_get (GetStageIDCommitListToCleanup (stageManager ?s) ''app'') ''s1'') \<and>
         (''s1'' \<notin> set [''s1''] \<or> ''c1'' \<notin> set (slice_get ?hits ''s1'')) \<or>
       ''c1'' \<in> set (slice_get (GetNonexistentStageIDCommitList (stageManager ?s) ''app'') ''s1'') \<or>
       ''c1'' \<in> set (slice_get (GetStageIDNonexistentCommitList (stageManager ?s) ''app'') ''s1'')"
    unfolding t by auto
  moreover have "slice_get ?hits ''s1'' = [''c1'']" by (simp add: slice_get_def)
  ultimately show ?thesis using none by auto
qed

definition shop_deployed :: cleanupManager where
  "shop_deployed = newCleanupManager\<lparr>stageManager := example_deployed\<rparr>"

theorem cleanupUnusedStages_exact_witness:
  "\<exists>s' K. cleanupUnusedStages shop_storage shop_env False shop_deployed = Some (None, s') \<and> {example_app, example_base} \<subseteq> K \<and>
     set (GetStageDescSet (stageManager s')) = {example_source, example_base, example_app} \<inter> K"
proof -
  have "case cleanupUnusedStages shop_storage shop_env False shop_deployed of Some (e, s) \<Rightarrow> Option.is_none e | None \<Rightarrow> False"
    by code_simp
  then obtain s' where run: "cleanupUnusedStages shop_storage shop_env False shop_deployed = Some (None, s')"
    using ends_well by blast
  have "manager_inv (stageManager shop_deployed)" "set (trace shop_deployed) \<subseteq> no_stage_calls"
    by (simp_all add: shop_deployed_def example_manager_inv newCleanupManager_def)
  from cleanupUnusedStages_exact [OF shop_obeys(1,2) shop_ok(2) this run] obtain K where
    K: "set (GetProtectedStageDescSet (stageManager shop_deployed)) \<subseteq> K"
      "\<forall>d \<in> K. d \<notin> set (GetProtectedStageDescSet (stageManager shop_deployed)) \<or> \<not> iIsIndex (desc_info d) \<longrightarrow>
         fst ` set (parents (stageManager shop_deployed) d) \<subseteq> K"
      "set (GetStageDescSet (stageManager s')) = set (GetStageDescSet (stageManager shop_deployed)) \<inter> K" by metis
  have all: "GetStageDescSet (stageManager shop_deployed) = [example_source, example_base, example_app]" by code_simp
  have m: "stageManager shop_deployed = example_deployed" by (simp add: shop_deployed_def)
  have "example_app \<in> K" using K(1) unfolding m example_protected by simp
  moreover have "\<not> iIsIndex (desc_info example_app)" by (simp add: example_defs)
  ultimately have "example_base \<in> K" using K(2) example_parents unfolding m by auto
  with \<open>example_app \<in> K\<close> show ?thesis using run K(3) all by auto
qed

text \<open>The final repo holds the application and a stage that is no longer in the repo: the application is
  deleted, the stray stage is kept.\<close>

definition shop_final :: cleanupManager where
  "shop_final = newCleanupManager\<lparr>stageManager := example_manager
     \<lparr>m_finalManagedStageDescSet := newManagedStageDescSet [example_app, example_stage 7 ''gone'' []]\<rparr>\<rparr>"

theorem cleanupFinalStages_exact_witness:
  "\<exists>ds s'. cleanupFinalStages shop_storage False shop_final = Some (None, s') \<and>
     trace s' = trace shop_final @ map Delete_final_stage ds \<and> set ds = {example_app}"
proof -
  have inv: "manager_inv (stageManager shop_final)"
    using example_manager_inv(1) by (simp add: shop_final_def manager_inv_def set_inv_new)
  have "{d \<in> set (GetFinalStageDescSet (stageManager shop_final)). d \<notin> set (GetFinalProtectedStageDescSet (stageManager shop_final)) \<and>
      (\<exists>d' \<in> set (GetStageDescSet (stageManager shop_final)). StageID_IsEqual (desc_id d') (desc_id d))} = {example_app}"
    by code_simp
  then show ?thesis using cleanupFinalStages_exact [OF shop_obeys(1) inv] by simp
qed

theorem young_stages_built_recently_witness: "built_recently shop_env 2 example_app"
proof -
  have "float64_ok (float64 shop_env)" by (simp add: shop_env_def float64_ok_def)
  moreover have "desc_info example_app \<in> set (if iIsIndex (desc_info example_app) then iIndex (desc_info example_app) else [desc_info example_app])"
    "time_Now shop_env - iCreatedAtUnixNano (desc_info example_app) \<le> int 2 * 3600000000000"
    by (simp_all add: example_defs shop_env_def)
  ultimately show ?thesis by (intro young_stages_built_recently) auto
qed

end
