(* ===== verification/Diff_Parser.thy ===== *)
theory Diff_Parser
  imports Stage_Desc
begin

text \<open>
  The parser of the output of \<open>git diff\<close>: \<open>src/pkg/true_git/diff_parser.go\<close>. It filters the diff by
  a path matcher, moves the paths from the repository to the scope, and notes which paths
  changed, which are binary and which are removed.

  The path matcher and the file renames are fields of the parser. The function
  \<open>GetRelativeToBaseFilepath\<close> of another repository and \<open>strconv.Quote\<close>, \<open>strconv.Unquote\<close> (they rest on the Unicode
  tables) and \<open>filepath.Join\<close> are parameters. Writing to \<open>Out\<close> does not fail. An error ends the parsing; the parser's state is
  not used after it.
\<close>

subsection \<open>The parser\<close>

datatype parserState = unrecognized | diffBegin | diffBody | newFileDiff | deleteFileDiff | modifyFileDiff | ignoreDiff

record diffParser =
  PathScope :: string
  PathMatcher :: "string \<Rightarrow> bool"
  FileRenames :: "(string, string) go_map"
  Out :: string
  OutLines :: nat
  UnrecognizedCapture :: string
  Paths :: "string list"
  BinaryPaths :: "string list"
  PathsToRemove :: "string list"
  LastSeenPaths :: "string list"
  parser_state :: parserState
  lineBuf :: string

record path_lib =
  GetRelativeToBaseFilepath :: "string \<Rightarrow> string \<Rightarrow> string"
  filepath_Join :: "string \<Rightarrow> string \<Rightarrow> string"
  strconv_Quote :: "string \<Rightarrow> string"
  strconv_Unquote :: "string \<Rightarrow> string option"

definition makeDiffParser :: "string \<Rightarrow> (string \<Rightarrow> bool) \<Rightarrow> (string, string) go_map \<Rightarrow> diffParser" where
  "makeDiffParser pathScope pathMatcher fileRenames =
     \<lparr>PathScope = pathScope, PathMatcher = pathMatcher, FileRenames = fileRenames, Out = [], OutLines = 0,
      UnrecognizedCapture = [], Paths = [], BinaryPaths = [], PathsToRemove = [], LastSeenPaths = [],
      parser_state = unrecognized, lineBuf = []\<rparr>"

definition appendUnique :: "string list \<Rightarrow> string \<Rightarrow> string list" where
  "appendUnique list value = (if value \<in> set list then list else list @ [value])"

definition newline :: char where "newline = CHR 0x0A"
definition tab :: char where "tab = CHR 0x09"

definition writeOutLine :: "string \<Rightarrow> diffParser \<Rightarrow> go_error + diffParser" where
  "writeOutLine line p = Inr (p\<lparr>OutLines := OutLines p + 1, Out := Out p @ line @ [newline]\<rparr>)"

definition writeUnrecognizedLine :: "string \<Rightarrow> diffParser \<Rightarrow> go_error + diffParser" where
  "writeUnrecognizedLine line p = Inr (p\<lparr>UnrecognizedCapture := UnrecognizedCapture p @ line @ [newline]\<rparr>)"

definition HandleStderr :: "string \<Rightarrow> diffParser \<Rightarrow> go_error + diffParser" where
  "HandleStderr data p = Inr (p\<lparr>UnrecognizedCapture := UnrecognizedCapture p @ data\<rparr>)"

subsection \<open>Paths\<close>

definition TrimRight_tabs :: "string \<Rightarrow> string" where
  "TrimRight_tabs s = rev (dropWhile (\<lambda>c. c = tab) (rev s))"

text \<open>On the platforms of the model the separator is the slash, so \<open>ToSlash\<close> and \<open>FromSlash\<close> are identities.\<close>

definition trimFileBaseFilepath :: "path_lib \<Rightarrow> diffParser \<Rightarrow> string \<Rightarrow> string" where
  "trimFileBaseFilepath lib p path = TrimRight_tabs (GetRelativeToBaseFilepath lib (PathScope p) path)"

definition applyFileRenames :: "path_lib \<Rightarrow> diffParser \<Rightarrow> string \<Rightarrow> string" where
  "applyFileRenames lib p path =
     (case map_of (FileRenames p) path of
        Some renamedFileName \<Rightarrow> filepath_Join lib (PathScope p) renamedFileName
      | None \<Rightarrow> path)"

subsection \<open>The header of a file\<close>

text \<open>The paths of the header: split at the first \<open> "a/\<close> and \<open> "b/\<close>, or at the first \<open> a/\<close> and \<open> b/\<close>.
  A header without the second one makes Go index a slice out of range.\<close>

definition header_paths :: "string \<Rightarrow> go_error + string \<times> string" where
  "header_paths line =
     (case SplitN line '' \"a/'' 2 of
        [_, rest] \<Rightarrow>
          (case SplitN rest '' \"b/'' 2 of
             [x, y] \<Rightarrow> Inr (''\"a/'' @ x, ''\"b/'' @ y)
           | _ \<Rightarrow> Inl (Panic ''index out of range''))
      | _ \<Rightarrow>
          (case SplitN line '' a/'' 2 of
             [_, rest] \<Rightarrow>
               (case SplitN rest '' b/'' 2 of
                  [x, y] \<Rightarrow> Inr (''a/'' @ x, ''b/'' @ y)
                | _ \<Rightarrow> Inl (Panic ''index out of range''))
           | _ \<Rightarrow> Inl (Err ''unexpected diff begin line'')))"

definition is_quoted :: "string \<Rightarrow> bool" where
  "is_quoted s \<longleftrightarrow> HasPrefix s ''\"'' \<and> HasSuffix s ''\"''"

text \<open>One of the two paths: the error of the unquoting, the parser that ignores the file, or the
  parser with the path noted and the path to print.\<close>

definition header_path ::
  "path_lib \<Rightarrow> string \<Rightarrow> string \<Rightarrow> diffParser \<Rightarrow> go_error + diffParser \<times> string option" where
  "header_path lib pathWithPrefix pre p =
     (case (if is_quoted pathWithPrefix then strconv_Unquote lib pathWithPrefix else Some pathWithPrefix) of
        None \<Rightarrow> Inl (Err ''unable to unquote diff path'')
      | Some unquoted \<Rightarrow>
          (let path = TrimPrefix unquoted pre
           in if \<not> PathMatcher p path then Inr (p\<lparr>parser_state := ignoreDiff\<rparr>, None)
              else let newPath = trimFileBaseFilepath lib p (applyFileRenames lib p path)
                   in Inr (p\<lparr>Paths := appendUnique (Paths p) newPath,
                             LastSeenPaths := appendUnique (LastSeenPaths p) newPath\<rparr>,
                           Some (if is_quoted pathWithPrefix then strconv_Quote lib (pre @ newPath) else pre @ newPath))))"

definition handleDiffBegin :: "path_lib \<Rightarrow> string \<Rightarrow> diffParser \<Rightarrow> go_error + diffParser" where
  "handleDiffBegin lib line p =
     (case header_paths line of
        Inl e \<Rightarrow> Inl e
      | Inr (a, b) \<Rightarrow>
          (case header_path lib a ''a/'' (p\<lparr>LastSeenPaths := []\<rparr>) of
             Inl e \<Rightarrow> Inl e
           | Inr (p1, None) \<Rightarrow> Inr p1
           | Inr (p1, Some newA) \<Rightarrow>
               (case header_path lib b ''b/'' p1 of
                  Inl e \<Rightarrow> Inl e
                | Inr (p2, None) \<Rightarrow> Inr p2
                | Inr (p2, Some newB) \<Rightarrow>
                    writeOutLine (''diff --git '' @ newA @ '' '' @ newB) (p2\<lparr>parser_state := diffBegin\<rparr>))))"

subsection \<open>The other lines\<close>

definition handleDeleteFileDiff :: "string \<Rightarrow> diffParser \<Rightarrow> go_error + diffParser" where
  "handleDeleteFileDiff line p = writeOutLine line (p\<lparr>parser_state := deleteFileDiff\<rparr>)"

definition handleNewFileDiff :: "string \<Rightarrow> diffParser \<Rightarrow> go_error + diffParser" where
  "handleNewFileDiff line p = writeOutLine line (p\<lparr>parser_state := newFileDiff\<rparr>)"

definition handleModifyFileDiff :: "string \<Rightarrow> diffParser \<Rightarrow> go_error + diffParser" where
  "handleModifyFileDiff line p = writeOutLine line (p\<lparr>parser_state := modifyFileDiff\<rparr>)"

definition stripHash :: "string \<Rightarrow> string" where
  "stripHash h = (if length h < 8 then h else take 8 h)"

definition strip_hashes :: "string \<Rightarrow> string" where
  "strip_hashes hashes = Join (map stripHash (Split hashes '','')) '',''"

definition index_line :: "string \<Rightarrow> string \<Rightarrow> string \<Rightarrow> string option" where
  "index_line pre hashes post =
     (case SplitN hashes ''..'' 2 of
        [left, right] \<Rightarrow>
          Some (if post = [] then pre @ '' '' @ strip_hashes left @ ''..'' @ strip_hashes right
                else pre @ '' '' @ strip_hashes left @ ''..'' @ strip_hashes right @ '' '' @ post)
      | _ \<Rightarrow> None)"

definition handleIndexDiffLine :: "string \<Rightarrow> diffParser \<Rightarrow> go_error + diffParser" where
  "handleIndexDiffLine line p =
     (case (case SplitN line '' '' 3 of
              [pre, hashes, post] \<Rightarrow> index_line pre hashes post
            | [pre, hashes] \<Rightarrow> index_line pre hashes []
            | _ \<Rightarrow> None) of
        None \<Rightarrow> writeOutLine line p
      | Some newLine \<Rightarrow> writeOutLine newLine p)"

definition new_path :: "path_lib \<Rightarrow> string \<Rightarrow> string \<Rightarrow> diffParser \<Rightarrow> string" where
  "new_path lib pre line p = trimFileBaseFilepath lib p (applyFileRenames lib p (TrimPrefix line pre))"

definition handleModifyFilePathA :: "path_lib \<Rightarrow> string \<Rightarrow> diffParser \<Rightarrow> go_error + diffParser" where
  "handleModifyFilePathA lib line p = writeOutLine (''--- a/'' @ new_path lib ''--- a/'' line p) p"

definition handleModifyFilePathB :: "path_lib \<Rightarrow> string \<Rightarrow> diffParser \<Rightarrow> go_error + diffParser" where
  "handleModifyFilePathB lib line p =
     writeOutLine (''+++ b/'' @ new_path lib ''+++ b/'' line p) (p\<lparr>parser_state := diffBody\<rparr>)"

definition handleNewFilePath :: "path_lib \<Rightarrow> string \<Rightarrow> diffParser \<Rightarrow> go_error + diffParser" where
  "handleNewFilePath lib line p =
     writeOutLine (''+++ b/'' @ new_path lib ''+++ b/'' line p) (p\<lparr>parser_state := diffBody\<rparr>)"

definition handleDeleteFilePath :: "path_lib \<Rightarrow> string \<Rightarrow> diffParser \<Rightarrow> go_error + diffParser" where
  "handleDeleteFilePath lib line p =
     (let newPath = new_path lib ''--- a/'' line p
      in writeOutLine (''--- a/'' @ newPath)
           (p\<lparr>parser_state := diffBody, PathsToRemove := appendUnique (PathsToRemove p) newPath\<rparr>))"

definition handleSubmoduleLine :: "string \<Rightarrow> diffParser \<Rightarrow> go_error + diffParser" where
  "handleSubmoduleLine line p =
     (if HasSuffix line '' (commits not present)'' then Inl (Err ''commits not present'')
      else Inr (p\<lparr>parser_state := unrecognized\<rparr>))"

definition note_binary :: "diffParser \<Rightarrow> diffParser" where
  "note_binary p = p\<lparr>BinaryPaths := foldl appendUnique (BinaryPaths p) (LastSeenPaths p)\<rparr>"

definition handleBinaryBeginHeader :: "string \<Rightarrow> diffParser \<Rightarrow> go_error + diffParser" where
  "handleBinaryBeginHeader line p = writeOutLine line ((note_binary p)\<lparr>parser_state := diffBody\<rparr>)"

definition handleShortBinaryHeader :: "string \<Rightarrow> diffParser \<Rightarrow> go_error + diffParser" where
  "handleShortBinaryHeader line p = writeOutLine line ((note_binary p)\<lparr>parser_state := unrecognized\<rparr>)"

subsection \<open>One line\<close>

text \<open>The lines that the three states of a file's header share.\<close>

definition header_line :: "path_lib \<Rightarrow> string \<Rightarrow> diffParser \<Rightarrow> go_error + diffParser" where
  "header_line lib line p =
     (if HasPrefix line ''GIT binary patch'' then handleBinaryBeginHeader line p
      else if HasPrefix line ''Binary files'' then handleShortBinaryHeader line p
      else if HasPrefix line ''diff --git '' then handleDiffBegin lib line p
      else if HasPrefix line ''index '' then handleIndexDiffLine line p
      else if HasPrefix line ''Submodule '' then handleSubmoduleLine line p
      else writeOutLine line p)"

definition handleDiffLine :: "path_lib \<Rightarrow> string \<Rightarrow> diffParser \<Rightarrow> go_error + diffParser" where
  "handleDiffLine lib line p =
     (case parser_state p of
        unrecognized \<Rightarrow>
          if HasPrefix line ''diff --git '' then handleDiffBegin lib line p
          else if HasPrefix line ''Submodule '' then handleSubmoduleLine line p
          else writeUnrecognizedLine line p
      | ignoreDiff \<Rightarrow>
          if HasPrefix line ''diff --git '' then handleDiffBegin lib line p
          else if HasPrefix line ''Submodule '' then handleSubmoduleLine line p
          else Inr p
      | diffBegin \<Rightarrow>
          if HasPrefix line ''deleted file mode '' then handleDeleteFileDiff line p
          else if HasPrefix line ''new file mode '' then handleNewFileDiff line p
          else if HasPrefix line ''old mode '' then handleModifyFileDiff line p
          else if HasPrefix line ''index '' then handleIndexDiffLine line (p\<lparr>parser_state := modifyFileDiff\<rparr>)
          else Inl (Err ''unexpected diff line'')
      | modifyFileDiff \<Rightarrow>
          if HasPrefix line ''new mode '' then writeOutLine line p
          else if HasPrefix line ''--- '' then handleModifyFilePathA lib line p
          else if HasPrefix line ''+++ '' then handleModifyFilePathB lib line p
          else header_line lib line p
      | newFileDiff \<Rightarrow> if HasPrefix line ''+++ '' then handleNewFilePath lib line p else header_line lib line p
      | deleteFileDiff \<Rightarrow> if HasPrefix line ''--- '' then handleDeleteFilePath lib line p else header_line lib line p
      | diffBody \<Rightarrow>
          if HasPrefix line ''diff --git '' then handleDiffBegin lib line p
          else if HasPrefix line ''Submodule '' then handleSubmoduleLine line p
          else writeOutLine line p)"

text \<open>The bytes arrive in pieces; a line is handled when its newline arrives.\<close>

fun HandleStdout :: "path_lib \<Rightarrow> string \<Rightarrow> diffParser \<Rightarrow> go_error + diffParser" where
  "HandleStdout lib [] p = Inr p"
| "HandleStdout lib (b # data) p =
     (if b = newline
      then case handleDiffLine lib (lineBuf p) (p\<lparr>lineBuf := []\<rparr>) of
             Inl e \<Rightarrow> Inl e
           | Inr p' \<Rightarrow> HandleStdout lib data p'
      else HandleStdout lib data (p\<lparr>lineBuf := lineBuf p @ [b]\<rparr>))"

end
