(* ===== verification/Diff_Filter.thy ===== *)
theory Diff_Filter
  imports Diff_Parser
begin

text \<open>
  What the parser of \<open>src/pkg/true_git/diff_parser.go\<close> does with a whole diff: however the bytes are cut into pieces it
  works line by line, and on the diff of a list of files it prints the diff of the files that the
  path matcher selects, under their new paths.
\<close>

subsection \<open>Lines\<close>

text \<open>The pieces that the pipe delivers, one after the other; the reference is to handle the
  complete lines of the whole text.\<close>

fun feed :: "path_lib \<Rightarrow> string list \<Rightarrow> diffParser \<Rightarrow> go_error + diffParser" where
  "feed lib [] p = Inr p"
| "feed lib (data # rest) p = (case HandleStdout lib data p of Inl e \<Rightarrow> Inl e | Inr p' \<Rightarrow> feed lib rest p')"

fun run_lines :: "path_lib \<Rightarrow> string list \<Rightarrow> diffParser \<Rightarrow> go_error + diffParser" where
  "run_lines lib [] p = Inr p"
| "run_lines lib (l # ls) p = (case handleDiffLine lib l p of Inl e \<Rightarrow> Inl e | Inr p' \<Rightarrow> run_lines lib ls p')"

named_theorems diff_defs \<open>the handlers of the lines\<close>

lemmas [diff_defs] = handleDeleteFileDiff_def handleNewFileDiff_def handleModifyFileDiff_def
  handleModifyFilePathA_def handleModifyFilePathB_def handleNewFilePath_def handleDeleteFilePath_def handleBinaryBeginHeader_def
  handleShortBinaryHeader_def writeOutLine_def writeUnrecognizedLine_def header_line_def
  note_binary_def Let_def

text \<open>No handler touches the buffer, the matcher, the scope or the renames.\<close>

definition same_job :: "diffParser \<Rightarrow> diffParser \<Rightarrow> bool" where
  "same_job p p' \<longleftrightarrow> lineBuf p' = lineBuf p \<and> PathScope p' = PathScope p \<and> PathMatcher p' = PathMatcher p \<and>
     FileRenames p' = FileRenames p"

lemma same_job_header_path: "header_path lib s pre p = Inr (p', r) \<Longrightarrow> same_job p p'"
  by (auto simp: header_path_def same_job_def Let_def split: option.splits if_splits)

lemma same_job_begin: "handleDiffBegin lib line p = Inr p' \<Longrightarrow> same_job p p'"
  by (auto simp: handleDiffBegin_def writeOutLine_def same_job_def split: sum.splits prod.splits option.splits
      dest!: same_job_header_path)

lemma same_job_index: "handleIndexDiffLine line p = Inr p' \<Longrightarrow> same_job p p'"
  by (auto simp: handleIndexDiffLine_def writeOutLine_def same_job_def split: option.splits)

lemma same_job_submodule: "handleSubmoduleLine line p = Inr p' \<Longrightarrow> same_job p p'"
  by (auto simp: handleSubmoduleLine_def same_job_def split: if_splits)

lemma same_job_write:
  "handleDeleteFileDiff line p = Inr p' \<Longrightarrow> same_job p p'" "handleNewFileDiff line p = Inr p' \<Longrightarrow> same_job p p'"
  "handleModifyFileDiff line p = Inr p' \<Longrightarrow> same_job p p'" "handleModifyFilePathA lib line p = Inr p' \<Longrightarrow> same_job p p'"
  "handleModifyFilePathB lib line p = Inr p' \<Longrightarrow> same_job p p'" "handleNewFilePath lib line p = Inr p' \<Longrightarrow> same_job p p'"
  "handleDeleteFilePath lib line p = Inr p' \<Longrightarrow> same_job p p'" "handleBinaryBeginHeader line p = Inr p' \<Longrightarrow> same_job p p'"
  "handleShortBinaryHeader line p = Inr p' \<Longrightarrow> same_job p p'" "writeOutLine line p = Inr p' \<Longrightarrow> same_job p p'"
  "writeUnrecognizedLine line p = Inr p' \<Longrightarrow> same_job p p'"
  by (auto simp: handleDeleteFileDiff_def handleNewFileDiff_def handleModifyFileDiff_def handleModifyFilePathA_def
      handleModifyFilePathB_def handleNewFilePath_def handleDeleteFilePath_def handleBinaryBeginHeader_def
      handleShortBinaryHeader_def writeOutLine_def writeUnrecognizedLine_def note_binary_def Let_def same_job_def)

lemmas same_jobs = same_job_write same_job_begin same_job_index same_job_submodule

lemma same_job_header: "header_line lib line p = Inr p' \<Longrightarrow> same_job p p'"
  unfolding header_line_def by (simp only: split: if_splits) (blast dest: same_jobs)+

lemma same_job_refl: "same_job p p"
  by (simp add: same_job_def)

lemma same_job_line: "handleDiffLine lib line p = Inr p' \<Longrightarrow> same_job p p'"
proof (cases "parser_state p")
  case diffBegin
  moreover have "same_job p p'" if "handleIndexDiffLine line (p\<lparr>parser_state := modifyFileDiff\<rparr>) = Inr p'"
    using same_job_index [OF that] by (simp add: same_job_def)
  ultimately show "handleDiffLine lib line p = Inr p' \<Longrightarrow> same_job p p'"
    by (auto simp: handleDiffLine_def simp del: HasPrefix_iff dest: same_jobs split: if_split_asm)
qed (auto simp: handleDiffLine_def simp del: HasPrefix_iff dest: same_jobs same_job_header intro: same_job_refl split: if_split_asm)

lemma Split_line: "newline \<notin> set a \<Longrightarrow> Split (a @ newline # b) [newline] = a # Split b [newline]"
  by (rule Split_single_append)

lemma HandleStdout_lines:
  "newline \<notin> set (lineBuf p) \<Longrightarrow> HandleStdout lib data p =
     (let ls = Split (lineBuf p @ data) [newline]
      in case run_lines lib (butlast ls) (p\<lparr>lineBuf := []\<rparr>) of
           Inl e \<Rightarrow> Inl e
         | Inr p' \<Rightarrow> Inr (p'\<lparr>lineBuf := last ls\<rparr>))"
proof (induction data arbitrary: p)
  case Nil
  then show ?case by (simp add: Split_single_notin)
next
  case (Cons b data)
  show ?case
  proof (cases "b = newline")
    case False
    then show ?thesis using Cons.IH [of "p\<lparr>lineBuf := lineBuf p @ [b]\<rparr>"] Cons.prems by simp
  next
    case True
    have ne: "Split data [newline] \<noteq> []" by (rule Split_nonempty) simp
    show ?thesis
    proof (cases "handleDiffLine lib (lineBuf p) (p\<lparr>lineBuf := []\<rparr>)")
      case (Inl e)
      then show ?thesis using True Cons.prems ne by (simp add: Split_line)
    next
      case (Inr p')
      then have "lineBuf p' = []" using same_job_line [OF Inr] by (simp add: same_job_def)
      then have same: "p'\<lparr>lineBuf := []\<rparr> = p'" by (cases p') simp
      have "newline \<notin> set (lineBuf p')" using \<open>lineBuf p' = []\<close> by simp
      from Cons.IH [OF this, unfolded same] show ?thesis
        using True Cons.prems Inr ne \<open>lineBuf p' = []\<close> by (simp add: Split_line Let_def last_ConsR split: sum.split)
    qed
  qed
qed

lemma HandleStdout_append:
  "HandleStdout lib (xs @ ys) p = (case HandleStdout lib xs p of Inl e \<Rightarrow> Inl e | Inr p' \<Rightarrow> HandleStdout lib ys p')"
  by (induction xs arbitrary: p) (auto split: sum.splits)

text \<open>C24: the result of parsing does not depend on how the output of git is cut into pieces: the parser does what the reference does
  that handles the complete lines of the whole text one after the other and keeps
  the rest in the buffer.\<close>

theorem feed_is_run_lines:
  assumes "newline \<notin> set (lineBuf p)"
  shows "feed lib pieces p =
    (let ls = Split (lineBuf p @ concat pieces) [newline]
     in case run_lines lib (butlast ls) (p\<lparr>lineBuf := []\<rparr>) of
          Inl e \<Rightarrow> Inl e
        | Inr p' \<Rightarrow> Inr (p'\<lparr>lineBuf := last ls\<rparr>))"
proof -
  have "feed lib pieces p = HandleStdout lib (concat pieces) p"
    by (induction pieces arbitrary: p) (auto simp: HandleStdout_append split: sum.splits)
  then show ?thesis using HandleStdout_lines [OF assms] by simp
qed

subsection \<open>The diff of a list of files\<close>

datatype diff_content = No_content | Text "string list" | Binary "string list" | Short_binary string

datatype diff_kind = Modified | Mode_changed string string | Added string | Deleted string

record file_diff =
  fd_path :: string
  fd_kind :: diff_kind
  fd_index :: "(string \<times> string \<times> string) option"
  fd_content :: diff_content

fun kind_lines :: "diff_kind \<Rightarrow> string list" where
  "kind_lines Modified = []"
| "kind_lines (Mode_changed old new) = [''old mode '' @ old, ''new mode '' @ new]"
| "kind_lines (Added mode) = [''new file mode '' @ mode]"
| "kind_lines (Deleted mode) = [''deleted file mode '' @ mode]"

fun index_lines :: "(string \<times> string \<times> string) option \<Rightarrow> string list" where
  "index_lines None = []"
| "index_lines (Some (l, r, mode)) = [''index '' @ l @ ''..'' @ r @ (if mode = [] then [] else '' '' @ mode)]"

fun path_lines :: "string \<Rightarrow> diff_kind \<Rightarrow> string list" where
  "path_lines path (Added _) = [''--- /dev/null'', ''+++ b/'' @ path]"
| "path_lines path (Deleted _) = [''--- a/'' @ path, ''+++ /dev/null'']"
| "path_lines path _ = [''--- a/'' @ path, ''+++ b/'' @ path]"

fun content_lines :: "string \<Rightarrow> diff_kind \<Rightarrow> diff_content \<Rightarrow> string list" where
  "content_lines path k No_content = []"
| "content_lines path k (Text ls) = path_lines path k @ ls"
| "content_lines path k (Binary ls) = ''GIT binary patch'' # ls"
| "content_lines path k (Short_binary l) = [''Binary files'' @ l]"

definition head_line :: "string \<Rightarrow> string" where
  "head_line path = ''diff --git a/'' @ path @ '' b/'' @ path"

definition diff_lines :: "file_diff \<Rightarrow> string list" where
  "diff_lines fd = head_line (fd_path fd) # kind_lines (fd_kind fd) @ index_lines (fd_index fd) @
     content_lines (fd_path fd) (fd_kind fd) (fd_content fd)"

text \<open>The diff of a file as the parser prints it.\<close>

definition new_diff :: "(string \<Rightarrow> string) \<Rightarrow> file_diff \<Rightarrow> file_diff" where
  "new_diff f fd = fd\<lparr>fd_path := f (fd_path fd),
     fd_index := map_option (\<lambda>(l, r, mode). (stripHash l, stripHash r, mode)) (fd_index fd)\<rparr>"

text \<open>A line of a hunk or of a binary patch: it starts neither a file nor a submodule.\<close>

definition body_line :: "string \<Rightarrow> bool" where
  "body_line l \<longleftrightarrow> \<not> HasPrefix l ''diff --git '' \<and> \<not> HasPrefix l ''Submodule ''"

definition hash_ok :: "string \<Rightarrow> bool" where
  "hash_ok h \<longleftrightarrow> CHR '' '' \<notin> set h \<and> CHR ''.'' \<notin> set h \<and> CHR '','' \<notin> set h"

text \<open>The files for which the parser is right: the path holds no double quote and no \<open> b/\<close>, and a file whose mode
  does not change has an index line.\<close>

definition diff_ok :: "file_diff \<Rightarrow> bool" where
  "diff_ok fd \<longleftrightarrow> CHR ''\"'' \<notin> set (fd_path fd) \<and> \<not> Contains (fd_path fd) '' b/'' \<and>
     (fd_kind fd = Modified \<longrightarrow> fd_index fd \<noteq> None) \<and>
     (case fd_index fd of None \<Rightarrow> True | Some (l, r, mode) \<Rightarrow> hash_ok l \<and> hash_ok r) \<and>
     (case fd_content fd of Text ls \<Rightarrow> list_all body_line ls | Binary ls \<Rightarrow> list_all body_line ls | _ \<Rightarrow> True)"

definition is_binary :: "file_diff \<Rightarrow> bool" where
  "is_binary fd \<longleftrightarrow> (case fd_content fd of Binary _ \<Rightarrow> True | Short_binary _ \<Rightarrow> True | _ \<Rightarrow> False)"

definition is_removed :: "file_diff \<Rightarrow> bool" where
  "is_removed fd \<longleftrightarrow>
     (case fd_kind fd of Deleted _ \<Rightarrow> (case fd_content fd of Text _ \<Rightarrow> True | _ \<Rightarrow> False) | _ \<Rightarrow> False)"

definition add_paths :: "(string \<Rightarrow> string) \<Rightarrow> file_diff list \<Rightarrow> string list \<Rightarrow> string list" where
  "add_paths f fds paths = foldl appendUnique paths (map (\<lambda>fd. f (fd_path fd)) fds)"

definition printed :: "string list \<Rightarrow> string" where
  "printed ls = concat (map (\<lambda>l. l @ [newline]) ls)"

definition moved :: "path_lib \<Rightarrow> diffParser \<Rightarrow> string \<Rightarrow> string" where
  "moved lib p path = trimFileBaseFilepath lib p (applyFileRenames lib p path)"

definition new_file_state :: "parserState \<Rightarrow> bool" where
  "new_file_state s \<longleftrightarrow> s \<noteq> diffBegin"

subsection \<open>The header\<close>

lemma Cut_end3: "\<not> Contains path [x, y, z] \<Longrightarrow> x \<noteq> y \<Longrightarrow> x \<noteq> z \<Longrightarrow> Cut (path @ x # y # z # t) [x, y, z] = Some (path, t)"
proof (induction path)
  case (Cons c cs)
  have "\<not> Contains cs [x, y, z]" using Cons.prems(1) by (simp add: Contains_iff) (metis append_Cons)
  moreover have "\<not> (\<exists>u. c # cs @ x # y # z # t = x # y # z # u)"
  proof
    assume "\<exists>u. c # cs @ x # y # z # t = x # y # z # u"
    then obtain u where u: "c # cs @ x # y # z # t = x # y # z # u" ..
    show False
    proof (cases cs)
      case Nil
      then show False using u Cons.prems(2) by simp
    next
      case (Cons d ds)
      then show False
        using u Cons.prems \<open>x \<noteq> z\<close> by (cases ds) (auto simp: Contains_iff dest: spec [of _ "[]"])
    qed
  qed
  ultimately show ?case using Cons by simp
qed (simp add: Contains_iff)

lemma head_paths:
  assumes "CHR ''\"'' \<notin> set path" "\<not> Contains path '' b/''"
  shows "header_paths (head_line path) = Inr (''a/'' @ path, ''b/'' @ path)"
proof -
  have "Cut (head_line path) '' \"a/'' = None"
  proof (rule ccontr)
    assume "Cut (head_line path) '' \"a/'' \<noteq> None"
    then have "Contains (head_line path) '' \"a/''" by (simp add: Contains_def)
    then have "CHR ''\"'' \<in> set (head_line path)" unfolding Contains_iff by auto
    then show False using assms(1) by (auto simp: head_line_def)
  qed
  moreover have "Cut (head_line path) '' a/'' = Some (''diff --git'', path @ '' b/'' @ path)"
    by (simp add: head_line_def)
  moreover have "Cut (path @ '' b/'' @ path) '' b/'' = Some (path, path)"
    using Cut_end3 [OF assms(2)] by simp
  ultimately show ?thesis by (simp add: header_paths_def numeral_2_eq_2)
qed

lemma moved_update [simp]:
  "moved lib (p\<lparr>Paths := x\<rparr>) = moved lib p" "moved lib (p\<lparr>LastSeenPaths := x\<rparr>) = moved lib p"
  "moved lib (p\<lparr>BinaryPaths := x\<rparr>) = moved lib p" "moved lib (p\<lparr>PathsToRemove := x\<rparr>) = moved lib p"
  "moved lib (p\<lparr>parser_state := st\<rparr>) = moved lib p" "moved lib (p\<lparr>Out := y\<rparr>) = moved lib p"
  "moved lib (p\<lparr>OutLines := n\<rparr>) = moved lib p"
  by (simp_all add: moved_def trimFileBaseFilepath_def applyFileRenames_def fun_eq_iff split: option.split)

lemma plain_path:
  assumes "pre \<noteq> []" "hd pre \<noteq> CHR ''\"''"
  shows "header_path lib (pre @ path) pre p = Inr
     (if PathMatcher p path
      then (p\<lparr>Paths := appendUnique (Paths p) (moved lib p path), LastSeenPaths := appendUnique (LastSeenPaths p) (moved lib p path)\<rparr>,
            Some (pre @ moved lib p path))
      else (p\<lparr>parser_state := ignoreDiff\<rparr>, None))"
proof -
  have "\<not> is_quoted (pre @ path)" using assms by (cases pre) (auto simp: is_quoted_def)
  then show ?thesis by (simp add: header_path_def moved_def Let_def)
qed

lemma new_path_moved: "new_path lib pre (pre @ path) p = moved lib p path"
  by (simp add: new_path_def moved_def)

lemma begin_step:
  assumes ok: "CHR ''\"'' \<notin> set path" "\<not> Contains path '' b/''" and s: "new_file_state (parser_state p)"
  shows "handleDiffLine lib (head_line path) p =
    (if PathMatcher p path
     then Inr (p\<lparr>Paths := appendUnique (Paths p) (moved lib p path), LastSeenPaths := [moved lib p path],
            parser_state := diffBegin, OutLines := OutLines p + 1,
            Out := Out p @ head_line (moved lib p path) @ [newline]\<rparr>)
     else Inr (p\<lparr>LastSeenPaths := [], parser_state := ignoreDiff\<rparr>))"
proof -
  have "handleDiffLine lib (head_line path) p = handleDiffBegin lib (head_line path) p"
    using s by (cases "parser_state p") (simp_all add: handleDiffLine_def header_line_def head_line_def new_file_state_def)
  also have "\<dots> = (if PathMatcher p path
     then Inr (p\<lparr>Paths := appendUnique (Paths p) (moved lib p path), LastSeenPaths := [moved lib p path],
            parser_state := diffBegin, OutLines := OutLines p + 1,
            Out := Out p @ head_line (moved lib p path) @ [newline]\<rparr>)
     else Inr (p\<lparr>LastSeenPaths := [], parser_state := ignoreDiff\<rparr>))"
    unfolding handleDiffBegin_def head_paths [OF ok]
    using plain_path [of "''a/''"] plain_path [of "''b/''"]
    by (simp add: writeOutLine_def appendUnique_def head_line_def)
  finally show ?thesis .
qed

subsection \<open>The rest of a file\<close>

lemma run_lines_append:
  "run_lines lib (ls @ ls') p = (case run_lines lib ls p of Inl e \<Rightarrow> Inl e | Inr p' \<Rightarrow> run_lines lib ls' p')"
  by (induction ls arbitrary: p) (auto split: sum.splits)

text \<open>The parser after it printed some lines.\<close>

definition put :: "string list \<Rightarrow> parserState \<Rightarrow> diffParser \<Rightarrow> diffParser" where
  "put ls st p = p\<lparr>parser_state := st, OutLines := OutLines p + length ls, Out := Out p @ printed ls\<rparr>"

lemma put_simps [simp]:
  "parser_state (put ls st p) = st" "PathMatcher (put ls st p) = PathMatcher p" "Paths (put ls st p) = Paths p"
  "LastSeenPaths (put ls st p) = LastSeenPaths p" "BinaryPaths (put ls st p) = BinaryPaths p"
  "PathsToRemove (put ls st p) = PathsToRemove p" "moved lib (put ls st p) = moved lib p"
  "Out (put ls st p) = Out p @ printed ls" "OutLines (put ls st p) = OutLines p + length ls"
  by (simp_all add: put_def moved_def trimFileBaseFilepath_def applyFileRenames_def fun_eq_iff split: option.split)

lemma put_put: "put ls' st' (put ls st p) = put (ls @ ls') st' p"
  by (simp add: put_def printed_def)

lemma write_put: "writeOutLine l (p\<lparr>parser_state := st\<rparr>) = Inr (put [l] st p)"
  by (simp add: writeOutLine_def put_def printed_def)

lemma write_put_same: "writeOutLine l p = Inr (put [l] (parser_state p) p)"
  by (simp add: writeOutLine_def put_def printed_def)

lemma put_state [simp]: "put ls st (p\<lparr>parser_state := x\<rparr>) = put ls st p"
  by (simp add: put_def)

lemma put_none: "put [] (parser_state p) p = p"
  by (simp add: put_def printed_def)

lemma body_lines:
  "list_all body_line ls \<Longrightarrow> parser_state p = diffBody \<Longrightarrow> run_lines lib ls p = Inr (put ls diffBody p)"
proof (induction ls arbitrary: p)
  case Nil
  then show ?case using put_none [of p] by simp
next
  case (Cons l ls)
  have "handleDiffLine lib l p = Inr (put [l] diffBody p)"
    using Cons.prems by (auto simp: handleDiffLine_def body_line_def write_put_same simp del: HasPrefix_iff)
  moreover have "run_lines lib ls (put [l] diffBody p) = Inr (put ls diffBody (put [l] diffBody p))"
    by (rule Cons.IH) (use Cons.prems in simp_all)
  ultimately show ?case by (simp add: put_put)
qed

lemma ignored_lines:
  "list_all body_line ls \<Longrightarrow> parser_state p = ignoreDiff \<Longrightarrow> run_lines lib ls p = Inr p"
  by (induction ls) (auto simp: handleDiffLine_def body_line_def simp del: HasPrefix_iff)

text \<open>The lines on the kind of change.\<close>

fun kind_state :: "diff_kind \<Rightarrow> parserState" where
  "kind_state Modified = diffBegin"
| "kind_state (Mode_changed _ _) = modifyFileDiff"
| "kind_state (Added _) = newFileDiff"
| "kind_state (Deleted _) = deleteFileDiff"

lemma kind_step:
  "parser_state p = diffBegin \<Longrightarrow> run_lines lib (kind_lines k) p = Inr (put (kind_lines k) (kind_state k) p)"
  using put_none [of p]
  by (cases k) (simp_all add: handleDiffLine_def handleModifyFileDiff_def handleNewFileDiff_def handleDeleteFileDiff_def
      write_put write_put_same put_put)

text \<open>The index line.\<close>

lemma SplitN_notin: "c \<notin> set s \<Longrightarrow> SplitN s [c] (Suc (Suc n)) = [s]"
  by (simp add: Cut_None_notin)

lemma hash_strip: "hash_ok h \<Longrightarrow> strip_hashes h = stripHash h"
  by (simp add: strip_hashes_def hash_ok_def Split_single_notin)

lemma Cut_dots: "CHR ''.'' \<notin> set l \<Longrightarrow> Cut (l @ ''..'' @ r) ''..'' = Some (l, r)"
  by (induction l) auto

lemma index_text:
  assumes "hash_ok l" "hash_ok r"
  shows "handleIndexDiffLine (''index '' @ l @ ''..'' @ r @ (if mode = [] then [] else '' '' @ mode)) p =
    writeOutLine (''index '' @ stripHash l @ ''..'' @ stripHash r @ (if mode = [] then [] else '' '' @ mode)) p"
proof -
  have line: "index_line ''index'' (l @ ''..'' @ r) m =
      Some (''index '' @ stripHash l @ ''..'' @ stripHash r @ (if m = [] then [] else '' '' @ m))" for m
    using assms Cut_dots [of l r] by (simp add: index_line_def numeral_2_eq_2 hash_strip hash_ok_def)
  have ns: "CHR '' '' \<notin> set (l @ ''..'' @ r)" using assms by (simp add: hash_ok_def)
  show ?thesis
  proof (cases "mode = []")
    case True
    have "SplitN (''index '' @ l @ ''..'' @ r) '' '' 3 = [''index'', l @ ''..'' @ r]"
      using Cut_None_notin [OF ns] by (simp add: numeral_3_eq_3)
    then show ?thesis using True line [of "[]"] by (simp add: handleIndexDiffLine_def)
  next
    case False
    have "Cut ((l @ ''..'' @ r) @ CHR '' '' # mode) '' '' = Some (l @ ''..'' @ r, mode)" by (rule Cut_single [OF ns])
    then have "SplitN (''index '' @ l @ ''..'' @ r @ '' '' @ mode) '' '' 3 = [''index'', l @ ''..'' @ r, mode]"
      by (simp add: numeral_3_eq_3)
    then show ?thesis using False line [of mode] by (simp add: handleIndexDiffLine_def)
  qed
qed

definition after_index :: "(string \<times> string \<times> string) option \<Rightarrow> parserState \<Rightarrow> parserState" where
  "after_index x st = (if st = diffBegin \<and> x \<noteq> None then modifyFileDiff else st)"

definition strip_index :: "(string \<times> string \<times> string) option \<Rightarrow> (string \<times> string \<times> string) option" where
  "strip_index = map_option (\<lambda>(l, r, mode). (stripHash l, stripHash r, mode))"

lemma index_handled:
  assumes "parser_state p \<in> {diffBegin, modifyFileDiff, newFileDiff, deleteFileDiff}"
  shows "handleDiffLine lib (''index '' @ rest) p =
    handleIndexDiffLine (''index '' @ rest) (p\<lparr>parser_state := after_index (Some x) (parser_state p)\<rparr>)"
proof (cases "parser_state p = diffBegin")
  case True
  then show ?thesis by (simp add: handleDiffLine_def after_index_def)
next
  case False
  then have "p\<lparr>parser_state := after_index (Some x) (parser_state p)\<rparr> = p" by (simp add: after_index_def)
  then show ?thesis using assms False by (auto simp: handleDiffLine_def header_line_def)
qed

lemma index_step:
  assumes "case x of None \<Rightarrow> True | Some (l, r, mode) \<Rightarrow> hash_ok l \<and> hash_ok r"
    and st: "parser_state p \<in> {diffBegin, modifyFileDiff, newFileDiff, deleteFileDiff}"
  shows "run_lines lib (index_lines x) p = Inr (put (index_lines (strip_index x)) (after_index x (parser_state p)) p)"
proof (cases x)
  case None
  then show ?thesis using put_none [of p] by (simp add: after_index_def strip_index_def)
next
  case (Some t)
  obtain l r mode where t: "t = (l, r, mode)" by (cases t)
  have "hash_ok l" "hash_ok r" using assms(1) Some t by simp_all
  from index_text [OF this, of mode] show ?thesis
    unfolding Some t index_lines.simps strip_index_def option.map prod.case run_lines.simps
    by (simp only: index_handled [OF st, of lib _ "(l, r, mode)"] write_put sum.case)
qed

subsection \<open>The content and the whole file\<close>

fun content_state :: "diff_kind \<Rightarrow> parserState" where
  "content_state (Added _) = newFileDiff"
| "content_state (Deleted _) = deleteFileDiff"
| "content_state _ = modifyFileDiff"

definition noted :: "string \<Rightarrow> file_diff \<Rightarrow> diffParser \<Rightarrow> diffParser" where
  "noted q fd p = p\<lparr>BinaryPaths := (if is_binary fd then appendUnique (BinaryPaths p) q else BinaryPaths p),
     PathsToRemove := (if is_removed fd then appendUnique (PathsToRemove p) q else PathsToRemove p)\<rparr>"

lemma noted_simps [simp]:
  "parser_state (noted q fd p) = parser_state p" "PathMatcher (noted q fd p) = PathMatcher p" "Paths (noted q fd p) = Paths p"
  "moved lib (noted q fd p) = moved lib p" "Out (noted q fd p) = Out p"
  by (simp_all add: noted_def moved_def trimFileBaseFilepath_def applyFileRenames_def fun_eq_iff split: option.split)

lemma put_path:
  "handleModifyFilePathA lib (''--- a/'' @ path) p = Inr (put [''--- a/'' @ moved lib p path] (parser_state p) p)"
  "handleModifyFilePathB lib (''+++ b/'' @ path) p = Inr (put [''+++ b/'' @ moved lib p path] diffBody p)"
  "handleNewFilePath lib (''+++ b/'' @ path) p = Inr (put [''+++ b/'' @ moved lib p path] diffBody p)"
  "handleDeleteFilePath lib (''--- a/'' @ path) p =
     Inr (put [''--- a/'' @ moved lib p path] diffBody (p\<lparr>PathsToRemove := appendUnique (PathsToRemove p) (moved lib p path)\<rparr>))"
  unfolding handleModifyFilePathA_def handleModifyFilePathB_def handleNewFilePath_def handleDeleteFilePath_def Let_def new_path_moved
  by (simp_all add: writeOutLine_def put_def printed_def)

lemmas put_paths = put_path [simplified]

lemma path_steps:
  assumes "parser_state p = content_state k" "moved lib p path = q" "fd_kind fd = k" "fd_content fd = Text ls"
  shows "run_lines lib (path_lines path k) p = Inr (put (path_lines q k) diffBody (noted q fd p))"
  using assms
  by (cases k) (simp_all add: handleDiffLine_def header_line_def put_paths write_put_same put_put noted_def is_binary_def
      is_removed_def)

lemma binary_note:
  assumes "LastSeenPaths p = [q]" "is_binary fd" "\<not> is_removed fd"
  shows "note_binary p = noted q fd p"
  using assms by (simp add: note_binary_def noted_def)

lemma content_step:
  assumes st: "parser_state p = content_state (fd_kind fd)" and q: "moved lib p path = q" "LastSeenPaths p = [q]" and ok: "diff_ok fd"
  shows "\<exists>st. new_file_state st \<and> run_lines lib (content_lines path (fd_kind fd) (fd_content fd)) p =
    Inr (put (content_lines q (fd_kind fd) (fd_content fd)) st (noted q fd p))"
proof (cases "fd_content fd")
  case No_content
  then have "noted q fd p = p" by (simp add: noted_def is_binary_def is_removed_def split: diff_kind.split)
  then show ?thesis using No_content put_none [of p] st
    by (intro exI [of _ "parser_state p"]) (cases "fd_kind fd"; simp add: new_file_state_def)
next
  case (Text ls)
  have "list_all body_line ls" using ok Text by (simp add: diff_ok_def)
  from body_lines [OF this] show ?thesis
    using path_steps [OF st q(1) refl Text] Text
    by (intro exI [of _ diffBody]) (simp add: run_lines_append put_put new_file_state_def)
next
  case (Binary ls)
  have b: "list_all body_line ls" using ok Binary by (simp add: diff_ok_def)
  have n: "note_binary p = noted q fd p" by (rule binary_note [OF q(2)]) (simp_all add: is_binary_def is_removed_def Binary split: diff_kind.split)
  have "handleDiffLine lib ''GIT binary patch'' p = Inr (put [''GIT binary patch''] diffBody (noted q fd p))"
    using st by (cases "fd_kind fd") (simp_all add: handleDiffLine_def header_line_def handleBinaryBeginHeader_def write_put n)
  then show ?thesis using Binary body_lines [OF b]
    by (intro exI [of _ diffBody]) (simp add: put_put new_file_state_def)
next
  case (Short_binary l)
  have n: "note_binary p = noted q fd p" by (rule binary_note [OF q(2)])
    (simp_all add: is_binary_def is_removed_def Short_binary split: diff_kind.split)
  have "handleDiffLine lib (''Binary files'' @ l) p = Inr (put [''Binary files'' @ l] unrecognized (noted q fd p))"
    using st by (cases "fd_kind fd") (simp_all add: handleDiffLine_def header_line_def handleShortBinaryHeader_def write_put n)
  then show ?thesis using Short_binary by (intro exI [of _ unrecognized]) (simp add: new_file_state_def)
qed

lemma file_step:
  fixes lib :: path_lib
  assumes ok: "diff_ok fd" and st: "new_file_state (parser_state p)" and m: "PathMatcher p (fd_path fd)"
  defines "q \<equiv> moved lib p (fd_path fd)"
  shows "\<exists>st. new_file_state st \<and> run_lines lib (diff_lines fd) p =
    Inr (put (diff_lines (new_diff (moved lib p) fd)) st
      (noted q fd (p\<lparr>Paths := appendUnique (Paths p) q, LastSeenPaths := [q]\<rparr>)))"
proof -
  let ?p1 = "put [head_line q] diffBegin (p\<lparr>Paths := appendUnique (Paths p) q, LastSeenPaths := [q]\<rparr>)"
  have path: "CHR ''\"'' \<notin> set (fd_path fd)" "\<not> Contains (fd_path fd) '' b/''" using ok by (simp_all add: diff_ok_def)
  have p1: "handleDiffLine lib (head_line (fd_path fd)) p = Inr ?p1"
    using begin_step [OF path st] m by (simp add: put_def printed_def q_def)
  let ?p2 = "put (kind_lines (fd_kind fd)) (kind_state (fd_kind fd)) ?p1"
  have p2: "run_lines lib (kind_lines (fd_kind fd)) ?p1 = Inr ?p2" by (rule kind_step) simp
  let ?p3 = "put (index_lines (strip_index (fd_index fd))) (after_index (fd_index fd) (kind_state (fd_kind fd))) ?p2"
  have "case fd_index fd of None \<Rightarrow> True | Some (l, r, mode) \<Rightarrow> hash_ok l \<and> hash_ok r"
    using ok by (simp add: diff_ok_def)
  from index_step [OF this, of ?p2] have p3: "run_lines lib (index_lines (fd_index fd)) ?p2 = Inr ?p3"
    by (cases "fd_kind fd") simp_all
  have "parser_state ?p3 = content_state (fd_kind fd)"
    using ok by (cases "fd_kind fd") (simp_all add: after_index_def diff_ok_def)
  moreover have mv: "moved lib ?p3 (fd_path fd) = q"
    by (simp add: q_def)
  ultimately obtain st' where p4: "new_file_state st'"
    "run_lines lib (content_lines (fd_path fd) (fd_kind fd) (fd_content fd)) ?p3 =
       Inr (put (content_lines q (fd_kind fd) (fd_content fd)) st' (noted q fd ?p3))"
    using content_step [OF _ _ _ ok, of ?p3 lib "fd_path fd" q] by auto
  have "noted q fd (put ls s p') = put ls s (noted q fd p')" for ls s p' by (simp add: noted_def put_def)
  then show ?thesis
    using p1 p2 p3 p4
    by (intro exI [of _ st']) (simp add: diff_lines_def run_lines_append put_put new_diff_def strip_index_def q_def)
qed

lemma skip_file:
  assumes ok: "diff_ok fd" and st: "new_file_state (parser_state p)" and m: "\<not> PathMatcher p (fd_path fd)"
  shows "run_lines lib (diff_lines fd) p = Inr (p\<lparr>LastSeenPaths := [], parser_state := ignoreDiff\<rparr>)"
proof -
  have path: "CHR ''\"'' \<notin> set (fd_path fd)" "\<not> Contains (fd_path fd) '' b/''" using ok by (simp_all add: diff_ok_def)
  have "list_all body_line (kind_lines (fd_kind fd))" by (cases "fd_kind fd") (simp_all add: body_line_def)
  moreover have "list_all body_line (index_lines (fd_index fd))"
    by (cases "fd_index fd") (auto simp: body_line_def)
  moreover have "list_all body_line (content_lines (fd_path fd) (fd_kind fd) (fd_content fd))"
    using ok by (cases "fd_content fd"; cases "fd_kind fd") (simp_all add: body_line_def diff_ok_def)
  ultimately have "list_all body_line (tl (diff_lines fd))" by (simp add: diff_lines_def)
  then show ?thesis
    using begin_step [OF path st] m ignored_lines [of "tl (diff_lines fd)" "p\<lparr>LastSeenPaths := [], parser_state := ignoreDiff\<rparr>"]
    by (simp add: diff_lines_def)
qed

lemma printed_append: "printed (xs @ ys) = printed xs @ printed ys"
  by (simp add: printed_def)

lemma run_diff:
  assumes "list_all diff_ok fds" "new_file_state (parser_state p)"
  defines "chosen \<equiv> filter (\<lambda>fd. PathMatcher p (fd_path fd)) fds"
  shows "\<exists>p'. run_lines lib (concat (map diff_lines fds)) p = Inr p' \<and> new_file_state (parser_state p') \<and>
    Out p' = Out p @ printed (concat (map (\<lambda>fd. diff_lines (new_diff (moved lib p) fd)) chosen)) \<and>
    Paths p' = add_paths (moved lib p) chosen (Paths p) \<and>
    BinaryPaths p' = add_paths (moved lib p) (filter is_binary chosen) (BinaryPaths p) \<and>
    PathsToRemove p' = add_paths (moved lib p) (filter is_removed chosen) (PathsToRemove p)"
  using assms(1,2) unfolding chosen_def
proof (induction fds arbitrary: p)
  case Nil
  then show ?case by (simp add: printed_def add_paths_def)
next
  case (Cons fd fds)
  have ok: "diff_ok fd" "list_all diff_ok fds" using Cons.prems by simp_all
  show ?case
  proof (cases "PathMatcher p (fd_path fd)")
    case False
    let ?p = "p\<lparr>LastSeenPaths := [], parser_state := ignoreDiff\<rparr>"
    have "moved lib ?p = moved lib p" by simp
    then show ?thesis
      using Cons.IH [OF ok(2), of ?p] skip_file [OF ok(1) Cons.prems(2) False, of lib] False
      by (simp add: run_lines_append new_file_state_def)
  next
    case True
    let ?q = "moved lib p (fd_path fd)"
    obtain st where st: "new_file_state st" "run_lines lib (diff_lines fd) p =
        Inr (put (diff_lines (new_diff (moved lib p) fd)) st (noted ?q fd (p\<lparr>Paths := appendUnique (Paths p) ?q, LastSeenPaths := [?q]\<rparr>)))"
      using file_step [OF ok(1) Cons.prems(2) True] by blast
    let ?p = "put (diff_lines (new_diff (moved lib p) fd)) st (noted ?q fd (p\<lparr>Paths := appendUnique (Paths p) ?q, LastSeenPaths := [?q]\<rparr>))"
    have mv: "moved lib ?p = moved lib p" by simp
    have "new_file_state (parser_state ?p)" using st(1) by simp
    from Cons.IH [OF ok(2) this] show ?thesis
      unfolding mv using st(2) True
      by (auto simp: run_lines_append printed_append add_paths_def noted_def put_def)
  qed
qed

text \<open>C23: the parser filters a diff: on the diff of a list of files it prints exactly the diff of the files
  that the path matcher selects, in their order, under their new paths and with shortened hashes; it notes the
  new path of every selected file, of the binary ones and of the removed ones, each once. A removed file counts only if its
  text is removed: an empty or binary file that is deleted is not among the paths to remove.\<close>

theorem diff_filtered:
  fixes lib :: path_lib and scope :: string and matched :: "string \<Rightarrow> bool" and renames :: "(string, string) go_map"
  assumes "list_all diff_ok fds"
  defines "p \<equiv> makeDiffParser scope matched renames"
    and "chosen \<equiv> filter (\<lambda>fd. matched (fd_path fd)) fds"
  shows "\<exists>p'. run_lines lib (concat (map diff_lines fds)) p = Inr p' \<and>
    Out p' = printed (concat (map (\<lambda>fd. diff_lines (new_diff (moved lib p) fd)) chosen)) \<and>
    Paths p' = add_paths (moved lib p) chosen [] \<and>
    BinaryPaths p' = add_paths (moved lib p) (filter is_binary chosen) [] \<and>
    PathsToRemove p' = add_paths (moved lib p) (filter is_removed chosen) []"
proof -
  have p: "new_file_state (parser_state p)" "PathMatcher p = matched" "Out p = []" "Paths p = []" "BinaryPaths p = []" "PathsToRemove p = []"
    by (simp_all add: p_def makeDiffParser_def new_file_state_def)
  from run_diff [OF assms(1) p(1), of lib] show ?thesis unfolding p chosen_def by auto
qed

text \<open>A deleted binary file is lost: its path is noted among the changed and the binary paths, but not among the
  paths to remove, so whoever applies the diff by these lists keeps the file.\<close>

theorem deleted_binary_not_removed:
  fixes lib :: path_lib and scope :: string and matched :: "string \<Rightarrow> bool" and renames :: "(string, string) go_map"
  assumes "diff_ok fd" "fd_kind fd = Deleted mode" "fd_content fd = Short_binary l" "matched (fd_path fd)"
  defines "p \<equiv> makeDiffParser scope matched renames"
  shows "\<exists>p'. run_lines lib (diff_lines fd) p = Inr p' \<and> Paths p' = [moved lib p (fd_path fd)] \<and>
    BinaryPaths p' = [moved lib p (fd_path fd)] \<and> PathsToRemove p' = []"
proof -
  have p: "new_file_state (parser_state p)" "PathMatcher p = matched" "Paths p = []" "BinaryPaths p = []" "PathsToRemove p = []"
    by (simp_all add: p_def makeDiffParser_def new_file_state_def)
  have "list_all diff_ok [fd]" using assms(1) by simp
  from run_diff [OF this p(1), of lib] show ?thesis
    using assms(2-4) unfolding p by (auto simp: add_paths_def is_binary_def is_removed_def appendUnique_def)
qed

subsection \<open>Examples\<close>

definition slash_lib :: path_lib where
  "slash_lib = \<lparr>GetRelativeToBaseFilepath = (\<lambda>base path. TrimPrefix path (base @ ''/'')),
     filepath_Join = (\<lambda>a b. a @ ''/'' @ b), strconv_Quote = (\<lambda>s. ''\"'' @ s @ ''\"''), strconv_Unquote = (\<lambda>s. Some (butlast (tl s)))\<rparr>"

definition demo_diffs :: "file_diff list" where
  "demo_diffs =
     [\<lparr>fd_path = ''app/main.go'', fd_kind = Modified, fd_index = Some (''0123456789'', ''abcdef0123'', ''100644''), fd_content = Text [''@@ -1 +1 @@'']\<rparr>,
      \<lparr>fd_path = ''app/logo.png'', fd_kind = Deleted ''100644'', fd_index = None, fd_content = Short_binary '' a/app/logo.png differ''\<rparr>,
      \<lparr>fd_path = ''doc/x'', fd_kind = Added ''100644'', fd_index = None, fd_content = No_content\<rparr>]"

theorem feed_is_run_lines_witness:
  "case feed slash_lib [''xdi'', ''ff'', [newline], ''y''] (makeDiffParser ''app'' (\<lambda>_. True) []) of
     Inr p' \<Rightarrow> lineBuf p' = ''y'' \<and> UnrecognizedCapture p' = ''xdiff'' @ [newline] | Inl _ \<Rightarrow> False"
proof -
  have "newline \<notin> set (lineBuf (makeDiffParser ''app'' (\<lambda>_. True) []))" by (simp add: makeDiffParser_def)
  then show ?thesis by (subst feed_is_run_lines) (assumption, code_simp)
qed

lemma demo_diffs_ok: "list_all diff_ok demo_diffs"
  by code_simp

theorem diff_filtered_witness:
  "\<exists>p'. run_lines slash_lib (concat (map diff_lines demo_diffs)) (makeDiffParser ''app'' (\<lambda>p. HasPrefix p ''app/'') []) = Inr p' \<and>
     Paths p' = [''main.go'', ''logo.png''] \<and> PathsToRemove p' = []"
proof -
  let ?p = "makeDiffParser ''app'' (\<lambda>p. HasPrefix p ''app/'') []"
  let ?chosen = "filter (\<lambda>fd. HasPrefix (fd_path fd) ''app/'') demo_diffs"
  have "add_paths (moved slash_lib ?p) ?chosen [] = [''main.go'', ''logo.png'']"
    "add_paths (moved slash_lib ?p) (filter is_removed ?chosen) [] = []" by code_simp+
  then show ?thesis
    using diff_filtered [OF demo_diffs_ok, of slash_lib "''app''" "\<lambda>p. HasPrefix p ''app/''" "[]"] by auto
qed

theorem deleted_binary_not_removed_witness:
  "\<exists>p'. run_lines slash_lib (diff_lines (demo_diffs ! 1)) (makeDiffParser ''app'' (\<lambda>_. True) []) = Inr p' \<and> PathsToRemove p' = []"
proof -
  have "diff_ok (demo_diffs ! 1)" by code_simp
  moreover have "fd_kind (demo_diffs ! 1) = Deleted ''100644''" "fd_content (demo_diffs ! 1) = Short_binary '' a/app/logo.png differ''"
    by (simp_all add: demo_diffs_def)
  ultimately show ?thesis
    using deleted_binary_not_removed [of "demo_diffs ! 1" "''100644''" _ "\<lambda>_. True" slash_lib "''app''" "[]"] by auto
qed

end
