(* ===== verification/Slug.thy ===== *)
theory Slug
  imports Slug_Map Stage_Desc
begin

text \<open>
  Slugs: \<open>src/pkg/slug/slug.go\<close>, the names that werf derives for projects, docker tags, Kubernetes
  namespaces and Helm releases from arbitrary text. Go ranges over the runes of a string, so the
  decoding of UTF-8 is part of the model. The hash \<open>LegacyMurmurHash\<close> and the two DNS validators of
  Kubernetes are parameters.
\<close>

subsection \<open>Runes\<close>

text \<open>One step of Go's UTF-8 decoding: the rune and its width; an invalid byte is U+FFFD of width 1.\<close>

definition continuation :: "nat \<Rightarrow> bool" where
  "continuation b \<longleftrightarrow> 128 \<le> b \<and> b < 192"

text \<open>The range that the second byte must be in, by the first byte.\<close>

definition second_ok :: "nat \<Rightarrow> nat \<Rightarrow> bool" where
  "second_ok b0 b \<longleftrightarrow>
     (if b0 = 224 then 160 \<le> b \<and> b < 192
      else if b0 = 237 then 128 \<le> b \<and> b < 160
      else if b0 = 240 then 144 \<le> b \<and> b < 192
      else if b0 = 244 then 128 \<le> b \<and> b < 144
      else continuation b)"

definition invalid_rune :: "nat \<times> nat" where "invalid_rune = (65533, 1)"

fun DecodeRune :: "nat list \<Rightarrow> nat \<times> nat" where
  "DecodeRune [] = (65533, 0)"
| "DecodeRune (b0 # bs) =
     (if b0 < 128 then (b0, 1)
      else if 194 \<le> b0 \<and> b0 < 224 then
        (case bs of
           b1 # _ \<Rightarrow> if second_ok b0 b1 then ((b0 - 192) * 64 + (b1 - 128), 2) else invalid_rune
         | _ \<Rightarrow> invalid_rune)
      else if 224 \<le> b0 \<and> b0 < 240 then
        (case bs of
           b1 # b2 # _ \<Rightarrow>
             if second_ok b0 b1 \<and> continuation b2
             then ((b0 - 224) * 4096 + (b1 - 128) * 64 + (b2 - 128), 3) else invalid_rune
         | _ \<Rightarrow> invalid_rune)
      else if 240 \<le> b0 \<and> b0 < 245 then
        (case bs of
           b1 # b2 # b3 # _ \<Rightarrow>
             if second_ok b0 b1 \<and> continuation b2 \<and> continuation b3
             then ((b0 - 240) * 262144 + (b1 - 128) * 4096 + (b2 - 128) * 64 + (b3 - 128), 4) else invalid_rune
         | _ \<Rightarrow> invalid_rune)
      else invalid_rune)"

lemma DecodeRune_width: "bs \<noteq> [] \<Longrightarrow> 0 < snd (DecodeRune bs)"
  by (cases bs) (auto simp: invalid_rune_def split: list.splits)

function runes :: "nat list \<Rightarrow> nat list" where
  "runes bs = (if bs = [] then [] else fst (DecodeRune bs) # runes (drop (snd (DecodeRune bs)) bs))"
  by auto
termination by (relation "measure length") (auto intro!: diff_less dest: DecodeRune_width)

declare runes.simps [simp del]

definition string_runes :: "string \<Rightarrow> nat list" where
  "string_runes s = runes (map of_char s)"

subsection \<open>The slug of a text\<close>

text \<open>\<open>algorithm\<close> is called on a string of one rune only.\<close>

definition algorithm :: "nat \<Rightarrow> string" where
  "algorithm r = (case map_of slug_mapping r of Some c \<Rightarrow> c | None \<Rightarrow> [])"

record slug_state =
  slug_result :: string
  isCursorDash :: bool
  isPreviousDash :: bool
  isResultEmpty :: bool

definition slug_rune :: "slug_state \<Rightarrow> nat \<Rightarrow> slug_state" where
  "slug_rune s r =
     (let cursor = algorithm r
      in if cursor = [] then s
         else let s' = s\<lparr>isCursorDash := (cursor = ''-'')\<rparr>;
                  isStartedDash = isCursorDash s' \<and> isResultEmpty s';
                  isDoubledDash = isCursorDash s' \<and> \<not> isResultEmpty s' \<and> isPreviousDash s'
              in if isStartedDash \<or> isDoubledDash then s'
                 else s'\<lparr>slug_result := slug_result s' @ cursor, isPreviousDash := isCursorDash s', isResultEmpty := False\<rparr>)"

definition slugify :: "string \<Rightarrow> string" where
  "slugify data =
     (let s = foldl slug_rune \<lparr>slug_result = [], isCursorDash = False, isPreviousDash = False, isResultEmpty = True\<rparr>
                (string_runes data)
      in if \<not> isResultEmpty s \<and> isCursorDash s then butlast (slug_result s) else slug_result s)"

definition cropSluggedData :: "string \<Rightarrow> string \<Rightarrow> nat \<Rightarrow> go_error + string" where
  "cropSluggedData data hash maxSize =
     (let maxLength = int maxSize - int (length hash) - 1
      in if int (length data) > maxLength
         then if maxLength < 0 then Inl (Panic ''slice bounds out of range'') else Inr (take (nat maxLength) data)
         else Inr data)"

definition slug :: "(string \<Rightarrow> string) \<Rightarrow> string \<Rightarrow> nat \<Rightarrow> go_error + string" where
  "slug murmur data maxSize =
     (let sluggedData = slugify data; murmurHash = murmur data
      in if sluggedData = [] then Inr murmurHash
         else case cropSluggedData sluggedData murmurHash maxSize of
                Inl e \<Rightarrow> Inl e
              | Inr cropped \<Rightarrow>
                  Inr (Join [if HasPrefix cropped ''-'' then butlast cropped else cropped, murmurHash] ''-''))"

text \<open>\<open>strings.Count\<close> and \<open>strings.Replace\<close> with the count 1, for a separator that is not empty.\<close>

definition Count :: "string \<Rightarrow> string \<Rightarrow> nat" where
  "Count s sub = length (Split s sub) - 1"

definition Replace1 :: "string \<Rightarrow> string \<Rightarrow> string \<Rightarrow> string" where
  "Replace1 s old new = (case Cut s old of None \<Rightarrow> s | Some (a, b) \<Rightarrow> a @ new @ b)"

definition shouldBeSlugged :: "string \<Rightarrow> nat \<Rightarrow> bool" where
  "shouldBeSlugged data slugMaxSize =
     (if data = [] then False
      else if slugify data = data \<and> length data \<le> slugMaxSize then False
      else if length data > slugMaxSize then True
      else if Count data ''--'' \<noteq> 1 then True
      else let formattedData = Replace1 data ''--'' ''-'' in slugify formattedData \<noteq> formattedData)"

definition LimitedSlug :: "(string \<Rightarrow> string) \<Rightarrow> string \<Rightarrow> nat \<Rightarrow> go_error + string" where
  "LimitedSlug murmur data slugMaxSize =
     (if \<not> shouldBeSlugged data slugMaxSize then Inr data else slug murmur data slugMaxSize)"

subsection \<open>Projects, tags, namespaces and releases\<close>

definition is_lower :: "char \<Rightarrow> bool" where
  "is_lower c \<longleftrightarrow> 97 \<le> (of_char c :: nat) \<and> of_char c \<le> (122 :: nat)"

definition is_upper :: "char \<Rightarrow> bool" where
  "is_upper c \<longleftrightarrow> 65 \<le> (of_char c :: nat) \<and> of_char c \<le> (90 :: nat)"

definition is_word :: "char \<Rightarrow> bool" where
  "is_word c \<longleftrightarrow> is_lower c \<or> is_upper c \<or> is_digit c \<or> c = CHR ''_''"

text \<open>\<open>^[\w][\w.-]*$\<close> and \<open>^(?:[a-z0-9]|[a-z0-9][a-z0-9-]*[a-z0-9])$\<close>.\<close>

definition dockerTagRegexp :: "string \<Rightarrow> bool" where
  "dockerTagRegexp s \<longleftrightarrow> s \<noteq> [] \<and> is_word (hd s) \<and> list_all (\<lambda>c. is_word c \<or> c = CHR ''.'' \<or> c = CHR ''-'') (tl s)"

definition is_name_char :: "char \<Rightarrow> bool" where
  "is_name_char c \<longleftrightarrow> is_lower c \<or> is_digit c"

definition projectNameRegex :: "string \<Rightarrow> bool" where
  "projectNameRegex s \<longleftrightarrow> s \<noteq> [] \<and> is_name_char (hd s) \<and> is_name_char (last s) \<and>
     list_all (\<lambda>c. is_name_char c \<or> c = CHR ''-'') s"

definition DockerTagMaxSize :: nat where "DockerTagMaxSize = 128"
definition projectNameMaxSize :: nat where "projectNameMaxSize = 50"
definition kubernetesNamespaceMaxSize :: nat where "kubernetesNamespaceMaxSize = 63"
definition helmReleaseMaxSize :: nat where "helmReleaseMaxSize = 53"

definition shouldNotBeSlugged :: "string \<Rightarrow> (string \<Rightarrow> bool) \<Rightarrow> nat \<Rightarrow> bool" where
  "shouldNotBeSlugged data regexp maxSize \<longleftrightarrow> data = [] \<or> (regexp data \<and> length data \<le> maxSize)"

definition validateProject :: "string \<Rightarrow> bool" where
  "validateProject nm \<longleftrightarrow> shouldNotBeSlugged nm projectNameRegex projectNameMaxSize"

definition Project :: "string \<Rightarrow> string" where
  "Project nm = (if validateProject nm then nm else take projectNameMaxSize (slugify nm))"

definition IsValidDockerTag :: "string \<Rightarrow> bool" where
  "IsValidDockerTag nm \<longleftrightarrow> shouldNotBeSlugged nm dockerTagRegexp DockerTagMaxSize"

definition DockerTag :: "(string \<Rightarrow> string) \<Rightarrow> string \<Rightarrow> go_error + string" where
  "DockerTag murmur nm = (if IsValidDockerTag nm then Inr nm else slug murmur nm DockerTagMaxSize)"

definition validateKubernetesNamespace :: "(string \<Rightarrow> bool) \<Rightarrow> string \<Rightarrow> bool" where
  "validateKubernetesNamespace is_label nm \<longleftrightarrow>
     (if nm = [] then True else if length nm > kubernetesNamespaceMaxSize then False else is_label nm)"

definition KubernetesNamespace :: "(string \<Rightarrow> bool) \<Rightarrow> (string \<Rightarrow> string) \<Rightarrow> string \<Rightarrow> go_error + string" where
  "KubernetesNamespace is_label murmur nm =
     (if validateKubernetesNamespace is_label nm then Inr nm else slug murmur nm kubernetesNamespaceMaxSize)"

definition validateHelmRelease :: "(string \<Rightarrow> bool) \<Rightarrow> string \<Rightarrow> bool" where
  "validateHelmRelease is_subdomain nm \<longleftrightarrow>
     (if nm = [] then True else if length nm > helmReleaseMaxSize then False else is_subdomain nm)"

definition HelmRelease :: "(string \<Rightarrow> bool) \<Rightarrow> (string \<Rightarrow> string) \<Rightarrow> string \<Rightarrow> go_error + string" where
  "HelmRelease is_subdomain murmur nm =
     (if validateHelmRelease is_subdomain nm then Inr nm else slug murmur nm helmReleaseMaxSize)"

subsection \<open>The shape of a slug\<close>

definition slug_char :: "char \<Rightarrow> bool" where
  "slug_char c \<longleftrightarrow> is_name_char c \<or> c = CHR ''-''"

definition no_double :: "string \<Rightarrow> bool" where
  "no_double s \<longleftrightarrow> successively (\<lambda>x y. \<not> (x = CHR ''-'' \<and> y = CHR ''-'')) s"

definition slug_ok :: "string \<Rightarrow> bool" where
  "slug_ok s \<longleftrightarrow> list_all slug_char s \<and> no_double s \<and> (s \<noteq> [] \<longrightarrow> hd s \<noteq> CHR ''-'' \<and> last s \<noteq> CHR ''-'')"

definition values_ok :: "(nat \<times> string) list \<Rightarrow> bool" where
  "values_ok t \<longleftrightarrow> list_all (\<lambda>(k, v). list_all is_name_char v \<or> v = ''-'') t"

lemma values_1: "values_ok slug_mapping_1"
  by (simp add: values_ok_def slug_mapping_1_def is_name_char_def is_lower_def is_digit_def)

lemma values_2: "values_ok slug_mapping_2"
  by (simp add: values_ok_def slug_mapping_2_def is_name_char_def is_lower_def is_digit_def)

lemma values_3: "values_ok slug_mapping_3"
  by (simp add: values_ok_def slug_mapping_3_def is_name_char_def is_lower_def is_digit_def)

lemma values_4: "values_ok slug_mapping_4"
  by (simp add: values_ok_def slug_mapping_4_def is_name_char_def is_lower_def is_digit_def)

lemma values_5: "values_ok slug_mapping_5"
  by (simp add: values_ok_def slug_mapping_5_def is_name_char_def is_lower_def is_digit_def)

lemma values_6: "values_ok slug_mapping_6"
  by (simp add: values_ok_def slug_mapping_6_def is_name_char_def is_lower_def is_digit_def)

lemma values_7: "values_ok slug_mapping_7"
  by (simp add: values_ok_def slug_mapping_7_def is_name_char_def is_lower_def is_digit_def)

lemma values_8: "values_ok slug_mapping_8"
  by (simp add: values_ok_def slug_mapping_8_def is_name_char_def is_lower_def is_digit_def)

lemma mapping_values: "values_ok slug_mapping"
  using values_1 values_2 values_3 values_4 values_5 values_6 values_7 values_8
  by (simp add: values_ok_def slug_mapping_def)

lemma algorithm_values: "list_all is_name_char (algorithm r) \<or> algorithm r = ''-''"
proof (cases "map_of slug_mapping r")
  case (Some v)
  then have "(r, v) \<in> set slug_mapping" by (rule map_of_SomeD)
  then show ?thesis using mapping_values Some by (auto simp: algorithm_def list_all_iff values_ok_def)
qed (simp add: algorithm_def)

text \<open>Every character of a slug stands for itself: the plain characters are all in the first section.\<close>

lemma map_of_sections: "map_of slug_mapping_1 r = Some v \<Longrightarrow> map_of slug_mapping r = Some v"
  by (simp add: slug_mapping_def)

definition self_rows :: "string \<Rightarrow> (nat \<times> string) list" where
  "self_rows s = map (\<lambda>c. (of_char c, [c])) s"

lemma slug_section: "slug_mapping_1 = self_rows ''0123456789'' @ take 47 (drop 10 slug_mapping_1) @
    self_rows ''abcdefghijklmnopqrstuvwxyz'' @ drop 83 slug_mapping_1"
  by (simp add: slug_mapping_1_def self_rows_def)

lemma other_rows: "list_all (\<lambda>(k, v). k < 48 \<or> 57 < k \<and> k < 97 \<or> 122 < k) (take 47 (drop 10 slug_mapping_1))"
  by (simp add: slug_mapping_1_def)

lemma dash_row: "map_of slug_mapping_1 45 = Some ''-''"
  by (simp add: slug_mapping_1_def)

lemma self_rows_get: "c \<in> set s \<Longrightarrow> map_of (self_rows s) (of_char c) = Some [c]"
  by (induction s) (auto simp: self_rows_def)

lemma self_rows_none: "(\<And>c. c \<in> set s \<Longrightarrow> of_char c \<noteq> r) \<Longrightarrow> map_of (self_rows s) r = None"
  by (induction s) (auto simp: self_rows_def)

lemma other_rows_none: "97 \<le> r \<Longrightarrow> r \<le> 122 \<Longrightarrow> map_of (take 47 (drop 10 slug_mapping_1)) r = None"
  using other_rows by (auto simp: map_of_eq_None_iff list_all_iff)

lemma name_not_dash: "is_name_char c \<Longrightarrow> c \<noteq> CHR ''-''"
  by (auto simp: is_name_char_def is_lower_def is_digit_def)

lemma char_from: "(of_char c :: nat) \<in> set ns \<Longrightarrow> c \<in> set (map char_of ns)"
  by (metis char_of_char image_eqI list.set_map)

lemma digit_in: "is_digit c \<Longrightarrow> c \<in> set ''0123456789''"
proof -
  assume "is_digit c"
  then have "(of_char c :: nat) \<in> set [48..<58]" unfolding set_upt by (auto simp: is_digit_def)
  moreover have "set (map char_of [48..<58 :: nat]) \<subseteq> set ''0123456789''" by (simp add: upt_rec char_of_def bit_0)
  ultimately show ?thesis using char_from by blast
qed

lemma lower_in: "is_lower c \<Longrightarrow> c \<in> set ''abcdefghijklmnopqrstuvwxyz''"
proof -
  assume "is_lower c"
  then have "(of_char c :: nat) \<in> set [97..<123]" unfolding set_upt by (auto simp: is_lower_def)
  moreover have "set (map char_of [97..<123 :: nat]) \<subseteq> set ''abcdefghijklmnopqrstuvwxyz''"
    by (simp add: upt_rec char_of_def bit_0)
  ultimately show ?thesis using char_from by blast
qed

lemma mapping_self:
  assumes "slug_char c"
  shows "map_of slug_mapping_1 (of_char c) = Some [c]"
proof -
  consider "c = CHR ''-''" | "c \<in> set ''0123456789''" | "c \<in> set ''abcdefghijklmnopqrstuvwxyz''" 
    using assms digit_in lower_in by (auto simp: slug_char_def is_name_char_def simp del: list.set)
  then show ?thesis
  proof cases
    case 1
    then show ?thesis using dash_row by simp
  next
    case 2
    then show ?thesis using self_rows_get [OF 2] by (subst slug_section) (simp add: map_add_Some_iff)
  next
    case 3
    then have n: "97 \<le> (of_char c :: nat)" "(of_char c :: nat) \<le> 122" by auto
    have "map_of (self_rows ''0123456789'') (of_char c) = None" using n by (intro self_rows_none) auto
    moreover note other_rows_none [OF n]
    ultimately show ?thesis using self_rows_get [OF 3] by (subst slug_section) (simp add: map_add_Some_iff)
  qed
qed

lemma algorithm_self: "slug_char c \<Longrightarrow> algorithm (of_char c) = [c]"
proof -
  assume "slug_char c"
  then have "map_of slug_mapping_1 (of_char c) = Some [c]"
    by (rule mapping_self)
  from map_of_sections [OF this] show "algorithm (of_char c) = [c]" by (simp add: algorithm_def)
qed

lemma slug_char_ascii: "slug_char c \<Longrightarrow> (of_char c :: nat) < 128"
  by (auto simp: slug_char_def is_name_char_def is_lower_def is_digit_def)

lemma runes_ascii: "list_all (\<lambda>b. b < 128) bs \<Longrightarrow> runes bs = bs"
  by (induction bs) (simp_all add: runes.simps)

lemma string_runes_slug: "list_all slug_char s \<Longrightarrow> string_runes s = map of_char s"
  using slug_char_ascii by (auto simp: string_runes_def list_all_iff intro!: runes_ascii)

text \<open>The state of the loop.\<close>

definition slug_inv :: "slug_state \<Rightarrow> bool" where
  "slug_inv s \<longleftrightarrow> list_all slug_char (slug_result s) \<and> no_double (slug_result s) \<and> (isResultEmpty s \<longleftrightarrow> slug_result s = []) \<and>
     (slug_result s \<noteq> [] \<longrightarrow> hd (slug_result s) \<noteq> CHR ''-'' \<and>
        (isPreviousDash s \<longleftrightarrow> last (slug_result s) = CHR ''-'') \<and> (isCursorDash s \<longleftrightarrow> last (slug_result s) = CHR ''-''))"

abbreviation slug_start :: slug_state where
  "slug_start \<equiv> \<lparr>slug_result = [], isCursorDash = False, isPreviousDash = False, isResultEmpty = True\<rparr>"

lemma no_double_names: "list_all is_name_char v \<Longrightarrow> no_double v"
  by (induction v) (auto simp: no_double_def successively_Cons dest: name_not_dash)

lemma slug_inv_rune: "slug_inv s \<Longrightarrow> slug_inv (slug_rune s r)"
proof -
  assume inv: "slug_inv s"
  show "slug_inv (slug_rune s r)"
  proof (cases "algorithm r = ''-''")
    case True
    then show ?thesis using inv
      by (auto simp: slug_rune_def slug_inv_def Let_def no_double_def successively_append_iff slug_char_def)
  next
    case False
    let ?v = "algorithm r"
    have v: "list_all is_name_char ?v" using algorithm_values [of r] False by simp
    then have "?v \<noteq> [] \<Longrightarrow> hd ?v \<noteq> CHR ''-'' \<and> last ?v \<noteq> CHR ''-''"
      using name_not_dash by (auto simp: list_all_iff)
    moreover have "list_all slug_char ?v" "no_double ?v" using v no_double_names by (auto simp: list_all_iff slug_char_def)
    ultimately show ?thesis using inv False
      by (auto simp: slug_rune_def slug_inv_def Let_def no_double_def successively_append_iff)
  qed
qed

lemma slug_inv_fold: "slug_inv s \<Longrightarrow> slug_inv (foldl slug_rune s rs)"
  by (induction rs arbitrary: s) (auto intro: slug_inv_rune)

lemma slug_inv_start: "slug_inv slug_start"
  by (simp add: slug_inv_def no_double_def)

lemma no_double_butlast: "no_double s \<Longrightarrow> no_double (butlast s)"
  by (cases s rule: rev_cases) (auto simp: no_double_def successively_append_iff)

lemma slug_ok_slugify: "slug_ok (slugify data)"
proof -
  let ?s = "foldl slug_rune slug_start (string_runes data)"
  have inv: "slug_inv ?s" by (rule slug_inv_fold [OF slug_inv_start])
  show ?thesis
  proof (cases "\<not> isResultEmpty ?s \<and> isCursorDash ?s")
    case False
    then show ?thesis using inv by (auto simp: slugify_def slug_ok_def slug_inv_def Let_def)
  next
    case True
    then obtain xs where xs: "slug_result ?s = xs @ ''-''" using inv
      by (metis append_butlast_last_id slug_inv_def)
    then have "slug_ok xs" using inv
      by (cases xs rule: rev_cases) (auto simp: slug_ok_def slug_inv_def no_double_def successively_append_iff hd_append)
    then show ?thesis using True xs by (simp add: slugify_def Let_def)
  qed
qed

lemma rune_appends:
  "slug_inv t \<Longrightarrow> algorithm r = [c] \<Longrightarrow> slug_result t = [] \<or> last (slug_result t) = CHR ''-'' \<longrightarrow> c \<noteq> CHR ''-'' \<Longrightarrow>
   slug_result (slug_rune t r) = slug_result t @ [c]"
  by (auto simp: slug_rune_def slug_inv_def Let_def)

lemma fold_self:
  "list_all slug_char s \<Longrightarrow> no_double s \<Longrightarrow> s \<noteq> [] \<longrightarrow> hd s \<noteq> CHR ''-'' \<Longrightarrow>
   slug_result (foldl slug_rune slug_start (map of_char s)) = s"
proof (induction s rule: rev_induct)
  case (snoc c s)
  let ?t = "foldl slug_rune slug_start (map of_char s)"
  have "no_double s" "s \<noteq> [] \<longrightarrow> hd s \<noteq> CHR ''-''" using snoc.prems
    by (auto simp: no_double_def successively_append_iff hd_append)
  then have res: "slug_result ?t = s" using snoc by simp
  have inv: "slug_inv ?t" by (rule slug_inv_fold [OF slug_inv_start])
  have "algorithm (of_char c) = [c]" using snoc.prems by (simp add: algorithm_self)
  moreover have "s = [] \<Longrightarrow> c \<noteq> CHR ''-''" using snoc.prems(3) by simp
  moreover have "s \<noteq> [] \<Longrightarrow> last s = CHR ''-'' \<Longrightarrow> c \<noteq> CHR ''-''" using snoc.prems(2)
    by (auto simp: no_double_def successively_append_iff)
  ultimately show ?case using rune_appends [OF inv] res by auto
qed simp

lemma slugify_self: "slug_ok s \<Longrightarrow> slugify s = s"
proof -
  assume ok: "slug_ok s"
  let ?t = "foldl slug_rune slug_start (map of_char s)"
  have "slug_result ?t = s" using ok by (intro fold_self) (auto simp: slug_ok_def)
  moreover have "slug_inv ?t" by (rule slug_inv_fold [OF slug_inv_start])
  ultimately show "slugify s = s" using ok
    by (auto simp: slugify_def Let_def string_runes_slug slug_ok_def slug_inv_def)
qed

lemma slugify_fixed: "slugify s = s \<longleftrightarrow> slug_ok s"
  using slugify_self slug_ok_slugify by metis

subsection \<open>Slugs of limited length\<close>

lemma slugify_no_dash: "slugify data \<noteq> [] \<Longrightarrow> hd (slugify data) \<noteq> CHR ''-''"
  using slug_ok_slugify [of data] by (simp add: slug_ok_def)

definition murmur_ok :: "nat \<Rightarrow> string \<Rightarrow> bool" where
  "murmur_ok n h \<longleftrightarrow> h \<noteq> [] \<and> list_all is_name_char h \<and> length h + 2 \<le> n"

lemma slug_shape:
  assumes "murmur_ok n (murmur data)"
  defines "c \<equiv> take (n - length (murmur data) - 1) (slugify data)"
  shows "slug murmur data n = Inr (if slugify data = [] then murmur data else c @ ''-'' @ murmur data)"
    and "slugify data \<noteq> [] \<Longrightarrow> c \<noteq> [] \<and> hd c \<noteq> CHR ''-'' \<and> list_all slug_char c \<and> no_double c \<and>
      length c + 1 + length (murmur data) \<le> n"
proof -
  have ok: "slug_ok (slugify data)" by (rule slug_ok_slugify)
  have len: "length (murmur data) + 2 \<le> n" using assms(1) by (simp add: murmur_ok_def)
  have "no_double c" using ok append_take_drop_id [of "n - length (murmur data) - 1" "slugify data"]
    unfolding slug_ok_def no_double_def c_def by (metis successively_append_iff)
  then show shape: "slugify data \<noteq> [] \<Longrightarrow> c \<noteq> [] \<and> hd c \<noteq> CHR ''-'' \<and> list_all slug_char c \<and> no_double c \<and>
      length c + 1 + length (murmur data) \<le> n"
    using ok len by (cases "slugify data") (auto simp: c_def slug_ok_def list_all_iff take_Cons' dest: in_set_takeD)
  have "cropSluggedData (slugify data) (murmur data) n = Inr c"
    using len by (auto simp: cropSluggedData_def Let_def c_def nat_diff_distrib)
  moreover have "\<not> (\<exists>t. c = CHR ''-'' # t)" if "slugify data \<noteq> []" using shape [OF that] by auto
  ultimately show "slug murmur data n = Inr (if slugify data = [] then murmur data else c @ ''-'' @ murmur data)"
    by (auto simp: slug_def Let_def)
qed

lemma hash_slug_ok: "murmur_ok n h \<Longrightarrow> slug_ok h"
  using no_double_names [of h] name_not_dash by (auto simp: murmur_ok_def slug_ok_def list_all_iff slug_char_def)

lemma Cut_double: "no_double (a @ ''-'') \<Longrightarrow> a \<noteq> [] \<Longrightarrow> Cut (a @ CHR ''-'' # CHR ''-'' # b) ''--'' = Some (a, b)"
proof (induction a)
  case (Cons x a)
  show ?case
  proof (cases a)
    case Nil
    then show ?thesis using Cons.prems by (simp add: no_double_def)
  next
    case (Cons y ys)
    then have "no_double (a @ ''-'')" "\<not> (x = CHR ''-'' \<and> y = CHR ''-'')"
      using Cons.prems by (simp_all add: no_double_def successively_Cons)
    then show ?thesis using Cons.IH Cons by auto
  qed
qed simp

lemma names_no_cut: "list_all is_name_char h \<Longrightarrow> Cut h ''--'' = None"
  by (induction h) (auto dest: name_not_dash)

lemma join_ok:
  "slug_ok h \<Longrightarrow> h \<noteq> [] \<Longrightarrow> list_all slug_char c \<Longrightarrow> no_double c \<Longrightarrow> c \<noteq> [] \<Longrightarrow> hd c \<noteq> CHR ''-'' \<Longrightarrow> last c \<noteq> CHR ''-'' \<Longrightarrow>
   slug_ok (c @ ''-'' @ h)"
  by (auto simp: slug_ok_def no_double_def successively_append_iff successively_Cons slug_char_def hd_append)

lemma slug_stable:
  assumes h: "murmur_ok n (murmur data)"
  shows "\<exists>r. slug murmur data n = Inr r \<and> r \<noteq> [] \<and> length r \<le> n \<and> list_all slug_char r \<and> hd r \<noteq> CHR ''-'' \<and> last r \<noteq> CHR ''-'' \<and>
    \<not> shouldBeSlugged r n"
proof (cases "slugify data = []")
  case True
  then show ?thesis using slug_shape(1) [of n murmur data] h hash_slug_ok [OF h]
    by (auto simp: shouldBeSlugged_def slugify_self murmur_ok_def slug_ok_def)
next
  case False
  let ?h = "murmur data"
  obtain c where r: "slug murmur data n = Inr (c @ ''-'' @ ?h)"
    and c: "c \<noteq> [] \<and> hd c \<noteq> CHR ''-'' \<and> list_all slug_char c \<and> no_double c \<and> length c + 1 + length ?h \<le> n"
    using slug_shape [of n murmur data] h False by auto
  have h': "slug_ok ?h" "?h \<noteq> []" "list_all is_name_char ?h" using h hash_slug_ok [OF h] by (simp_all add: murmur_ok_def)
  have chars: "list_all slug_char (c @ ''-'' @ ?h)" "last (c @ ''-'' @ ?h) \<noteq> CHR ''-''"
    using c h' by (simp_all add: slug_ok_def slug_char_def)
  have "\<not> shouldBeSlugged (c @ ''-'' @ ?h) n"
  proof (cases "last c = CHR ''-''")
    case False
    then have "slug_ok (c @ ''-'' @ ?h)" using c h' by (intro join_ok) auto
    from slugify_self [OF this] show ?thesis using c by (simp add: shouldBeSlugged_def)
  next
    case True
    then obtain a where a: "c = a @ ''-''" using c by (metis append_butlast_last_id)
    have a_ok: "a \<noteq> []" "list_all slug_char a" "hd a \<noteq> CHR ''-''" "no_double (a @ ''-'')" using c unfolding a
      by (cases a; simp)+
    then have last_a: "no_double a" "last a \<noteq> CHR ''-''" by (auto simp: no_double_def successively_append_iff)
    have cut: "Cut (c @ ''-'' @ ?h) ''--'' = Some (a, ?h)" using Cut_double [OF a_ok(4,1)] by (simp add: a)
    then have "Replace1 (c @ ''-'' @ ?h) ''--'' ''-'' = a @ ''-'' @ ?h" by (simp add: Replace1_def)
    moreover have "slugify (a @ ''-'' @ ?h) = a @ ''-'' @ ?h"
      by (rule slugify_self [OF join_ok]) (use a_ok last_a h' in auto)
    moreover have "Split ?h ''--'' = [?h]" by (subst Split.simps) (simp add: names_no_cut [OF h'(3)])
    then have "Split (c @ ''-'' @ ?h) ''--'' = [a, ?h]" by (subst Split.simps) (simp only: cut, simp)
    ultimately show ?thesis using c by (simp add: shouldBeSlugged_def Count_def)
  qed
  then show ?thesis using r c chars by (intro exI [of _ "c @ ''-'' @ ?h"]) (auto simp: hd_append)
qed

text \<open>A slug is stable: the slug of any text has only lower case letters, digits and
  hyphens, no hyphen at its ends and no two in a row; and a text is its own slug exactly when it has this shape, so
  that slugging twice is slugging once.\<close>

theorem slugify_shape: "slug_ok (slugify data) \<and> (slugify data = data \<longleftrightarrow> slug_ok data) \<and> slugify (slugify data) = slugify data"
  using slug_ok_slugify slugify_fixed slugify_self by blast

text \<open>C34: a limited slug is within its limit and slugging it again changes nothing, although it can hold the two
  hyphens in a row that cutting leaves before the hash: for a hash of letters and digits that leaves
  room for a hyphen and one character more, no text makes the code slice out of range.\<close>

theorem LimitedSlug_stable:
  assumes "murmur_ok n (murmur data)"
  shows "\<exists>r. LimitedSlug murmur data n = Inr r \<and> length r \<le> n \<and> LimitedSlug murmur r n = Inr r"
proof (cases "shouldBeSlugged data n")
  case True
  then show ?thesis using slug_stable [of n murmur data, OF assms] by (auto simp: LimitedSlug_def)
next
  case False
  then show ?thesis by (auto simp: LimitedSlug_def shouldBeSlugged_def split: if_splits)
qed

text \<open>A docker tag made from any text is a valid docker tag.\<close>

theorem DockerTag_valid:
  assumes "murmur_ok 128 (murmur nm)"
  shows "\<exists>t. DockerTag murmur nm = Inr t \<and> IsValidDockerTag t \<and> (IsValidDockerTag nm \<longrightarrow> t = nm)"
proof (cases "IsValidDockerTag nm")
  case False
  have word: "slug_char c \<Longrightarrow> is_word c \<or> c = CHR ''.'' \<or> c = CHR ''-''" "slug_char c \<Longrightarrow> c \<noteq> CHR ''-'' \<Longrightarrow> is_word c" for c
    by (auto simp: slug_char_def is_name_char_def is_word_def)
  obtain r where r: "slug murmur nm 128 = Inr r" "r \<noteq> []" "length r \<le> 128" "list_all slug_char r" "hd r \<noteq> CHR ''-''"
    using slug_stable [of 128 murmur nm, OF assms] by blast
  then have "dockerTagRegexp r" using word by (cases r) (auto simp: dockerTagRegexp_def list_all_iff)
  then show ?thesis using False r
    by (auto simp: DockerTag_def IsValidDockerTag_def shouldNotBeSlugged_def DockerTagMaxSize_def)
qed (simp add: DockerTag_def)

text \<open>The project name that is made from a long text need not be a valid project name: the cut at 50
  characters can leave a hyphen at the end, which the code's own check refuses.\<close>

theorem Project_cut_invalid: "\<exists>nm. \<not> validateProject (Project nm) \<and> length (Project nm) = 50"
proof -
  let ?nm = "replicate 49 CHR ''a'' @ ''-b''"
  have "slug_ok ?nm"
    by (simp add: slug_ok_def slug_char_def is_name_char_def is_lower_def no_double_def eval_nat_numeral)
  then have "slugify ?nm = ?nm" by (rule slugify_self)
  moreover have "\<not> validateProject ?nm" by (simp add: validateProject_def shouldNotBeSlugged_def projectNameMaxSize_def)
  ultimately have p: "Project ?nm = replicate 49 CHR ''a'' @ ''-''" by (simp add: Project_def projectNameMaxSize_def)
  have "\<not> projectNameRegex (replicate 49 CHR ''a'' @ ''-'')"
    by (simp add: projectNameRegex_def is_name_char_def is_lower_def is_digit_def)
  then have "\<not> validateProject (Project ?nm) \<and> length (Project ?nm) = 50"
    by (simp add: p validateProject_def shouldNotBeSlugged_def)
  then show ?thesis ..
qed

subsection \<open>Examples\<close>

theorem LimitedSlug_stable_witness:
  "\<exists>r. LimitedSlug (\<lambda>_. ''77c3'') ''Release 1.0!'' 10 = Inr r \<and> length r \<le> 10"
proof -
  have "murmur_ok 10 ''77c3''" by (simp add: murmur_ok_def is_name_char_def is_lower_def is_digit_def)
  then show ?thesis using LimitedSlug_stable [of 10 "\<lambda>_. ''77c3''" "''Release 1.0!''"] by auto
qed

theorem DockerTag_valid_witness: "\<exists>t. DockerTag (\<lambda>_. ''77c3'') ''feature/x'' = Inr t \<and> IsValidDockerTag t"
proof -
  have "murmur_ok 128 ''77c3''" by (simp add: murmur_ok_def is_name_char_def is_lower_def is_digit_def)
  then show ?thesis using DockerTag_valid [of "\<lambda>_. ''77c3''" "''feature/x''"] by auto
qed

end
