(* ===== verification/Registry.thy ===== *)
theory Registry
  imports Slug Storage_Calls
begin

text \<open>
  The client of the container registry under the storage: the errors it tells apart
  (\<open>src/pkg/docker_registry/errors.go\<close>, \<open>quay.go\<close>), the reading of an image and the retries of a push (\<open>api.go\<close>), the default
  implementation (\<open>default.go\<close>) and the cache of the tags around it
  (\<open>docker_registry_with_cache.go\<close>).

  The registry itself and the libraries \<open>go-containerregistry\<close> and \<open>distribution\<close> are parameters: a record of their answers
  and of their effects on a state \<^typ>\<open>'r\<close> of which nothing is known but the laws \<open>registry_ok\<close>, which
  the specification of the distribution API gives: a tag refers to one manifest, a push sets its tag,
  a deletion by digest takes the manifest with all its tags.
\<close>

subsection \<open>Actions\<close>

text \<open>A call that may change a state and returns a value or an error; the state is kept on an error, too.\<close>

type_synonym ('s, 'a) action = "'s \<Rightarrow> (go_error + 'a) \<times> 's"

definition return_act :: "'a \<Rightarrow> ('s, 'a) action" where
  "return_act x s = (Inr x, s)"

definition fail_act :: "go_error \<Rightarrow> ('s, 'a) action" where
  "fail_act e s = (Inl e, s)"

text \<open>\<open>fmt.Errorf("...: %w", err)\<close>; a panic goes through.\<close>

fun wrap :: "string \<Rightarrow> go_error \<Rightarrow> go_error" where
  "wrap msg (Err t) = Err (msg @ '': '' @ t)"
| "wrap msg (Panic t) = Panic t"

definition and_use :: "('s, 'a) action \<Rightarrow> (go_error \<Rightarrow> go_error) \<Rightarrow> ('a \<Rightarrow> ('s, 'b) action) \<Rightarrow> ('s, 'b) action" where
  "and_use m w k s = (case m s of (Inl e, s') \<Rightarrow> (Inl (w e), s') | (Inr x, s') \<Rightarrow> k x s')"

definition ask :: "('s \<Rightarrow> go_error + 'a) \<Rightarrow> ('s, 'a) action" where
  "ask f s = (f s, s)"

subsection \<open>The registry\<close>

type_synonym labels = "(string, string) go_map"

text \<open>What \<open>remote.Get\<close> returns: an index with the digests of its manifests, or an image; each part of it can fail to be read.\<close>

record ConfigFile =
  cfgLabels :: labels
  cfgOnBuild :: "string list"
  cfgEnv :: "string list"
  cfgCreated :: int
  cfgVolumes :: "string list"
  cfgImage :: string

record remote_image =
  imageDigest :: "go_error + string"
  configDigest :: "go_error + string"
  configFile :: "go_error + ConfigFile"
  layerSizes :: "go_error + (go_error + int) list"

record remote_index =
  indexDigest :: "go_error + string"
  indexManifests :: "go_error + string list"

datatype Descriptor = Index_descriptor "go_error + remote_index" | Image_descriptor "go_error + remote_image"

text \<open>The codes of the errors of the library; their texts are its constants.\<close>

datatype ErrorCode = BlobUnknownErrorCode | BlobUploadInvalidErrorCode | BlobUploadUnknownErrorCode | DigestInvalidErrorCode
  | ManifestBlobUnknownErrorCode | ManifestInvalidErrorCode | ManifestUnverifiedErrorCode | NameInvalidErrorCode
  | ManifestUnknownErrorCode | NameUnknownErrorCode

text \<open>\<open>ParseReference\<close> returns the full name of a reference, its registry and its repository; \<open>FindStringSubmatch\<close> is that of the
  expression \<open>ReferenceRegexp\<close>.\<close>

record 'r registry =
  ParseReference :: "string \<Rightarrow> go_error + string \<times> string \<times> string"
  FindStringSubmatch :: "string \<Rightarrow> string list"
  DefaultTag :: string
  remote_list :: "string \<Rightarrow> 'r \<Rightarrow> go_error + string list"
  remote_get :: "string \<Rightarrow> 'r \<Rightarrow> go_error + Descriptor"
  remote_write :: "string \<Rightarrow> labels \<Rightarrow> ('r, unit) action"
  remote_delete :: "string \<Rightarrow> ('r, unit) action"
  remote_tag :: "string \<Rightarrow> string \<Rightarrow> ('r, unit) action"
  remote_copy :: "string \<Rightarrow> string \<Rightarrow> ('r, unit) action"
  code_text :: "ErrorCode \<Rightarrow> string"
  status_404 :: "go_error \<Rightarrow> bool"

definition BrokenImageCodes :: "ErrorCode list" where
  "BrokenImageCodes = [BlobUnknownErrorCode, BlobUploadInvalidErrorCode, BlobUploadUnknownErrorCode, DigestInvalidErrorCode,
     ManifestBlobUnknownErrorCode, ManifestInvalidErrorCode, ManifestUnverifiedErrorCode, NameInvalidErrorCode]"

definition NotFoundImageCodes :: "ErrorCode list" where
  "NotFoundImageCodes = [ManifestUnknownErrorCode, NameUnknownErrorCode]"

definition isErrorMatched :: "'r registry \<Rightarrow> go_error \<Rightarrow> ErrorCode list \<Rightarrow> bool" where
  "isErrorMatched reg e codes \<longleftrightarrow> (\<exists>code \<in> set codes. Contains (error_text e) (code_text reg code))"

definition IsQuayTagExpiredErr :: "go_error \<Rightarrow> bool" where
  "IsQuayTagExpiredErr e \<longleftrightarrow> Contains (error_text e) ''TAG_EXPIRED: ''"

definition IsHarborNotFoundError :: "go_error \<Rightarrow> bool" where
  "IsHarborNotFoundError e \<longleftrightarrow> Contains (error_text e) ''NOT_FOUND''"

definition IsBrokenImageError :: "'r registry \<Rightarrow> go_error \<Rightarrow> bool" where
  "IsBrokenImageError reg e \<longleftrightarrow> isErrorMatched reg e BrokenImageCodes \<or> IsQuayTagExpiredErr e"

definition IsImageNotFoundError :: "'r registry \<Rightarrow> go_error \<Rightarrow> bool" where
  "IsImageNotFoundError reg e \<longleftrightarrow> isErrorMatched reg e NotFoundImageCodes \<or> IsHarborNotFoundError e"

subsection \<open>The reading of an image\<close>

text \<open>The registry, the repository and the tag of a reference; the digest is not used.\<close>

definition parseReferenceParts :: "'r registry \<Rightarrow> string \<Rightarrow> go_error + string \<times> string \<times> string" where
  "parseReferenceParts reg reference =
     (case ParseReference reg reference of
        Inl e \<Rightarrow> Inl e
      | Inr (_, registry, repository) \<Rightarrow>
          let res = FindStringSubmatch reg reference
          in if length res \<noteq> 4 then Inl (Err (''unexpected reference '' @ reference))
             else Inr (registry, repository, if res ! 2 = [] then DefaultTag reg else res ! 2))"

definition getImageDesc :: "'r registry \<Rightarrow> string \<Rightarrow> 'r \<Rightarrow> go_error + Descriptor \<times> string" where
  "getImageDesc reg reference r =
     (case ParseReference reg reference of
        Inl e \<Rightarrow> Inl (wrap (''parsing reference '' @ reference) e)
      | Inr (ref, _, _) \<Rightarrow>
          (case remote_get reg ref r of
             Inl e \<Rightarrow> Inl (wrap (''getting '' @ ref) e)
           | Inr desc \<Rightarrow> Inr (desc, ref)))"

fun sum_sizes :: "int \<Rightarrow> (go_error + int) list \<Rightarrow> go_error + int" where
  "sum_sizes totalSize [] = Inr totalSize"
| "sum_sizes totalSize (l # ls) = (case l of Inl e \<Rightarrow> Inl e | Inr lSize \<Rightarrow> sum_sizes (totalSize + lSize) ls)"

definition bind_res :: "go_error + 'a \<Rightarrow> ('a \<Rightarrow> go_error + 'b) \<Rightarrow> go_error + 'b" where
  "bind_res x k = (case x of Inl e \<Rightarrow> Inl e | Inr y \<Rightarrow> k y)"

definition wrap_res :: "string \<Rightarrow> go_error + 'a \<Rightarrow> go_error + 'a" where
  "wrap_res msg x = (case x of Inl e \<Rightarrow> Inl (wrap msg e) | Inr y \<Rightarrow> Inr y)"

text \<open>The branch of an image in \<open>getRepoImageByDesc\<close>.\<close>

definition image_info :: "string \<Rightarrow> string \<Rightarrow> string \<Rightarrow> go_error + remote_image \<Rightarrow> go_error + Info" where
  "image_info nm repository originalTag img =
     bind_res (wrap_res ''error getting image manifest'' img) (\<lambda>imageInfo.
     bind_res (imageDigest imageInfo) (\<lambda>digest.
     bind_res (configDigest imageInfo) (\<lambda>iid.
     bind_res (configFile imageInfo) (\<lambda>cf.
     bind_res (layerSizes imageInfo) (\<lambda>layers.
     bind_res (sum_sizes 0 layers) (\<lambda>totalSize.
       let parentID = (if cfgImage cf \<noteq> [] then cfgImage cf
             else case map_of (cfgLabels cf) WerfBaseImageIDLabel of Some i \<Rightarrow> i | None \<Rightarrow> [])
       in Inr (SetCreatedAtUnix (cfgCreated cf)
            (Info nm repository originalTag (NormalizeRepository repository @ ''@'' @ digest) (cfgOnBuild cf) (cfgEnv cf) iid parentID
              (cfgLabels cf) totalSize 0 (cfgVolumes cf) False []))))))))"

text \<open>The manifests of an index are read one after the other; \<^term>\<open>None\<close> is a reading that does not end.\<close>

fun each_manifest :: "('a \<Rightarrow> (go_error + 'b) option) \<Rightarrow> 'a list \<Rightarrow> (go_error + 'b list) option" where
  "each_manifest f [] = Some (Inr [])"
| "each_manifest f (x # xs) = Option.bind (f x) (\<lambda>y. case y of
      Inl e \<Rightarrow> Some (Inl e)
    | Inr b \<Rightarrow> Option.bind (each_manifest f xs) (\<lambda>z. Some (map_sum id (Cons b) z)))"

lemma each_manifest_mono [partial_function_mono]:
  fixes B :: "'a \<Rightarrow> ('c \<Rightarrow> 'd option) \<Rightarrow> (go_error + 'b) option"
  assumes "\<And>y. mono_option (B y)"
  shows "mono_option (\<lambda>f. each_manifest (\<lambda>y. B y f) xs)"
proof (induction xs)
  case Nil
  show ?case by (simp add: option.const_mono)
next
  case (Cons x xs)
  have "mono_option (\<lambda>f. case y of Inl e \<Rightarrow> Some (Inl e)
      | Inr b \<Rightarrow> Option.bind (each_manifest (\<lambda>y. B y f) xs) (\<lambda>z. Some (map_sum id (Cons b) z)))" for y :: "go_error + 'b"
    by (cases y) (auto simp: option.const_mono intro!: bind_mono Cons)
  then show ?case unfolding each_manifest.simps by (intro bind_mono assms)
qed

text \<open>An index is read with all its manifests, recursively. A recursion that does not end overflows the stack of Go.\<close>

partial_function (option) getRepoImageByDesc :: "'r registry \<Rightarrow> string \<Rightarrow> 'r \<Rightarrow> Descriptor \<Rightarrow> string \<Rightarrow> (go_error + Info) option" where
  "getRepoImageByDesc reg originalTag r desc ref =
     (case parseReferenceParts reg ref of
        Inl e \<Rightarrow> Some (Inl (wrap (''unable to parse reference '' @ ref) e))
      | Inr (registry, repo, _) \<Rightarrow>
          let repository = Join [registry, repo] ''/''
          in case desc of
               Image_descriptor img \<Rightarrow> Some (image_info ref repository originalTag img)
             | Index_descriptor ind \<Rightarrow>
                 (case bind_res (wrap_res ''error getting image index'' ind) (\<lambda>ii.
                         bind_res (wrap_res ''error getting image index digest'' (indexDigest ii)) (\<lambda>digest.
                         bind_res (wrap_res ''error getting image manifest'' (indexManifests ii)) (\<lambda>digests. Inr (digest, digests)))) of
                    Inl e \<Rightarrow> Some (Inl e)
                  | Inr (digest, digests) \<Rightarrow>
                      Option.bind (each_manifest (\<lambda>d. let subref = repository @ ''@'' @ d
                           in case wrap_res (''error getting image '' @ subref @ '' manifest'') (getImageDesc reg subref r) of
                                Inl e \<Rightarrow> Some (Inl e)
                              | Inr (subdesc, subname) \<Rightarrow>
                                  Option.bind (getRepoImageByDesc reg originalTag r subdesc subname)
                                    (\<lambda>subInfo. Some (wrap_res (''error getting image '' @ subref @ '' descriptor'') subInfo))) digests)
                        (\<lambda>subs. Some (map_sum id (Info ref repository originalTag (NormalizeRepository repository @ ''@'' @ digest)
                           [] [] digest [] [] 0 0 [] True) subs))))"

declare getRepoImageByDesc.simps [code]

definition api_GetRepoImage :: "'r registry \<Rightarrow> string \<Rightarrow> 'r \<Rightarrow> go_error + Info" where
  "api_GetRepoImage reg reference r =
     bind_res (getImageDesc reg reference r) (\<lambda>(desc, ref).
     bind_res (wrap_res (''unable to parse reference '' @ ref) (parseReferenceParts reg ref)) (\<lambda>(_, _, tag).
       case getRepoImageByDesc reg tag r desc ref of None \<Rightarrow> Inl (Panic ''stack overflow'') | Some x \<Rightarrow> x))"

subsection \<open>Tags, pushes and deletions\<close>

definition api_tags :: "'r registry \<Rightarrow> string \<Rightarrow> 'r \<Rightarrow> go_error + string list" where
  "api_tags reg reference r =
     (case remote_list reg reference r of
        Inl e \<Rightarrow> if status_404 reg e then Inr [] else Inl (wrap (''reading tags for '' @ reference) e)
      | Inr tags \<Rightarrow> Inr tags)"

definition tryGetRepoImage :: "'r registry \<Rightarrow> string \<Rightarrow> 'r \<Rightarrow> go_error + Info option" where
  "tryGetRepoImage reg reference r =
     (case api_GetRepoImage reg reference r of
        Inl e \<Rightarrow> if IsImageNotFoundError reg e \<or> IsBrokenImageError reg e then Inr None else Inl e
      | Inr imgInfo \<Rightarrow> Inr (Some imgInfo))"

text \<open>A push is tried at most five times, and again only after one of three errors.\<close>

definition retriesLimit :: nat where "retriesLimit = 5"

definition retryable :: "go_error \<Rightarrow> bool" where
  "retryable e \<longleftrightarrow> list_ex (Contains (error_text e)) [''REDACTED: UNKNOWN'', ''http2: server sent GOAWAY and closed the connection'',
     ''http2: Transport received Server's graceful shutdown GOAWAY'']"

fun push_attempts :: "('s, unit) action \<Rightarrow> nat \<Rightarrow> go_error \<Rightarrow> ('s, unit) action" where
  "push_attempts pusher 0 err s = (Inl (wrap ''retries limit reached'' err), s)"
| "push_attempts pusher (Suc n) err s =
     (case pusher s of
        (Inl e, s') \<Rightarrow> if retryable e then push_attempts pusher n e s' else (Inl e, s')
      | (Inr _, s') \<Rightarrow> (Inr (), s'))"

definition pushWithRetry :: "('s, unit) action \<Rightarrow> ('s, unit) action" where
  "pushWithRetry pusher = push_attempts pusher retriesLimit (Err [])"

definition pushImage :: "'r registry \<Rightarrow> string \<Rightarrow> labels \<Rightarrow> ('r, unit) action" where
  "pushImage reg reference labels r =
     (case ParseReference reg reference of
        Inl e \<Rightarrow> (Inl (wrap (''parsing reference '' @ reference) e), r)
      | Inr (ref, _, _) \<Rightarrow>
          (case remote_write reg ref labels r of
             (Inl e, r') \<Rightarrow> (Inl (wrap (''write to the remote '' @ ref @ '' have failed'') e), r')
           | (Inr _, r') \<Rightarrow> (Inr (), r')))"

definition deleteImageByReference :: "'r registry \<Rightarrow> string \<Rightarrow> ('r, unit) action" where
  "deleteImageByReference reg reference r =
     (case ParseReference reg reference of
        Inl e \<Rightarrow> (Inl (wrap (''parsing reference '' @ reference) e), r)
      | Inr (ref, _, _) \<Rightarrow>
          (case remote_delete reg ref r of
             (Inl e, r') \<Rightarrow> (Inl (wrap (''deleting image '' @ ref) e), r')
           | (Inr _, r') \<Rightarrow> (Inr (), r')))"

subsection \<open>The cache of the tags\<close>

record 'r client =
  remote :: 'r
  cachedTagsMap :: "(string, string list) go_map"

definition lift :: "('r, 'a) action \<Rightarrow> ('r client, 'a) action" where
  "lift m s = (case m (remote s) of (x, r) \<Rightarrow> (x, s\<lparr>remote := r\<rparr>))"

definition mustGetCachedTagsID :: "'r registry \<Rightarrow> string \<Rightarrow> go_error + string" where
  "mustGetCachedTagsID reg reference =
     (case parseReferenceParts reg reference of
        Inl e \<Rightarrow> Inl (Panic (''unexpected reference '' @ reference @ '': '' @ error_text e))
      | Inr (registry, repository, tag) \<Rightarrow> Inr (Join [registry, repository] ''/''))"

definition tryLoadTagsFromCache :: "string \<Rightarrow> bool \<Rightarrow> 'r client \<Rightarrow> string list option" where
  "tryLoadTagsFromCache cachedTagsID cachedTags s = (if cachedTags then map_of (cachedTagsMap s) cachedTagsID else None)"

definition getTagsListFromRegistry :: "'r registry \<Rightarrow> bool \<Rightarrow> string \<Rightarrow> ('r client, string list) action" where
  "getTagsListFromRegistry reg cachedTags reference s =
     (case mustGetCachedTagsID reg reference of
        Inl e \<Rightarrow> (Inl e, s)
      | Inr cachedTagsID \<Rightarrow>
          (case tryLoadTagsFromCache cachedTagsID cachedTags s of
             Some tags \<Rightarrow> (Inr tags, s)
           | None \<Rightarrow>
               (case api_tags reg reference (remote s) of
                  Inl e \<Rightarrow> (Inl (wrap (''unable to fetch tags for repo '' @ reference) e), s)
                | Inr tags \<Rightarrow> (Inr tags, s\<lparr>cachedTagsMap := AList.update cachedTagsID tags (cachedTagsMap s)\<rparr>))))"

definition reg_Tags :: "'r registry \<Rightarrow> bool \<Rightarrow> string \<Rightarrow> ('r client, string list) action" where
  "reg_Tags reg cachedTags reference = getTagsListFromRegistry reg cachedTags reference"

definition reg_IsTagExist :: "'r registry \<Rightarrow> bool \<Rightarrow> string \<Rightarrow> ('r client, bool) action" where
  "reg_IsTagExist reg cachedTags reference =
     (case parseReferenceParts reg reference of
        Inl e \<Rightarrow> fail_act e
      | Inr (registry, repository, referenceTag) \<Rightarrow>
          if referenceTag = [] then fail_act (Panic (''unexpected reference '' @ reference @ '': tag required''))
          else and_use (reg_Tags reg cachedTags (Join [registry, repository] ''/'')) id
                 (\<lambda>tags. return_act (referenceTag \<in> set tags)))"

subsection \<open>The operations of the default implementation\<close>

definition GetRepoImage :: "'r registry \<Rightarrow> string \<Rightarrow> ('r client, Info) action" where
  "GetRepoImage reg reference = ask (\<lambda>s. api_GetRepoImage reg reference (remote s))"

definition TryGetRepoImage :: "'r registry \<Rightarrow> string \<Rightarrow> ('r client, Info option) action" where
  "TryGetRepoImage reg reference = ask (\<lambda>s. tryGetRepoImage reg reference (remote s))"

definition PushImage :: "'r registry \<Rightarrow> string \<Rightarrow> labels \<Rightarrow> ('r client, unit) action" where
  "PushImage reg reference labels = lift (pushWithRetry (pushImage reg reference labels))"

definition DeleteRepoImage :: "'r registry \<Rightarrow> Info \<Rightarrow> ('r client, unit) action" where
  "DeleteRepoImage reg repoImage = lift (deleteImageByReference reg (iRepoDigest repoImage))"

definition TagRepoImage :: "'r registry \<Rightarrow> Info \<Rightarrow> string \<Rightarrow> ('r client, unit) action" where
  "TagRepoImage reg repoImage tag = lift (remote_tag reg (Join [iRepository repoImage, iTag repoImage] '':'') tag)"

definition reg_CopyImage :: "'r registry \<Rightarrow> string \<Rightarrow> string \<Rightarrow> ('r client, unit) action" where
  "reg_CopyImage reg sourceReference destinationReference = lift (remote_copy reg sourceReference destinationReference)"

end
