(* ===== verification/Repo_Records.thy ===== *)
theory Repo_Records
  imports Slug Storage_Calls
begin

text \<open>
  The tags under which werf keeps stages and records in the container registry: the names and
  parsers of \<open>src/pkg/storage/repo_stages_storage.go\<close> and the label formats of
  \<open>src/pkg/storage/import_metadata.go\<close> and \<open>src/pkg/storage/custom_tag_metadata.go\<close>. Of the other
  repository \<open>common-go\<close> the hash and the reversal of a string are parameters.
\<close>

subsection \<open>Names\<close>

definition RepoManagedImageRecord_ImageTagPrefix :: string where "RepoManagedImageRecord_ImageTagPrefix = ''managed-image-''"
definition RepoRejectedStageImageRecord_ImageTagSuffix :: string where "RepoRejectedStageImageRecord_ImageTagSuffix = ''-rejected''"
definition RepoImageMetadataByCommitRecord_ImageTagPrefix :: string where "RepoImageMetadataByCommitRecord_ImageTagPrefix = ''meta-''"
definition RepoCustomTagMetadata_ImageTagPrefix :: string where "RepoCustomTagMetadata_ImageTagPrefix = ''custom-tag-meta-''"
definition RepoImportMetadata_ImageTagPrefix :: string where "RepoImportMetadata_ImageTagPrefix = ''import-metadata-''"
definition RepoClientIDRecord_ImageTagPrefix :: string where "RepoClientIDRecord_ImageTagPrefix = ''client-id-''"
definition UnexpectedTagFormatErrorPrefix :: string where "UnexpectedTagFormatErrorPrefix = ''unexpected tag format''"
definition NamelessImageRecordTag :: string where "NamelessImageRecordTag = ''__nameless__''"

lemmas record_prefixes = RepoManagedImageRecord_ImageTagPrefix_def RepoRejectedStageImageRecord_ImageTagSuffix_def
  RepoImageMetadataByCommitRecord_ImageTagPrefix_def RepoCustomTagMetadata_ImageTagPrefix_def
  RepoImportMetadata_ImageTagPrefix_def RepoClientIDRecord_ImageTagPrefix_def

text \<open>\<open>strings.ReplaceAll\<close> for a text to replace that is not empty.\<close>

definition ReplaceAll :: "string \<Rightarrow> string \<Rightarrow> string \<Rightarrow> string" where
  "ReplaceAll s old new = Join (Split s old) new"

definition slugImageName :: "string \<Rightarrow> string" where
  "slugImageName imageName =
     (if imageName = [] then NamelessImageRecordTag
      else ReplaceAll (ReplaceAll (ReplaceAll imageName '' '' ''__space__'') ''/'' ''__slash__'') ''+'' ''__plus__'')"

definition unslugImageName :: "string \<Rightarrow> string" where
  "unslugImageName tag =
     (let res = ReplaceAll (ReplaceAll (ReplaceAll tag ''__space__'' '' '') ''__slash__'' ''/'') ''__plus__'' ''+''
      in if res = NamelessImageRecordTag then [] else res)"

definition getManagedImageID :: "(string \<Rightarrow> string) \<Rightarrow> string \<Rightarrow> go_error + string" where
  "getManagedImageID murmur imageName =
     (let slugged = slugImageName imageName
      in if \<not> IsValidDockerTag slugged
         then LimitedSlug murmur slugged (DockerTagMaxSize - length RepoManagedImageRecord_ImageTagPrefix)
         else Inr slugged)"

definition getManagedImageNameFromManagedImageID :: "string \<Rightarrow> string" where
  "getManagedImageNameFromManagedImageID managedImageID = unslugImageName managedImageID"

definition getManagedImageNameByImageNameOrManagedImage :: "(string \<Rightarrow> string) \<Rightarrow> string \<Rightarrow> go_error + string" where
  "getManagedImageNameByImageNameOrManagedImage murmur imageName =
     map_sum id getManagedImageNameFromManagedImageID (getManagedImageID murmur imageName)"

definition getImageMetadataID :: "(string \<Rightarrow> string) \<Rightarrow> string \<Rightarrow> go_error + string" where
  "getImageMetadataID murmur imageName =
     map_sum id murmur (getManagedImageNameByImageNameOrManagedImage murmur imageName)"

definition makeRepoImageMetadataTagNameByImageMetadataID :: "string \<Rightarrow> string \<Rightarrow> string \<Rightarrow> string" where
  "makeRepoImageMetadataTagNameByImageMetadataID imageMetadataID commit stageID =
     ''meta-'' @ imageMetadataID @ ''_'' @ commit @ ''_'' @ stageID"

definition makeRepoImageMetadataTagName :: "(string \<Rightarrow> string) \<Rightarrow> string \<Rightarrow> string \<Rightarrow> string \<Rightarrow> go_error + string" where
  "makeRepoImageMetadataTagName murmur imageName commit stageID =
     map_sum id (\<lambda>i. makeRepoImageMetadataTagNameByImageMetadataID i commit stageID) (getImageMetadataID murmur imageName)"

definition makeRepoImageMetadataName :: "(string \<Rightarrow> string) \<Rightarrow> string \<Rightarrow> string \<Rightarrow> string \<Rightarrow> string \<Rightarrow> go_error + string" where
  "makeRepoImageMetadataName murmur repoAddress imageName commit stageID =
     map_sum id (\<lambda>t. repoAddress @ '':'' @ t) (makeRepoImageMetadataTagName murmur imageName commit stageID)"

definition makeRepoImageMetadataNameByImageMetadataID :: "string \<Rightarrow> string \<Rightarrow> string \<Rightarrow> string \<Rightarrow> string" where
  "makeRepoImageMetadataNameByImageMetadataID repoAddress imageMetadataID commit stageID =
     repoAddress @ '':'' @ makeRepoImageMetadataTagNameByImageMetadataID imageMetadataID commit stageID"

definition makeRepoCustomTagMetadataRecord :: "(string \<Rightarrow> string) \<Rightarrow> string \<Rightarrow> string \<Rightarrow> go_error + string" where
  "makeRepoCustomTagMetadataRecord murmur repoAddress tag =
     map_sum id (\<lambda>t. repoAddress @ '':'' @ ''custom-tag-meta-'' @ t) (LimitedSlug murmur tag 48)"

definition makeRepoManagedImageRecord :: "(string \<Rightarrow> string) \<Rightarrow> string \<Rightarrow> string \<Rightarrow> go_error + string" where
  "makeRepoManagedImageRecord murmur repoAddress imageName =
     map_sum id (\<lambda>t. repoAddress @ '':'' @ ''managed-image-'' @ t) (getManagedImageID murmur imageName)"

definition makeRepoRejectedStageImageRecord :: "string \<Rightarrow> string \<Rightarrow> int \<Rightarrow> string" where
  "makeRepoRejectedStageImageRecord repoAddress digest creationTs =
     repoAddress @ '':'' @ digest @ ''-'' @ int_dec creationTs @ ''-rejected''"

definition makeRepoImportMetadataName :: "string \<Rightarrow> string \<Rightarrow> string" where
  "makeRepoImportMetadataName repoAddress importSourceID = repoAddress @ '':'' @ ''import-metadata-'' @ importSourceID"

definition getImportMetadataIDFromRepoTag :: "string \<Rightarrow> string" where
  "getImportMetadataIDFromRepoTag tag = TrimPrefix tag RepoImportMetadata_ImageTagPrefix"

definition ConstructStageImageName :: "string \<Rightarrow> string \<Rightarrow> int \<Rightarrow> string" where
  "ConstructStageImageName repoAddress digest creationTs =
     (if creationTs = 0 then repoAddress @ '':'' @ digest
      else repoAddress @ '':'' @ digest @ ''-'' @ int_dec creationTs)"

subsection \<open>Stages\<close>

definition getDigestAndCreationTsFromRepoStageImageTag :: "string \<Rightarrow> go_error + string \<times> int" where
  "getDigestAndCreationTsFromRepoStageImageTag tag =
     (case SplitN tag ''-'' 2 of
        [digest] \<Rightarrow>
          if length digest \<noteq> 56 then Inl (Err (UnexpectedTagFormatErrorPrefix @ '': sha3-224 hash expected''))
          else Inr (digest, 0)
      | [digest, ts] \<Rightarrow>
          (case ParseCreationTs ts of
             None \<Rightarrow> Inl (Err (UnexpectedTagFormatErrorPrefix @ '' '' @ tag @ '': unable to parse unique id '' @ ts))
           | Some creationTs \<Rightarrow> Inr (digest, creationTs))
      | _ \<Rightarrow> Inl (Err (UnexpectedTagFormatErrorPrefix @ '' '' @ tag)))"

definition isUnexpectedTagFormatError :: "go_error \<Rightarrow> bool" where
  "isUnexpectedTagFormatError e \<longleftrightarrow> HasPrefix (error_text e) UnexpectedTagFormatErrorPrefix"

text \<open>The tags that \<open>GetStagesIDs\<close> looks at.\<close>

definition is_stage_tag :: "string \<Rightarrow> bool" where
  "is_stage_tag tag \<longleftrightarrow>
     (length tag = 70 \<and> length (Split tag ''-'') = 2 \<or> length tag = 56) \<and>
     \<not> (HasPrefix tag RepoManagedImageRecord_ImageTagPrefix \<or> HasPrefix tag RepoImageMetadataByCommitRecord_ImageTagPrefix \<or>
        HasSuffix tag RepoRejectedStageImageRecord_ImageTagSuffix)"

fun stage_ids_of_tags :: "string list \<Rightarrow> go_error + StageID list" where
  "stage_ids_of_tags [] = Inr []"
| "stage_ids_of_tags (tag # tags) =
     (if \<not> is_stage_tag tag then stage_ids_of_tags tags
      else case getDigestAndCreationTsFromRepoStageImageTag tag of
             Inl e \<Rightarrow> if isUnexpectedTagFormatError e then stage_ids_of_tags tags else Inl e
           | Inr (digest, creationTs) \<Rightarrow> map_sum id ((#) (NewStageID digest creationTs)) (stage_ids_of_tags tags))"

fun rejected_of_tags :: "string \<Rightarrow> string list \<Rightarrow> go_error + StageID list" where
  "rejected_of_tags digest [] = Inr []"
| "rejected_of_tags digest (tag # tags) =
     (if \<not> HasSuffix tag RepoRejectedStageImageRecord_ImageTagSuffix then rejected_of_tags digest tags
      else case getDigestAndCreationTsFromRepoStageImageTag (TrimSuffix tag RepoRejectedStageImageRecord_ImageTagSuffix) of
             Inl e \<Rightarrow> if isUnexpectedTagFormatError e then rejected_of_tags digest tags
                      else Inl (Err (''unable to get digest and creation timestamp from rejected stage tag '' @ tag @ '': '' @ error_text e))
           | Inr (_, creationTs) \<Rightarrow> map_sum id ((#) (NewStageID digest creationTs)) (rejected_of_tags digest tags))"

fun suitable_of_tags :: "string \<Rightarrow> int \<Rightarrow> StageID list \<Rightarrow> string list \<Rightarrow> go_error + StageID list" where
  "suitable_of_tags digest parentTs rejected [] = Inr []"
| "suitable_of_tags digest parentTs rejected (tag # tags) =
     (let rest = suitable_of_tags digest parentTs rejected tags
      in if \<not> HasPrefix tag digest \<or> HasSuffix tag RepoRejectedStageImageRecord_ImageTagSuffix then rest
         else case getDigestAndCreationTsFromRepoStageImageTag tag of
                Inl e \<Rightarrow> if isUnexpectedTagFormatError e then rest
                         else Inl (Err (''unable to get digest and creation timestamp from tag '' @ tag @ '': '' @ error_text e))
              | Inr (_, creationTs) \<Rightarrow>
                  if parentTs > creationTs then rest
                  else let stageID = NewStageID digest creationTs
                       in if \<exists>r \<in> set rejected. Digest r = Digest stageID \<and> CreationTs r = CreationTs stageID then rest
                          else map_sum id ((#) stageID) rest)"

definition ids_by_digest :: "string \<Rightarrow> int \<Rightarrow> string list \<Rightarrow> go_error + StageID list" where
  "ids_by_digest digest parentTs tags =
     (case rejected_of_tags digest tags of
        Inl e \<Rightarrow> Inl e
      | Inr rejected \<Rightarrow> suitable_of_tags digest parentTs rejected tags)"

subsection \<open>Image metadata\<close>

text \<open>The tables of the managed and of the other images, filled tag by tag.\<close>

definition metadata_key :: "(string, string) go_map \<Rightarrow> string \<Rightarrow> bool \<times> string" where
  "metadata_key ids tagImageNameID =
     (case map_of ids tagImageNameID of Some imageName \<Rightarrow> (True, imageName) | None \<Rightarrow> (False, tagImageNameID))"

definition add_commit :: "string \<Rightarrow> string \<Rightarrow> string \<Rightarrow> image_commit_map \<Rightarrow> image_commit_map" where
  "add_commit imageName stageID commit res =
     AList.update imageName
       (slice_append stageID [commit] (case map_of res imageName of Some t \<Rightarrow> t | None \<Rightarrow> [])) res"

definition group_tag ::
  "(string, string) go_map \<Rightarrow> string \<Rightarrow> image_commit_map \<times> image_commit_map \<Rightarrow> string \<Rightarrow> image_commit_map \<times> image_commit_map" where
  "group_tag ids imageTagPrefix = (\<lambda>(result, notManaged) tag.
     if \<not> HasPrefix tag imageTagPrefix then (result, notManaged)
     else case Split (TrimPrefix tag imageTagPrefix) ''_'' of
            [tagImageNameID, tagCommit, tagStageID] \<Rightarrow>
              (case metadata_key ids tagImageNameID of
                 (True, imageName) \<Rightarrow> (add_commit imageName tagStageID tagCommit result, notManaged)
               | (False, imageName) \<Rightarrow> (result, add_commit imageName tagStageID tagCommit notManaged))
          | _ \<Rightarrow> (result, notManaged))"

fun metadata_ids :: "(string \<Rightarrow> string) \<Rightarrow> string list \<Rightarrow> (string, string) go_map \<Rightarrow> go_error + (string, string) go_map" where
  "metadata_ids murmur [] m = Inr m"
| "metadata_ids murmur (nm # nms) m =
     (case getImageMetadataID murmur nm of Inl e \<Rightarrow> Inl e | Inr i \<Rightarrow> metadata_ids murmur nms (AList.update i nm m))"

definition groupImageMetadataTagsByImageName ::
  "(string \<Rightarrow> string) \<Rightarrow> string list \<Rightarrow> string list \<Rightarrow> string \<Rightarrow> go_error + image_commit_map \<times> image_commit_map" where
  "groupImageMetadataTagsByImageName murmur imageNames tags imageTagPrefix =
     map_sum id (\<lambda>ids. foldl (group_tag ids imageTagPrefix) ([], []) tags) (metadata_ids murmur imageNames [])"

end
