(* ===== verification/Repo_Storage.thy ===== *)
theory Repo_Storage
  imports Registry Repo_Records
begin

text \<open>
  The stages storage in a container registry: \<open>src/pkg/storage/repo_stages_storage.go\<close>,
  \<open>import_metadata.go\<close>, \<open>custom_tag_metadata.go\<close> and \<open>tags.go\<close>. Every operation is an action on the
  client of the registry. The log is left out, and so are the operations that only pass an image to
  the container backend.
\<close>

subsection \<open>Records and their labels\<close>

definition WerfLabel :: string where "WerfLabel = ''werf''"
definition WerfLabelPrefix :: string where "WerfLabelPrefix = ''werf''"
definition WerfImportMetadataChecksumLabel :: string where "WerfImportMetadataChecksumLabel = ''checksum''"
definition WerfImportMetadataSourceStageIDLabel :: string where "WerfImportMetadataSourceStageIDLabel = ''source-stage-id''"
definition WerfImportMetadataImportSourceIDLabel :: string where "WerfImportMetadataImportSourceIDLabel = ''import-source-id''"
definition WerfCustomTagMetadataStageIDLabel :: string where "WerfCustomTagMetadataStageIDLabel = ''stage-id''"
definition WerfCustomTagMetadataTag :: string where "WerfCustomTagMetadataTag = ''tag''"
definition RepoSyncServerRecord_LabelAddress :: string where "RepoSyncServerRecord_LabelAddress = ''syncserver''"
definition RepoSyncServerRecord_LabelTimestamp :: string where "RepoSyncServerRecord_LabelTimestamp = ''syncservertimestamp''"
definition RepoCleanUpRecord_LabelTimestamp :: string where "RepoCleanUpRecord_LabelTimestamp = ''lastcleanuptimestamp''"
definition RepoSyncServerRecord_ImageTagPrefix :: string where "RepoSyncServerRecord_ImageTagPrefix = ''sync-server''"
definition RepoCleanUpRecord_ImageTagPrefix :: string where "RepoCleanUpRecord_ImageTagPrefix = ''cleanup''"

lemmas label_defs = WerfLabel_def WerfLabelPrefix_def WerfImportMetadataChecksumLabel_def WerfImportMetadataSourceStageIDLabel_def
  WerfImportMetadataImportSourceIDLabel_def WerfCustomTagMetadataStageIDLabel_def WerfCustomTagMetadataTag_def
  RepoSyncServerRecord_LabelAddress_def RepoSyncServerRecord_LabelTimestamp_def RepoCleanUpRecord_LabelTimestamp_def
  RepoSyncServerRecord_ImageTagPrefix_def RepoCleanUpRecord_ImageTagPrefix_def

text \<open>\<open>m[k]\<close> of a map to strings is the empty string for an absent key.\<close>

definition label_get :: "labels \<Rightarrow> string \<Rightarrow> string" where
  "label_get ls k = (case map_of ls k of None \<Rightarrow> [] | Some v \<Rightarrow> v)"

definition ToLabelsMap :: "ImportMetadata \<Rightarrow> labels" where
  "ToLabelsMap m =
     [(WerfImportMetadataImportSourceIDLabel, ImportSourceID m), (WerfImportMetadataSourceStageIDLabel, SourceStageID m),
      (WerfImportMetadataChecksumLabel, Checksum m)]"

definition newImportMetadataFromLabels :: "labels \<Rightarrow> ImportMetadata" where
  "newImportMetadataFromLabels ls =
     \<lparr>ImportSourceID = label_get ls WerfImportMetadataImportSourceIDLabel,
      SourceStageID = label_get ls WerfImportMetadataSourceStageIDLabel,
      Checksum = label_get ls WerfImportMetadataChecksumLabel\<rparr>"

record CustomTagMetadata =
  ctm_StageID :: string
  ctm_Tag :: string

definition newCustomTagMetadata :: "string \<Rightarrow> string \<Rightarrow> CustomTagMetadata" where
  "newCustomTagMetadata stageID tag = \<lparr>ctm_StageID = stageID, ctm_Tag = tag\<rparr>"

definition ToLabels :: "CustomTagMetadata \<Rightarrow> labels" where
  "ToLabels m = [(WerfCustomTagMetadataStageIDLabel, ctm_StageID m), (WerfCustomTagMetadataTag, ctm_Tag m)]"

definition newCustomTagMetadataFromLabels :: "labels \<Rightarrow> CustomTagMetadata" where
  "newCustomTagMetadataFromLabels ls =
     \<lparr>ctm_StageID = label_get ls WerfCustomTagMetadataStageIDLabel, ctm_Tag = label_get ls WerfCustomTagMetadataTag\<rparr>"

record ClientIDRecord =
  ClientID :: string
  cid_TimestampMillisec :: int

record SyncServerRecord =
  Server :: string
  ssr_TimestampMillisec :: int

subsection \<open>The storage\<close>

record 'r RepoStagesStorage =
  RepoAddress :: string
  DockerRegistry :: "'r registry"
  LegacyMurmurHash :: "string \<Rightarrow> string"
  cleanupDisabled :: bool

abbreviation err_get :: "string \<Rightarrow> go_error \<Rightarrow> go_error" where
  "err_get fullImageName \<equiv> wrap (''unable to get repo image '' @ fullImageName)"

abbreviation err_info :: "string \<Rightarrow> go_error \<Rightarrow> go_error" where
  "err_info fullImageName \<equiv> wrap (''unable to get repo image '' @ fullImageName @ '' info'')"

abbreviation err_push :: "string \<Rightarrow> go_error \<Rightarrow> go_error" where
  "err_push fullImageName \<equiv> wrap (''unable to push image '' @ fullImageName)"

abbreviation err_delete :: "string \<Rightarrow> go_error \<Rightarrow> go_error" where
  "err_delete fullImageName \<equiv> wrap (''unable to delete image '' @ fullImageName @ '' from repo'')"

text \<open>A record is pushed under a name that the code computes and that may fail to be computed.\<close>

definition with_name :: "go_error + string \<Rightarrow> (string \<Rightarrow> ('s, 'a) action) \<Rightarrow> ('s, 'a) action" where
  "with_name n k = (case n of Inl e \<Rightarrow> fail_act e | Inr fullImageName \<Rightarrow> k fullImageName)"

definition push_record :: "'r RepoStagesStorage \<Rightarrow> labels \<Rightarrow> string \<Rightarrow> ('r client, unit) action" where
  "push_record st labels fullImageName =
     and_use (PushImage (DockerRegistry st) fullImageName labels) (err_push fullImageName) return_act"

text \<open>The deletion of an image that may be missing; the callers differ in the messages of their errors.\<close>

definition rm_record ::
  "'r RepoStagesStorage \<Rightarrow> (go_error \<Rightarrow> go_error) \<Rightarrow> (Info \<Rightarrow> go_error \<Rightarrow> go_error) \<Rightarrow> string \<Rightarrow> ('r client, unit) action" where
  "rm_record st get_error delete_error fullImageName =
     and_use (TryGetRepoImage (DockerRegistry st) fullImageName) get_error
       (\<lambda>img. case img of None \<Rightarrow> return_act ()
         | Some imgInfo \<Rightarrow> and_use (DeleteRepoImage (DockerRegistry st) imgInfo) (delete_error imgInfo) return_act)"

definition st_Tags :: "'r RepoStagesStorage \<Rightarrow> bool \<Rightarrow> ('r client, string list) action" where
  "st_Tags st cached = reg_Tags (DockerRegistry st) cached (RepoAddress st)"

abbreviation err_tags :: "'r RepoStagesStorage \<Rightarrow> go_error \<Rightarrow> go_error" where
  "err_tags st \<equiv> wrap (''unable to get repo '' @ RepoAddress st @ '' tags'')"

subsection \<open>Stages\<close>

definition GetStagesIDs :: "'r RepoStagesStorage \<Rightarrow> bool \<Rightarrow> ('r client, StageID list) action" where
  "GetStagesIDs st cached = and_use (st_Tags st cached) (wrap (''unable to fetch tags for repo '' @ RepoAddress st))
     (\<lambda>tags. ask (\<lambda>_. stage_ids_of_tags tags))"

definition GetStagesIDsByDigest :: "'r RepoStagesStorage \<Rightarrow> bool \<Rightarrow> string \<Rightarrow> int \<Rightarrow> ('r client, StageID list) action" where
  "GetStagesIDsByDigest st cached digest parentStageCreationTs =
     and_use (st_Tags st cached) (wrap (''unable to fetch tags for repo '' @ RepoAddress st))
       (\<lambda>tags. ask (\<lambda>_. ids_by_digest digest parentStageCreationTs tags))"

definition rejected_name :: "'r RepoStagesStorage \<Rightarrow> StageID \<Rightarrow> string" where
  "rejected_name st i = makeRepoRejectedStageImageRecord (RepoAddress st) (Digest i) (CreationTs i)"

text \<open>The description of a stage is without its address here, as it is new.\<close>

definition ErrBrokenImage :: go_error where "ErrBrokenImage = Err ''broken image''"

definition GetStageDesc :: "'r RepoStagesStorage \<Rightarrow> StageID \<Rightarrow> ('r client, (StageID \<times> Info) option) action" where
  "GetStageDesc st stageID s =
     (let stageImageName = ConstructStageImageName (RepoAddress st) (Digest stageID) (CreationTs stageID)
      in case GetRepoImage (DockerRegistry st) stageImageName s of
           (Inl e, s') \<Rightarrow>
             (if IsImageNotFoundError (DockerRegistry st) e then return_act None s'
              else if IsBrokenImageError (DockerRegistry st) e then fail_act ErrBrokenImage s'
              else fail_act (wrap (''unable to inspect repo image '' @ stageImageName) e) s')
         | (Inr imgInfo, s') \<Rightarrow>
             and_use (TryGetRepoImage (DockerRegistry st) (rejected_name st stageID)) (err_get (rejected_name st stageID))
               (\<lambda>rejectedImgInfo. return_act (case rejectedImgInfo of
                  Some _ \<Rightarrow> None
                | None \<Rightarrow> Some (NewStageID (Digest stageID) (CreationTs stageID), imgInfo))) s')"

definition DeleteStage :: "'r RepoStagesStorage \<Rightarrow> StageDesc \<Rightarrow> ('r client, unit) action" where
  "DeleteStage st stageDesc =
     and_use (DeleteRepoImage (DockerRegistry st) (desc_info stageDesc))
       (wrap (''unable to remove repo image '' @ iName (desc_info stageDesc)))
       (\<lambda>_. let rejectedImageName = rejected_name st (desc_id stageDesc)
            in and_use (TryGetRepoImage (DockerRegistry st) rejectedImageName)
                 (wrap (''unable to get rejected image record '' @ rejectedImageName))
                 (\<lambda>img. case img of None \<Rightarrow> return_act ()
                   | Some rejectedImgInfo \<Rightarrow> and_use (DeleteRepoImage (DockerRegistry st) rejectedImgInfo)
                       (wrap (''unable to remove rejected image record '' @ rejectedImageName)) return_act))"

definition RejectStage :: "'r RepoStagesStorage \<Rightarrow> string \<Rightarrow> string \<Rightarrow> int \<Rightarrow> ('r client, unit) action" where
  "RejectStage st projectName digest creationTs =
     (let rejectedImageName = makeRepoRejectedStageImageRecord (RepoAddress st) digest creationTs
      in and_use (PushImage (DockerRegistry st) rejectedImageName [(WerfLabel, projectName)])
           (wrap (''unable to push rejected stage image record '' @ rejectedImageName)) return_act)"

definition CopyFromStorage ::
  "'r RepoStagesStorage \<Rightarrow> (string \<Rightarrow> int \<Rightarrow> string) \<Rightarrow> StageID \<Rightarrow> ('r client, (StageID \<times> Info) option) action" where
  "CopyFromStorage st src_ConstructStageImageName stageID =
     (let err = wrap (''unable to get stage '' @ StageID_String stageID @ '' description'')
      in and_use (GetStageDesc st stageID) err
           (\<lambda>desc. case desc of Some _ \<Rightarrow> return_act desc
             | None \<Rightarrow>
                 and_use (reg_CopyImage (DockerRegistry st) (src_ConstructStageImageName (Digest stageID) (CreationTs stageID))
                            (ConstructStageImageName (RepoAddress st) (Digest stageID) (CreationTs stageID)))
                   (wrap ''unable to copy image into registry'') (\<lambda>_. and_use (GetStageDesc st stageID) err return_act)))"

text \<open>The labels of an exported stage.\<close>

definition mutateExportStageConfig :: "labels \<Rightarrow> labels" where
  "mutateExportStageConfig ls = filter (\<lambda>(nm, _). \<not> HasPrefix nm WerfLabelPrefix) ls"

subsection \<open>Custom tags\<close>

definition CheckStageCustomTag :: "'r RepoStagesStorage \<Rightarrow> StageDesc \<Rightarrow> string \<Rightarrow> ('r client, unit) action" where
  "CheckStageCustomTag st stageDesc tag =
     and_use (TryGetRepoImage (DockerRegistry st) (RepoAddress st @ '':'' @ tag)) id
       (\<lambda>img. case img of
          None \<Rightarrow> fail_act (Err (''custom tag '' @ tag @ '' not found''))
        | Some customTagImgInfo \<Rightarrow>
            if iID customTagImgInfo \<noteq> iID (desc_info stageDesc)
            then fail_act (Err (''custom tag '' @ tag @ '' image must be the same as associated content-based tag '' @
              desc_stageID stageDesc @ '' image''))
            else return_act ())"

definition AddStageCustomTag :: "'r RepoStagesStorage \<Rightarrow> StageDesc \<Rightarrow> string \<Rightarrow> ('r client, unit) action" where
  "AddStageCustomTag st stageDesc tag = TagRepoImage (DockerRegistry st) (desc_info stageDesc) tag"

definition DeleteStageCustomTag :: "'r RepoStagesStorage \<Rightarrow> string \<Rightarrow> ('r client, unit) action" where
  "DeleteStageCustomTag st tag = (let n = RepoAddress st @ '':'' @ tag in rm_record st (err_info n) (\<lambda>_. err_delete n) n)"

definition addStageCustomTagMetadata :: "'r RepoStagesStorage \<Rightarrow> string \<Rightarrow> StageID \<Rightarrow> string \<Rightarrow> ('r client, unit) action" where
  "addStageCustomTagMetadata st projectName stageID tag =
     with_name (makeRepoCustomTagMetadataRecord (LegacyMurmurHash st) (RepoAddress st) tag)
       (push_record st (AList.update WerfLabel projectName (ToLabels (newCustomTagMetadata (StageID_String stageID) tag))))"

definition deleteStageCustomTagMetadata :: "'r RepoStagesStorage \<Rightarrow> string \<Rightarrow> ('r client, unit) action" where
  "deleteStageCustomTagMetadata st tagOrID =
     with_name (makeRepoCustomTagMetadataRecord (LegacyMurmurHash st) (RepoAddress st) tagOrID)
       (\<lambda>fullImageName. and_use (GetRepoImage (DockerRegistry st) fullImageName) (err_info fullImageName)
          (\<lambda>imgInfo. and_use (DeleteRepoImage (DockerRegistry st) imgInfo) (err_delete fullImageName) return_act))"

definition GetStageCustomTagMetadata :: "'r RepoStagesStorage \<Rightarrow> string \<Rightarrow> ('r client, CustomTagMetadata) action" where
  "GetStageCustomTagMetadata st tagOrID =
     with_name (makeRepoCustomTagMetadataRecord (LegacyMurmurHash st) (RepoAddress st) tagOrID)
       (\<lambda>fullImageName. and_use (GetRepoImage (DockerRegistry st) fullImageName) (err_get fullImageName)
          (\<lambda>img. return_act (newCustomTagMetadataFromLabels (iLabels img))))"

definition GetStageCustomTagMetadataIDs :: "'r RepoStagesStorage \<Rightarrow> bool \<Rightarrow> ('r client, string list) action" where
  "GetStageCustomTagMetadataIDs st cached = and_use (st_Tags st cached) (err_tags st)
     (\<lambda>tags. return_act (map (\<lambda>t. TrimPrefix t RepoCustomTagMetadata_ImageTagPrefix)
        (filter (\<lambda>t. HasPrefix t RepoCustomTagMetadata_ImageTagPrefix) tags)))"

definition RegisterStageCustomTag :: "'r RepoStagesStorage \<Rightarrow> string \<Rightarrow> StageID \<Rightarrow> string \<Rightarrow> ('r client, unit) action" where
  "RegisterStageCustomTag st projectName stageID tag =
     and_use (addStageCustomTagMetadata st projectName stageID tag) (wrap ''unable to add stage custom tag metadata'') return_act"

definition UnregisterStageCustomTag :: "'r RepoStagesStorage \<Rightarrow> string \<Rightarrow> ('r client, unit) action" where
  "UnregisterStageCustomTag st tag =
     and_use (deleteStageCustomTagMetadata st tag) (wrap ''unable to delete stage custom tag metadata'') return_act"

subsection \<open>Managed images\<close>

definition AddManagedImage :: "'r RepoStagesStorage \<Rightarrow> string \<Rightarrow> string \<Rightarrow> ('r client, unit) action" where
  "AddManagedImage st projectName imageName =
     with_name (makeRepoManagedImageRecord (LegacyMurmurHash st) (RepoAddress st) imageName) (push_record st [(WerfLabel, projectName)])"

definition RmManagedImage :: "'r RepoStagesStorage \<Rightarrow> string \<Rightarrow> ('r client, unit) action" where
  "RmManagedImage st imageName =
     with_name (makeRepoManagedImageRecord (LegacyMurmurHash st) (RepoAddress st) imageName)
       (\<lambda>n. rm_record st (err_info n) (\<lambda>_. err_delete n) n)"

definition IsManagedImageExist :: "'r RepoStagesStorage \<Rightarrow> bool \<Rightarrow> string \<Rightarrow> ('r client, bool) action" where
  "IsManagedImageExist st cached imageName =
     with_name (makeRepoManagedImageRecord (LegacyMurmurHash st) (RepoAddress st) imageName) (reg_IsTagExist (DockerRegistry st) cached)"

definition GetManagedImages :: "'r RepoStagesStorage \<Rightarrow> bool \<Rightarrow> ('r client, string list) action" where
  "GetManagedImages st cached = and_use (st_Tags st cached) (err_tags st)
     (\<lambda>tags. return_act (map (\<lambda>t. getManagedImageNameFromManagedImageID (TrimPrefix t RepoManagedImageRecord_ImageTagPrefix))
        (filter (\<lambda>t. HasPrefix t RepoManagedImageRecord_ImageTagPrefix) tags)))"

subsection \<open>Image metadata\<close>

definition PutImageMetadata :: "'r RepoStagesStorage \<Rightarrow> string \<Rightarrow> string \<Rightarrow> string \<Rightarrow> string \<Rightarrow> ('r client, unit) action" where
  "PutImageMetadata st projectName imageName commit stageID =
     with_name (makeRepoImageMetadataName (LegacyMurmurHash st) (RepoAddress st) imageName commit stageID)
       (push_record st [(WerfLabel, projectName)])"

definition selectMetadataNameImage :: "'r RepoStagesStorage \<Rightarrow> string \<Rightarrow> string \<Rightarrow> string \<Rightarrow> ('r client, Info option) action" where
  "selectMetadataNameImage st imageNameOrID commit stageID =
     with_name (makeRepoImageMetadataName (LegacyMurmurHash st) (RepoAddress st) imageNameOrID commit stageID)
       (\<lambda>dockerImageName. and_use (TryGetRepoImage (DockerRegistry st) dockerImageName) (err_get dockerImageName)
          (\<lambda>img. case img of
             Some _ \<Rightarrow> return_act img
           | None \<Rightarrow>
               if \<not> IsValidDockerTag (makeRepoImageMetadataTagNameByImageMetadataID imageNameOrID commit stageID) then return_act None
               else let dockerImageName2 = makeRepoImageMetadataNameByImageMetadataID (RepoAddress st) imageNameOrID commit stageID
                    in and_use (TryGetRepoImage (DockerRegistry st) dockerImageName2) (err_get dockerImageName2) return_act))"

definition RmImageMetadata :: "'r RepoStagesStorage \<Rightarrow> string \<Rightarrow> string \<Rightarrow> string \<Rightarrow> ('r client, unit) action" where
  "RmImageMetadata st imageNameOrID commit stageID =
     and_use (selectMetadataNameImage st imageNameOrID commit stageID) id
       (\<lambda>img. case img of None \<Rightarrow> return_act ()
         | Some i \<Rightarrow> and_use (DeleteRepoImage (DockerRegistry st) i) (wrap (''unable to remove repo image '' @ iTag i)) return_act)"

definition IsImageMetadataExist :: "'r RepoStagesStorage \<Rightarrow> bool \<Rightarrow> string \<Rightarrow> string \<Rightarrow> string \<Rightarrow> ('r client, bool) action" where
  "IsImageMetadataExist st cached imageName commit stageID =
     with_name (makeRepoImageMetadataName (LegacyMurmurHash st) (RepoAddress st) imageName commit stageID)
       (reg_IsTagExist (DockerRegistry st) cached)"

definition GetAllAndGroupImageMetadataByImageName ::
  "'r RepoStagesStorage \<Rightarrow> bool \<Rightarrow> string list \<Rightarrow> ('r client, image_commit_map \<times> image_commit_map) action" where
  "GetAllAndGroupImageMetadataByImageName st cached imageNames = and_use (st_Tags st cached) (err_tags st)
     (\<lambda>tags. ask (\<lambda>_. groupImageMetadataTagsByImageName (LegacyMurmurHash st) imageNames tags RepoImageMetadataByCommitRecord_ImageTagPrefix))"

subsection \<open>Import metadata\<close>

definition GetImportMetadata :: "'r RepoStagesStorage \<Rightarrow> string \<Rightarrow> ('r client, ImportMetadata option) action" where
  "GetImportMetadata st iid =
     (let fullImageName = makeRepoImportMetadataName (RepoAddress st) iid
      in and_use (TryGetRepoImage (DockerRegistry st) fullImageName) (err_get fullImageName)
           (\<lambda>img. return_act (map_option (\<lambda>i. newImportMetadataFromLabels (iLabels i)) img)))"

definition PutImportMetadata :: "'r RepoStagesStorage \<Rightarrow> string \<Rightarrow> ImportMetadata \<Rightarrow> ('r client, unit) action" where
  "PutImportMetadata st projectName metadata =
     push_record st (AList.update WerfLabel projectName (ToLabelsMap metadata))
       (makeRepoImportMetadataName (RepoAddress st) (ImportSourceID metadata))"

definition RmImportMetadata :: "'r RepoStagesStorage \<Rightarrow> string \<Rightarrow> ('r client, unit) action" where
  "RmImportMetadata st iid = 
     (let n = makeRepoImportMetadataName (RepoAddress st) iid
      in rm_record st (err_get n) (\<lambda>img. wrap (''unable to remove repo image '' @ iTag img)) n)"

definition GetImportMetadataIDs :: "'r RepoStagesStorage \<Rightarrow> bool \<Rightarrow> ('r client, string list) action" where
  "GetImportMetadataIDs st cached = and_use (st_Tags st cached) (err_tags st)
     (\<lambda>tags. return_act (map getImportMetadataIDFromRepoTag (filter (\<lambda>t. HasPrefix t RepoImportMetadata_ImageTagPrefix) tags)))"

subsection \<open>Records of clients, servers and cleanups\<close>

definition client_record :: "(string \<Rightarrow> string) \<Rightarrow> string \<Rightarrow> ClientIDRecord option" where
  "client_record Reverse tag =
     (if \<not> HasPrefix tag RepoClientIDRecord_ImageTagPrefix then None
      else case SplitN (Reverse (TrimPrefix tag RepoClientIDRecord_ImageTagPrefix)) ''-'' 2 of
             [ts, clientID] \<Rightarrow>
               map_option (\<lambda>t. \<lparr>ClientID = Reverse clientID, cid_TimestampMillisec = t\<rparr>) (ParseInt (Reverse ts))
           | _ \<Rightarrow> None)"

definition GetClientIDRecords :: "(string \<Rightarrow> string) \<Rightarrow> 'r RepoStagesStorage \<Rightarrow> bool \<Rightarrow> ('r client, ClientIDRecord list) action" where
  "GetClientIDRecords Reverse st cached = and_use (st_Tags st cached) (err_tags st)
     (\<lambda>tags. return_act (List.map_filter (client_record Reverse) tags))"

definition client_record_name :: "string \<Rightarrow> ClientIDRecord \<Rightarrow> string" where
  "client_record_name repo rec = repo @ '':client-id-'' @ ClientID rec @ ''-'' @ int_dec (cid_TimestampMillisec rec)"

definition PostClientIDRecord :: "'r RepoStagesStorage \<Rightarrow> string \<Rightarrow> ClientIDRecord \<Rightarrow> ('r client, unit) action" where
  "PostClientIDRecord st projectName rec = push_record st [(WerfLabel, projectName)] (client_record_name (RepoAddress st) rec)"

fun sync_server_records :: "'r RepoStagesStorage \<Rightarrow> string list \<Rightarrow> ('r client, SyncServerRecord list) action" where
  "sync_server_records st [] = return_act []"
| "sync_server_records st (tag # tags) =
     (if \<not> HasPrefix tag RepoSyncServerRecord_ImageTagPrefix then sync_server_records st tags
      else and_use (GetRepoImage (DockerRegistry st) (RepoAddress st @ '':'' @ tag)) id
        (\<lambda>img. case map_of (iLabels img) RepoSyncServerRecord_LabelAddress of
           None \<Rightarrow> sync_server_records st tags
         | Some server \<Rightarrow>
             (case ParseInt (label_get (iLabels img) RepoSyncServerRecord_LabelTimestamp) of
                None \<Rightarrow> sync_server_records st tags
              | Some t \<Rightarrow> and_use (sync_server_records st tags) id
                  (\<lambda>recs. return_act (\<lparr>Server = server, ssr_TimestampMillisec = t\<rparr> # recs)))))"

definition GetSyncServerRecords :: "'r RepoStagesStorage \<Rightarrow> bool \<Rightarrow> ('r client, SyncServerRecord list) action" where
  "GetSyncServerRecords st cached = and_use (st_Tags st cached) (err_tags st) (sync_server_records st)"

definition PostSyncServerRecord :: "'r RepoStagesStorage \<Rightarrow> string \<Rightarrow> SyncServerRecord \<Rightarrow> ('r client, unit) action" where
  "PostSyncServerRecord st projectName rec =
     push_record st [(WerfLabel, projectName), (RepoSyncServerRecord_LabelAddress, Server rec),
       (RepoSyncServerRecord_LabelTimestamp, int_dec (ssr_TimestampMillisec rec))] (RepoAddress st @ '':sync-server'')"

fun getLastCleanupRecord :: "'r RepoStagesStorage \<Rightarrow> string list \<Rightarrow> ('r client, int option) action" where
  "getLastCleanupRecord st [] = return_act None"
| "getLastCleanupRecord st (tag # tags) =
     (if \<not> HasPrefix tag RepoCleanUpRecord_ImageTagPrefix then getLastCleanupRecord st tags
      else and_use (GetRepoImage (DockerRegistry st) (RepoAddress st @ '':'' @ tag)) id
        (\<lambda>img. case map_of (iLabels img) RepoCleanUpRecord_LabelTimestamp of
           None \<Rightarrow> getLastCleanupRecord st tags
         | Some t \<Rightarrow> (case ParseInt t of None \<Rightarrow> getLastCleanupRecord st tags | Some timestampMillisec \<Rightarrow> return_act (Some timestampMillisec))))"

definition GetLastCleanupRecord :: "'r RepoStagesStorage \<Rightarrow> bool \<Rightarrow> ('r client, int option) action" where
  "GetLastCleanupRecord st cached = and_use (st_Tags st cached) (err_tags st)
     (\<lambda>tags. and_use (getLastCleanupRecord st tags) (wrap ''unable to get last cleanup record'') return_act)"

definition PostLastCleanupRecord :: "'r RepoStagesStorage \<Rightarrow> string \<Rightarrow> int \<Rightarrow> ('r client, unit) action" where
  "PostLastCleanupRecord st projectName timestampMillisec =
     (if cleanupDisabled st then return_act ()
      else push_record st [(WerfLabel, projectName), (RepoCleanUpRecord_LabelTimestamp, int_dec timestampMillisec)]
             (RepoAddress st @ '':cleanup''))"

subsection \<open>The warnings about a missing cleanup\<close>

definition countMetaTags :: "string list \<Rightarrow> nat" where
  "countMetaTags tags = length (filter (\<lambda>t. HasPrefix t RepoImageMetadataByCommitRecord_ImageTagPrefix) tags)"

datatype cleanup_warning = Last_cleanup_overdue "int option" | Meta_tags_exceed nat nat

text \<open>The percentage is a float in the code; it exceeds 80 exactly when the fraction exceeds four fifths.\<close>

definition checkMetaTags :: "string list \<Rightarrow> cleanup_warning list" where
  "checkMetaTags tags =
     (if 100 * countMetaTags tags > 80 * length tags then [Meta_tags_exceed (countMetaTags tags) (length tags)] else [])"

definition isCleanupOverdue :: "int \<Rightarrow> int option \<Rightarrow> bool" where
  "isCleanupOverdue now lastCleanup =
     (case lastCleanup of None \<Rightarrow> True | Some t \<Rightarrow> t = 0 \<or> now - t > 14 * 24 * 60 * 60 * 1000)"

text \<open>Times are in milliseconds. The time of the last cleanup that is printed: none for a timestamp that is not positive.\<close>

definition formatLastCleanupTime :: "int option \<Rightarrow> int option" where
  "formatLastCleanupTime lastCleanup = (case lastCleanup of Some t \<Rightarrow> if t > 0 then Some t else None | None \<Rightarrow> None)"

text \<open>\<^term>\<open>None\<close> is \<open>ErrCleanupNotOverdue\<close>.\<close>

definition checkLastCleanup :: "'r RepoStagesStorage \<Rightarrow> int \<Rightarrow> string list \<Rightarrow> ('r client, cleanup_warning list option) action" where
  "checkLastCleanup st now tags =
     (if tags = [] then return_act (Some [])
      else and_use (getLastCleanupRecord st tags) (wrap ''getting last cleanup record'')
        (\<lambda>lastCleanup.
           let lastCleanupTime = formatLastCleanupTime lastCleanup
           in if lastCleanupTime = None \<or> isCleanupOverdue now lastCleanup
              then return_act (Some [Last_cleanup_overdue lastCleanupTime]) else return_act None))"

text \<open>An error of the first check is dropped, as in the code.\<close>

definition runCleanupNeededChecks :: "'r RepoStagesStorage \<Rightarrow> int \<Rightarrow> string list \<Rightarrow> ('r client, cleanup_warning list) action" where
  "runCleanupNeededChecks st now tags s =
     (case checkLastCleanup st now tags s of
        (Inl e, s') \<Rightarrow> (Inr (checkMetaTags tags), s')
      | (Inr None, s') \<Rightarrow> (Inr [], s')
      | (Inr (Some ws), s') \<Rightarrow> (Inr (ws @ checkMetaTags tags), s'))"

definition checkMeta :: "'r RepoStagesStorage \<Rightarrow> int \<Rightarrow> string list \<Rightarrow> ('r client, cleanup_warning list) action" where
  "checkMeta st now tags =
     (if length tags < 100 \<or> cleanupDisabled st then return_act [] else runCleanupNeededChecks st now tags)"

end
