(* ===== verification/Repo_Refinement.thy ===== *)
theory Repo_Refinement
  imports Repo_Storage
begin

text \<open>
  The records in the registry as a map: an abstract store from the names of the records to their labels,
  which the operations of the storage implement, failing ones included. The laws of the registry are
  \<open>registry_ok\<close>; the locale \<open>data_refinement\<close> turns the simulation of one operation into that of a
  sequence.
\<close>

subsection \<open>The laws of a registry\<close>

text \<open>\<open>view\<close> is what the registry holds: the images by their references.\<close>

type_synonym images = "string \<Rightarrow> Info option"

text \<open>A push sets the reference to a new image with the labels, whose digest no other reference has: the
  images of records are made with the time of their push.\<close>

definition pushed :: "string \<Rightarrow> labels \<Rightarrow> images \<Rightarrow> images \<Rightarrow> bool" where
  "pushed ref ls v v' \<longleftrightarrow> (\<exists>info. map_of (iLabels info) = map_of ls \<and> v' = v(ref \<mapsto> info) \<and>
     (\<forall>r j. r \<noteq> ref \<longrightarrow> v r = Some j \<longrightarrow> iRepoDigest j \<noteq> iRepoDigest info))"

text \<open>In general the image is pushed under a full name, and all references with this full name change.\<close>

definition called :: "'r registry \<Rightarrow> string \<Rightarrow> string set" where
  "called reg nm = {ref. \<exists>p. ParseReference reg ref = Inr (nm, p)}"

definition written :: "'r registry \<Rightarrow> string \<Rightarrow> labels \<Rightarrow> images \<Rightarrow> images \<Rightarrow> bool" where
  "written reg nm ls v v' \<longleftrightarrow> (\<exists>info. map_of (iLabels info) = map_of ls \<and>
     (\<forall>r. v' r = (if r \<in> called reg nm then Some info else v r)) \<and>
     (\<forall>r j. r \<notin> called reg nm \<longrightarrow> v r = Some j \<longrightarrow> iRepoDigest j \<noteq> iRepoDigest info))"

text \<open>A deletion by digest takes all references to the manifest.\<close>

definition without :: "string \<Rightarrow> images \<Rightarrow> images" where
  "without d v = (\<lambda>ref. case v ref of None \<Rightarrow> None | Some i \<Rightarrow> if iRepoDigest i = d then None else Some i)"

text \<open>A listing gives the tags of the repo; an image that can be read is the one of the reference; a push and a deletion that fail may have
  had their effect.\<close>

definition registry_ok :: "('r \<Rightarrow> images) \<Rightarrow> 'r registry \<Rightarrow> bool" where
  "registry_ok view reg \<longleftrightarrow>
     (\<forall>repo r. case remote_list reg repo r of
        Inr tags \<Rightarrow> distinct tags \<and> set tags = {t. view r (repo @ '':'' @ t) \<noteq> None}
      | Inl e \<Rightarrow> status_404 reg e \<longrightarrow> (\<forall>t. view r (repo @ '':'' @ t) = None)) \<and>
     (\<forall>ref r info. api_GetRepoImage reg ref r = Inr info \<longrightarrow> view r ref = Some info) \<and>
     (\<forall>nm ls r. case remote_write reg nm ls r of
        (Inr _, r') \<Rightarrow> written reg nm ls (view r) (view r')
      | (Inl _, r') \<Rightarrow> view r' = view r \<or> written reg nm ls (view r) (view r')) \<and>
     (\<forall>d nm p r. ParseReference reg d = Inr (nm, p) \<longrightarrow> (case remote_delete reg nm r of
        (Inr _, r') \<Rightarrow> view r' = without d (view r)
      | (Inl _, r') \<Rightarrow> view r' = view r \<or> view r' = without d (view r)))"

text \<open>The images that may be damaged: a registry can list a tag whose image cannot be read, because a blob, a manifest of
  the index or the repo of a blob is missing. The storage takes the error of such a read for an absent image, as
  \<open>tryGetRepoImage\<close> says. \<open>B\<close> has the references for which this may happen; for all others such an error means that the reference is absent.\<close>

definition damaged_only :: "('r \<Rightarrow> images) \<Rightarrow> 'r registry \<Rightarrow> string set \<Rightarrow> bool" where
  "damaged_only view reg B \<longleftrightarrow> (\<forall>ref r e. api_GetRepoImage reg ref r = Inl e \<longrightarrow>
     IsImageNotFoundError reg e \<or> IsBrokenImageError reg e \<longrightarrow> view r ref = None \<or> ref \<in> B)"

lemma list_laws:
  assumes "registry_ok view reg"
  shows "remote_list reg repo r = Inr tags \<Longrightarrow> distinct tags \<and> set tags = {t. view r (repo @ '':'' @ t) \<noteq> None}"
    and "remote_list reg repo r = Inl e \<Longrightarrow> status_404 reg e \<Longrightarrow> view r (repo @ '':'' @ t) = None"
proof -
  have "case remote_list reg repo r of Inr tags \<Rightarrow> distinct tags \<and> set tags = {t. view r (repo @ '':'' @ t) \<noteq> None}
      | Inl e \<Rightarrow> status_404 reg e \<longrightarrow> (\<forall>t. view r (repo @ '':'' @ t) = None)"
    using assms unfolding registry_ok_def by blast
  then show "remote_list reg repo r = Inr tags \<Longrightarrow> distinct tags \<and> set tags = {t. view r (repo @ '':'' @ t) \<noteq> None}"
    and "remote_list reg repo r = Inl e \<Longrightarrow> status_404 reg e \<Longrightarrow> view r (repo @ '':'' @ t) = None" by simp_all
qed

lemma get_law: "registry_ok view reg \<Longrightarrow> api_GetRepoImage reg ref r = Inr info \<Longrightarrow> view r ref = Some info"
  unfolding registry_ok_def by blast

lemma write_law:
  assumes "registry_ok view reg" "remote_write reg nm ls r = (x, r')"
  shows "written reg nm ls (view r) (view r') \<or> isl x \<and> view r' = view r"
proof -
  have "case remote_write reg nm ls r of (Inr _, r') \<Rightarrow> written reg nm ls (view r) (view r')
      | (Inl _, r') \<Rightarrow> view r' = view r \<or> written reg nm ls (view r) (view r')" using assms(1) by (simp add: registry_ok_def)
  then show ?thesis using assms(2) by (auto split: sum.splits)
qed

lemma delete_law:
  assumes "registry_ok view reg" "deleteImageByReference reg d r = (x, r')"
  shows "view r' = without d (view r) \<or> isl x \<and> view r' = view r"
proof (cases "ParseReference reg d")
  case (Inl e)
  then show ?thesis using assms(2) by (auto simp: deleteImageByReference_def)
next
  case (Inr q)
  obtain nm p where q: "q = (nm, p)" by (cases q)
  have "case remote_delete reg nm r of (Inr _, r') \<Rightarrow> view r' = without d (view r)
      | (Inl _, r') \<Rightarrow> view r' = view r \<or> view r' = without d (view r)"
    using assms(1) [unfolded registry_ok_def, THEN conjunct2, THEN conjunct2, THEN conjunct2] Inr q by simp
  then show ?thesis using assms(2) Inr q by (auto simp: deleteImageByReference_def split: prod.splits sum.splits)
qed

lemma written_again: "written reg nm ls v v' \<Longrightarrow> written reg nm ls v' v'' \<Longrightarrow> written reg nm ls v v''"
  unfolding written_def by auto

lemma written_pushed: "called reg nm = {ref} \<Longrightarrow> written reg nm ls v v' \<Longrightarrow> pushed ref ls v v'"
  unfolding written_def pushed_def by (auto simp: fun_eq_iff)

text \<open>An image that no other reference shares its digest with.\<close>

definition own :: "images \<Rightarrow> string \<Rightarrow> bool" where
  "own v ref \<longleftrightarrow> (\<forall>i r j. v ref = Some i \<longrightarrow> v r = Some j \<longrightarrow> iRepoDigest j = iRepoDigest i \<longrightarrow> r = ref)"

lemma own_pushed:
  assumes "pushed ref ls v v'" "own v r"
  shows "own v' r"
proof -
  obtain info where v': "v' = v(ref \<mapsto> info)" and fresh: "\<And>r j. r \<noteq> ref \<Longrightarrow> v r = Some j \<Longrightarrow> iRepoDigest j \<noteq> iRepoDigest info"
    using assms(1) unfolding pushed_def by blast
  show ?thesis unfolding own_def
  proof (intro allI impI)
    fix i r' j assume *: "v' r = Some i" "v' r' = Some j" "iRepoDigest j = iRepoDigest i"
    consider "r = ref" "r' \<noteq> ref" | "r = ref" "r' = ref" | "r \<noteq> ref" "r' = ref" | "r \<noteq> ref" "r' \<noteq> ref" by blast
    then show "r' = r"
    proof cases
      case 1
      then have "i = info" "v r' = Some j" using * unfolding v' by simp_all
      then show ?thesis using fresh 1 * by blast
    next
      case 3
      then have "j = info" "v r = Some i" using * unfolding v' by simp_all
      then show ?thesis using fresh 3 * by metis
    next
      case 4
      then have "v r = Some i" "v r' = Some j" using * unfolding v' by simp_all
      then show ?thesis using assms(2) *(3) unfolding own_def by blast
    qed simp
  qed
qed

lemma pushed_own: "pushed ref ls v v' \<Longrightarrow> own v' ref"
  unfolding pushed_def own_def by (metis fun_upd_apply option.inject)

lemma without_Some: "without d v r = Some i \<Longrightarrow> v r = Some i"
  by (simp add: without_def split: option.splits if_splits)

lemma own_without: "own v r \<Longrightarrow> own (without d v) r"
  unfolding own_def using without_Some by metis

lemma own_removed: "own v r \<Longrightarrow> own (v(ref := None)) r"
  by (auto simp: own_def)

lemma without_own:
  assumes "own v ref" "v ref = Some i"
  shows "without (iRepoDigest i) v = v(ref := None)"
proof
  fix r
  show "without (iRepoDigest i) v r = (v(ref := None)) r"
  proof (cases "r = ref")
    case True
    then show ?thesis using assms(2) by (simp add: without_def)
  next
    case False
    then have "v r = Some j \<Longrightarrow> iRepoDigest j \<noteq> iRepoDigest i" for j using assms unfolding own_def by blast
    then show ?thesis using False by (cases "v r") (simp_all add: without_def)
  qed
qed

subsection \<open>What the calls do to the images\<close>

abbreviation images_of :: "('r \<Rightarrow> images) \<Rightarrow> 'r client \<Rightarrow> images" where
  "images_of view s \<equiv> view (remote s)"

lemma and_useE:
  assumes "and_use m w k s = (x, s')"
  obtains (failed) e where "m s = (Inl e, s')" "x = Inl (w e)"
    | (passed) y t where "m s = (Inr y, t)" "k y t = (x, s')"
  using assms by (auto simp: and_use_def split: prod.splits sum.splits)

lemmas act_simps = return_act_def fail_act_def ask_def

lemma push_attempts_law:
  assumes "registry_ok view reg" and parsed: "ParseReference reg ref = Inr (nm, p)"
  shows "push_attempts (pushImage reg ref ls) n e r = (x, r') \<Longrightarrow> written reg nm ls (view r) (view r') \<or> isl x \<and> view r' = view r"
proof (induction n arbitrary: e r)
  case (Suc n)
  obtain y t where y: "remote_write reg nm ls r = (y, t)" by force
  note law = write_law [OF assms(1) y]
  show ?case
  proof (cases y)
    case (Inl e')
    show ?thesis
    proof (cases "retryable (wrap (''write to the remote '' @ nm @ '' have failed'') e')")
      case True
      then have "written reg nm ls (view t) (view r') \<or> isl x \<and> view r' = view t"
        using Suc y Inl parsed by (simp add: pushImage_def split_beta)
      then show ?thesis using law written_again by metis
    next
      case False
      then show ?thesis using law Suc.prems y Inl parsed by (auto simp: pushImage_def split_beta)
    qed
  next
    case (Inr u)
    then show ?thesis using law Suc.prems y parsed by (auto simp: pushImage_def split_beta)
  qed
qed auto

lemma push_attempts_refused:
  "ParseReference reg ref = Inl f \<Longrightarrow> push_attempts (pushImage reg ref ls) n e r = (x, r') \<Longrightarrow> r' = r \<and> isl x"
  by (induction n arbitrary: e) (auto simp: pushImage_def split: if_splits)

text \<open>A reference that no other one has the full name of.\<close>

definition unaliased :: "'r registry \<Rightarrow> string \<Rightarrow> bool" where
  "unaliased reg ref \<longleftrightarrow> (\<forall>nm p. ParseReference reg ref = Inr (nm, p) \<longrightarrow> called reg nm = {ref})"

lemma PushImage_law:
  assumes ok: "registry_ok view reg" and ref: "unaliased reg ref" and run: "PushImage reg ref ls s = (x, s')"
  shows "pushed ref ls (images_of view s) (images_of view s') \<or> isl x \<and> images_of view s' = images_of view s"
proof -
  obtain r' where r': "push_attempts (pushImage reg ref ls) retriesLimit (Err []) (remote s) = (x, r')" "remote s' = r'"
    using run by (auto simp: PushImage_def lift_def pushWithRetry_def split: prod.splits)
  show ?thesis
  proof (cases "ParseReference reg ref")
    case (Inl f)
    then show ?thesis using push_attempts_refused [OF _ r'(1)] r'(2) by simp
  next
    case (Inr q)
    obtain nm p where q: "q = (nm, p)" by (cases q)
    have "called reg nm = {ref}" using ref Inr q by (simp add: unaliased_def)
    then show ?thesis using push_attempts_law [OF ok Inr [unfolded q] r'(1)] r'(2) written_pushed by metis
  qed
qed

lemma GetRepoImage_law:
  "registry_ok view reg \<Longrightarrow> GetRepoImage reg ref s = (x, s') \<Longrightarrow> s' = s \<and> (\<forall>i. x = Inr i \<longrightarrow> images_of view s ref = Some i)"
  by (auto simp: GetRepoImage_def act_simps dest: get_law)

lemma TryGetRepoImage_Some:
  "registry_ok view reg \<Longrightarrow> TryGetRepoImage reg ref s = (x, s') \<Longrightarrow> s' = s \<and> (\<forall>i. x = Inr (Some i) \<longrightarrow> images_of view s ref = Some i)"
  by (auto simp: TryGetRepoImage_def tryGetRepoImage_def act_simps dest: get_law split: sum.splits if_splits)

lemma TryGetRepoImage_law:
  assumes "registry_ok view reg" "damaged_only view reg B" "ref \<notin> B" "TryGetRepoImage reg ref s = (x, s')"
  shows "s' = s \<and> (\<forall>i. x = Inr i \<longrightarrow> images_of view s ref = i)"
proof -
  have "images_of view s ref = None" if "x = Inr None"
  proof -
    have "tryGetRepoImage reg ref (remote s) = Inr None" using that assms(4) by (auto simp: TryGetRepoImage_def act_simps)
    then obtain e where e: "api_GetRepoImage reg ref (remote s) = Inl e" "IsImageNotFoundError reg e \<or> IsBrokenImageError reg e"
      by (auto simp: tryGetRepoImage_def split: sum.splits if_splits)
    show ?thesis using assms(2,3) e unfolding damaged_only_def by blast
  qed
  then show ?thesis using TryGetRepoImage_Some [OF assms(1,4)] by (metis not_None_eq)
qed

lemma DeleteRepoImage_law:
  assumes "registry_ok view reg" "DeleteRepoImage reg i s = (x, s')"
  shows "images_of view s' = without (iRepoDigest i) (images_of view s) \<or> isl x \<and> images_of view s' = images_of view s"
proof -
  obtain r where r: "deleteImageByReference reg (iRepoDigest i) (remote s) = (x, r)" "remote s' = r"
    using assms(2) by (auto simp: DeleteRepoImage_def lift_def split: prod.splits)
  show ?thesis using delete_law [OF assms(1) r(1)] r(2) by simp
qed

lemma delete_own:
  assumes "registry_ok view reg" "own (images_of view s) ref" "images_of view s ref = Some i"
    "and_use (DeleteRepoImage reg i) w return_act s = (x, s')"
  shows "images_of view s' = (images_of view s)(ref := None) \<or> isl x \<and> images_of view s' = images_of view s"
  using assms(4)
proof (cases rule: and_useE)
  case (failed e)
  then show ?thesis using DeleteRepoImage_law [OF assms(1) failed(1)] without_own [OF assms(2,3)] by simp
next
  case (passed y t)
  then show ?thesis using DeleteRepoImage_law [OF assms(1) passed(1)] without_own [OF assms(2,3)] by (simp add: act_simps)
qed

lemma rm_record_law:
  assumes ok: "registry_ok view (DockerRegistry st)" "damaged_only view (DockerRegistry st) B" "ref \<notin> B"
    and own: "own (images_of view s) ref" and run: "rm_record st w w' ref s = (x, s')"
  shows "images_of view s' = (images_of view s)(ref := None) \<or> isl x \<and> images_of view s' = images_of view s"
  using run unfolding rm_record_def
proof (cases rule: and_useE)
  case (failed e)
  then show ?thesis using TryGetRepoImage_Some [OF ok(1) failed(1)] by simp
next
  case (passed img t)
  have img: "t = s" "images_of view s ref = img" using TryGetRepoImage_law [OF ok passed(1)] by auto
  show ?thesis
  proof (cases img)
    case None
    then show ?thesis using img passed(2) by (auto simp: act_simps fun_upd_idem)
  next
    case (Some i)
    with passed(2) have "and_use (DeleteRepoImage (DockerRegistry st) i) (w' i) return_act s = (x, s')" using img by simp
    from delete_own [OF ok(1) own img(2) [unfolded Some] this] show ?thesis .
  qed
qed

text \<open>The removal of a record that cannot be read returns nil and leaves it.\<close>

lemma rm_record_damaged:
  assumes "api_GetRepoImage (DockerRegistry st) ref (remote s) = Inl e"
    and "IsImageNotFoundError (DockerRegistry st) e \<or> IsBrokenImageError (DockerRegistry st) e"
  shows "rm_record st w w' ref s = (Inr (), s)"
  using assms by (simp add: rm_record_def and_use_def TryGetRepoImage_def tryGetRepoImage_def act_simps)

subsection \<open>An abstract store of records\<close>

text \<open>The abstraction: the labels of the images by their references.\<close>

definition content :: "images \<Rightarrow> string \<rightharpoonup> (string \<rightharpoonup> string)" where
  "content v = (\<lambda>ref. map_option (\<lambda>i. map_of (iLabels i)) (v ref))"

lemma content_pushed: "pushed ref ls v v' \<Longrightarrow> content v' = (content v)(ref \<mapsto> map_of ls)"
  by (auto simp: pushed_def content_def)

lemma content_removed: "content (v(ref := None)) = (content v)(ref := None)"
  by (auto simp: content_def)

lemma content_None [simp]: "content v ref = None \<longleftrightarrow> v ref = None"
  by (simp add: content_def)

text \<open>The references of records, whose images are of their own.\<close>

definition record_tag :: "string \<Rightarrow> bool" where
  "record_tag t \<longleftrightarrow> HasPrefix t ''managed-image-'' \<or> HasPrefix t ''meta-'' \<or> HasPrefix t ''custom-tag-meta-'' \<or>
     HasPrefix t ''import-metadata-'' \<or> HasPrefix t ''client-id-'' \<or> HasPrefix t ''sync-server'' \<or> HasPrefix t ''cleanup'' \<or>
     HasSuffix t ''-rejected''"

definition is_record :: "string \<Rightarrow> string \<Rightarrow> bool" where
  "is_record repo ref \<longleftrightarrow> (\<exists>t. ref = repo @ '':'' @ t \<and> record_tag t)"

definition records_own :: "('r \<Rightarrow> images) \<Rightarrow> string \<Rightarrow> 'r client \<Rightarrow> bool" where
  "records_own view repo s \<longleftrightarrow> (\<forall>ref. is_record repo ref \<longrightarrow> own (images_of view s) ref)"

lemma record_names:
  "makeRepoImageMetadataName murmur repo nm c i = Inr ref \<Longrightarrow> is_record repo ref"
  "makeRepoManagedImageRecord murmur repo nm = Inr ref \<Longrightarrow> is_record repo ref"
  "makeRepoCustomTagMetadataRecord murmur repo tag = Inr ref \<Longrightarrow> is_record repo ref"
  "is_record repo (makeRepoImageMetadataNameByImageMetadataID repo nm c i)"
  "is_record repo (makeRepoImportMetadataName repo iid)"
  "is_record repo (makeRepoRejectedStageImageRecord repo d ts)"
  "is_record repo (client_record_name repo rec)"
  "is_record repo (repo @ '':sync-server'')"
  "is_record repo (repo @ '':cleanup'')"
  unfolding is_record_def record_tag_def
  by (auto simp: makeRepoImageMetadataName_def makeRepoImageMetadataTagName_def makeRepoImageMetadataTagNameByImageMetadataID_def
    makeRepoManagedImageRecord_def makeRepoCustomTagMetadataRecord_def makeRepoImageMetadataNameByImageMetadataID_def
    makeRepoImportMetadataName_def makeRepoRejectedStageImageRecord_def client_record_name_def
    map_sum_def split: sum.splits)


text \<open>The records of a repo whose address is a full name have no other reference; the short names of Docker Hub have.\<close>

definition records_unaliased :: "'r RepoStagesStorage \<Rightarrow> bool" where
  "records_unaliased st \<longleftrightarrow> (\<forall>ref. is_record (RepoAddress st) ref \<longrightarrow> unaliased (DockerRegistry st) ref)"

abbreviation storage_laws :: "('r \<Rightarrow> images) \<Rightarrow> 'r RepoStagesStorage \<Rightarrow> bool" where
  "storage_laws view st \<equiv> registry_ok view (DockerRegistry st) \<and> records_unaliased st"

text \<open>The operations on records, and what each does to the abstract store. Their names are those of the code.\<close>

datatype record_op =
    Op_PutImageMetadata string string string
  | Op_RmImageMetadata string string string
  | Op_AddManagedImage string
  | Op_RmManagedImage string
  | Op_PutImportMetadata ImportMetadata
  | Op_RmImportMetadata string
  | Op_RegisterStageCustomTag StageID string
  | Op_UnregisterStageCustomTag string
  | Op_RejectStage string int
  | Op_PostClientIDRecord ClientIDRecord
  | Op_PostSyncServerRecord SyncServerRecord
  | Op_PostLastCleanupRecord int

fun do_op :: "'r RepoStagesStorage \<Rightarrow> string \<Rightarrow> record_op \<Rightarrow> ('r client, unit) action" where
  "do_op st project (Op_PutImageMetadata nm c i) = PutImageMetadata st project nm c i"
| "do_op st project (Op_RmImageMetadata nm c i) = RmImageMetadata st nm c i"
| "do_op st project (Op_AddManagedImage nm) = AddManagedImage st project nm"
| "do_op st project (Op_RmManagedImage nm) = RmManagedImage st nm"
| "do_op st project (Op_PutImportMetadata m) = PutImportMetadata st project m"
| "do_op st project (Op_RmImportMetadata iid) = RmImportMetadata st iid"
| "do_op st project (Op_RegisterStageCustomTag i tag) = RegisterStageCustomTag st project i tag"
| "do_op st project (Op_UnregisterStageCustomTag tag) = UnregisterStageCustomTag st tag"
| "do_op st project (Op_RejectStage d ts) = RejectStage st project d ts"
| "do_op st project (Op_PostClientIDRecord rec) = PostClientIDRecord st project rec"
| "do_op st project (Op_PostSyncServerRecord rec) = PostSyncServerRecord st project rec"
| "do_op st project (Op_PostLastCleanupRecord ts) = PostLastCleanupRecord st project ts"

type_synonym store = "string \<rightharpoonup> (string \<rightharpoonup> string)"

definition put_eff :: "go_error + string \<Rightarrow> labels \<Rightarrow> store \<Rightarrow> store" where
  "put_eff n ls M = (case n of Inl _ \<Rightarrow> M | Inr ref \<Rightarrow> M(ref \<mapsto> map_of ls))"

definition rm_eff :: "go_error + string \<Rightarrow> store \<Rightarrow> store" where
  "rm_eff n M = (case n of Inl _ \<Rightarrow> M | Inr ref \<Rightarrow> M(ref := None))"

text \<open>Metadata is removed under the name of the image, and otherwise under the identifier of the metadata.\<close>

definition rm_metadata_eff :: "'r RepoStagesStorage \<Rightarrow> string \<Rightarrow> string \<Rightarrow> string \<Rightarrow> store \<Rightarrow> store" where
  "rm_metadata_eff st nm c i M =
     (case makeRepoImageMetadataName (LegacyMurmurHash st) (RepoAddress st) nm c i of
        Inl _ \<Rightarrow> M
      | Inr ref \<Rightarrow>
          if M ref \<noteq> None then M(ref := None)
          else if IsValidDockerTag (makeRepoImageMetadataTagNameByImageMetadataID nm c i)
          then M(makeRepoImageMetadataNameByImageMetadataID (RepoAddress st) nm c i := None)
          else M)"

fun eff :: "'r RepoStagesStorage \<Rightarrow> string \<Rightarrow> record_op \<Rightarrow> store \<Rightarrow> store" where
  "eff st project (Op_PutImageMetadata nm c i) =
     put_eff (makeRepoImageMetadataName (LegacyMurmurHash st) (RepoAddress st) nm c i) [(WerfLabel, project)]"
| "eff st project (Op_RmImageMetadata nm c i) = rm_metadata_eff st nm c i"
| "eff st project (Op_AddManagedImage nm) =
     put_eff (makeRepoManagedImageRecord (LegacyMurmurHash st) (RepoAddress st) nm) [(WerfLabel, project)]"
| "eff st project (Op_RmManagedImage nm) = rm_eff (makeRepoManagedImageRecord (LegacyMurmurHash st) (RepoAddress st) nm)"
| "eff st project (Op_PutImportMetadata m) =
     put_eff (Inr (makeRepoImportMetadataName (RepoAddress st) (ImportSourceID m))) (AList.update WerfLabel project (ToLabelsMap m))"
| "eff st project (Op_RmImportMetadata iid) = rm_eff (Inr (makeRepoImportMetadataName (RepoAddress st) iid))"
| "eff st project (Op_RegisterStageCustomTag i tag) =
     put_eff (makeRepoCustomTagMetadataRecord (LegacyMurmurHash st) (RepoAddress st) tag)
       (AList.update WerfLabel project (ToLabels (newCustomTagMetadata (StageID_String i) tag)))"
| "eff st project (Op_UnregisterStageCustomTag tag) =
     rm_eff (makeRepoCustomTagMetadataRecord (LegacyMurmurHash st) (RepoAddress st) tag)"
| "eff st project (Op_RejectStage d ts) = put_eff (Inr (makeRepoRejectedStageImageRecord (RepoAddress st) d ts)) [(WerfLabel, project)]"
| "eff st project (Op_PostClientIDRecord rec) = put_eff (Inr (client_record_name (RepoAddress st) rec)) [(WerfLabel, project)]"
| "eff st project (Op_PostSyncServerRecord rec) =
     put_eff (Inr (RepoAddress st @ '':sync-server'')) [(WerfLabel, project), (RepoSyncServerRecord_LabelAddress, Server rec),
       (RepoSyncServerRecord_LabelTimestamp, int_dec (ssr_TimestampMillisec rec))]"
| "eff st project (Op_PostLastCleanupRecord ts) =
     (if cleanupDisabled st then id
      else put_eff (Inr (RepoAddress st @ '':cleanup'')) [(WerfLabel, project), (RepoCleanUpRecord_LabelTimestamp, int_dec ts)])"

text \<open>The references that an operation looks up before it removes a record: a damaged one it takes for absent.\<close>

fun looked_up :: "'r RepoStagesStorage \<Rightarrow> record_op \<Rightarrow> string set" where
  "looked_up st (Op_RmImageMetadata nm c i) =
     insert (makeRepoImageMetadataNameByImageMetadataID (RepoAddress st) nm c i)
       {ref. makeRepoImageMetadataName (LegacyMurmurHash st) (RepoAddress st) nm c i = Inr ref}"
| "looked_up st (Op_RmManagedImage nm) = {ref. makeRepoManagedImageRecord (LegacyMurmurHash st) (RepoAddress st) nm = Inr ref}"
| "looked_up st (Op_RmImportMetadata iid) = {makeRepoImportMetadataName (RepoAddress st) iid}"
| "looked_up st _ = {}"

subsection \<open>One operation\<close>

text \<open>An action leads to an abstract store: it is reached, or the action fails and changes nothing; the images
  of records stay their own.\<close>

definition leads :: "('r \<Rightarrow> images) \<Rightarrow> string \<Rightarrow> ('r client, 'a) action \<Rightarrow> (store \<Rightarrow> store) \<Rightarrow> bool" where
  "leads view repo m f \<longleftrightarrow> (\<forall>s x s'. records_own view repo s \<longrightarrow> m s = (x, s') \<longrightarrow> records_own view repo s' \<and>
     (content (images_of view s') = f (content (images_of view s)) \<or>
      isl x \<and> content (images_of view s') = content (images_of view s)))"

lemma leadsI:
  assumes "\<And>s x s'. records_own view repo s \<Longrightarrow> m s = (x, s') \<Longrightarrow>
    images_of view s' = images_of view s \<and> (isl x \<or> f (content (images_of view s)) = content (images_of view s)) \<or>
    (\<exists>ref. is_record repo ref \<and> images_of view s' = (images_of view s)(ref := None) \<and>
       f (content (images_of view s)) = (content (images_of view s))(ref := None)) \<or>
    (\<exists>ref ls. is_record repo ref \<and> pushed ref ls (images_of view s) (images_of view s') \<and>
       f (content (images_of view s)) = (content (images_of view s))(ref \<mapsto> map_of ls))"
  shows "leads view repo m f"
  unfolding leads_def
proof (intro allI impI)
  fix s x s' assume own: "records_own view repo s" and m: "m s = (x, s')"
  from assms [OF this] show "records_own view repo s' \<and> (content (images_of view s') = f (content (images_of view s)) \<or>
      isl x \<and> content (images_of view s') = content (images_of view s))"
  proof (elim disjE exE conjE)
    fix ref assume "images_of view s' = (images_of view s)(ref := None)"
      "f (content (images_of view s)) = (content (images_of view s))(ref := None)"
    then show ?thesis using own own_removed by (simp add: records_own_def content_removed)
  next
    fix ref ls assume p: "pushed ref ls (images_of view s) (images_of view s')"
      "f (content (images_of view s)) = (content (images_of view s))(ref \<mapsto> map_of ls)"
    then show ?thesis using own own_pushed [OF p(1)] by (simp add: records_own_def content_pushed [OF p(1)])
  qed (use own in \<open>simp_all add: records_own_def\<close>)
qed

lemma leads_return: "leads view repo m f \<Longrightarrow> leads view repo (and_use m w return_act) f"
  unfolding leads_def
proof (intro allI impI)
  fix s x s' assume m: "\<forall>s x s'. records_own view repo s \<longrightarrow> m s = (x, s') \<longrightarrow> records_own view repo s' \<and>
     (content (images_of view s') = f (content (images_of view s)) \<or>
      isl x \<and> content (images_of view s') = content (images_of view s))"
    and own: "records_own view repo s" and run: "and_use m w return_act s = (x, s')"
  from run obtain y where "m s = (y, s')" "isl y \<longrightarrow> isl x" by (cases rule: and_useE) (auto simp: act_simps)
  then show "records_own view repo s' \<and> (content (images_of view s') = f (content (images_of view s)) \<or>
      isl x \<and> content (images_of view s') = content (images_of view s))" using m own by blast
qed

lemma leads_name:
  assumes "\<And>ref. n = Inr ref \<Longrightarrow> leads view repo (k ref) f" and "\<And>e. n = Inl e \<Longrightarrow> f = id"
  shows "leads view repo (with_name n k) f"
  using assms by (cases n) (auto simp: with_name_def leads_def act_simps)

lemma leads_PushImage:
  assumes ok: "storage_laws view st" and ref: "is_record (RepoAddress st) ref"
  shows "leads view (RepoAddress st) (PushImage (DockerRegistry st) ref ls) (put_eff (Inr ref) ls)"
proof (rule leadsI)
  fix s x s' assume run: "PushImage (DockerRegistry st) ref ls s = (x, s')"
  have "unaliased (DockerRegistry st) ref" using ok ref by (simp add: records_unaliased_def)
  with ok run have "pushed ref ls (images_of view s) (images_of view s') \<or> isl x \<and> images_of view s' = images_of view s"
    by (blast dest: PushImage_law)
  then show "images_of view s' = images_of view s \<and> (isl x \<or> put_eff (Inr ref) ls (content (images_of view s)) = content (images_of view s)) \<or>
    (\<exists>r. is_record (RepoAddress st) r \<and> images_of view s' = (images_of view s)(r := None) \<and>
       put_eff (Inr ref) ls (content (images_of view s)) = (content (images_of view s))(r := None)) \<or>
    (\<exists>r l. is_record (RepoAddress st) r \<and> pushed r l (images_of view s) (images_of view s') \<and>
       put_eff (Inr ref) ls (content (images_of view s)) = (content (images_of view s))(r \<mapsto> map_of l))"
    using ref by (auto simp: put_eff_def)
qed

lemma leads_push:
  assumes "storage_laws view st" "is_record (RepoAddress st) ref"
  shows "leads view (RepoAddress st) (push_record st ls ref) (put_eff (Inr ref) ls)"
  unfolding push_record_def by (rule leads_return [OF leads_PushImage [OF assms]])

lemma leads_rm:
  assumes ok: "registry_ok view (DockerRegistry st)" "damaged_only view (DockerRegistry st) B" "ref \<notin> B" and ref: "is_record repo ref"
  shows "leads view repo (rm_record st w w' ref) (rm_eff (Inr ref))"
proof (rule leadsI)
  fix s x s' assume "records_own view repo s" "rm_record st w w' ref s = (x, s')"
  then have "images_of view s' = (images_of view s)(ref := None) \<or> isl x \<and> images_of view s' = images_of view s"
    using rm_record_law [OF ok] ref by (simp add: records_own_def)
  then show "images_of view s' = images_of view s \<and> (isl x \<or> rm_eff (Inr ref) (content (images_of view s)) = content (images_of view s)) \<or>
    (\<exists>r. is_record repo r \<and> images_of view s' = (images_of view s)(r := None) \<and>
       rm_eff (Inr ref) (content (images_of view s)) = (content (images_of view s))(r := None)) \<or>
    (\<exists>r l. is_record repo r \<and> pushed r l (images_of view s) (images_of view s') \<and>
       rm_eff (Inr ref) (content (images_of view s)) = (content (images_of view s))(r \<mapsto> map_of l))"
    using ref by (auto simp: rm_eff_def)
qed


lemma selectMetadataNameImage_law:
  assumes ok: "registry_ok view (DockerRegistry st)" "damaged_only view (DockerRegistry st) B"
    and undamaged: "looked_up st (Op_RmImageMetadata nm c i) \<inter> B = {}"
    and run: "selectMetadataNameImage st nm c i s = (x, s')"
  shows "s' = s \<and> (case x of
      Inl _ \<Rightarrow> True
    | Inr (Some j) \<Rightarrow> \<exists>ref. is_record (RepoAddress st) ref \<and> images_of view s ref = Some j \<and>
        rm_metadata_eff st nm c i (content (images_of view s)) = (content (images_of view s))(ref := None)
    | Inr None \<Rightarrow> rm_metadata_eff st nm c i (content (images_of view s)) = content (images_of view s))"
proof (cases "makeRepoImageMetadataName (LegacyMurmurHash st) (RepoAddress st) nm c i")
  case (Inl e)
  then show ?thesis using run by (auto simp: selectMetadataNameImage_def with_name_def act_simps)
next
  case (Inr ref)
  note rec = record_names(1) [OF Inr]
  let ?ref2 = "makeRepoImageMetadataNameByImageMetadataID (RepoAddress st) nm c i"
  let ?M = "content (images_of view s)"
  note eff = rm_metadata_eff_def [of st nm c i ?M]
  have B: "ref \<notin> B" "?ref2 \<notin> B" using undamaged Inr by auto
  note law1 = TryGetRepoImage_law [OF ok B(1)] and law2 = TryGetRepoImage_law [OF ok B(2)]
  from run [unfolded selectMetadataNameImage_def with_name_def Inr sum.case] show ?thesis
  proof (cases rule: and_useE)
    case (failed e)
    then show ?thesis using TryGetRepoImage_Some [OF ok(1) failed(1)] by simp
  next
    case (passed img t)
    note img = law1 [OF passed(1)]
    show ?thesis
    proof (cases img)
      case (Some j)
      then show ?thesis using passed(2) img rec eff Inr by (auto simp: act_simps)
    next
      case None
      show ?thesis
      proof (cases "IsValidDockerTag (makeRepoImageMetadataTagNameByImageMetadataID nm c i)")
        case False
        then show ?thesis using passed(2) img None eff Inr by (auto simp: act_simps)
      next
        case True
        then have "and_use (TryGetRepoImage (DockerRegistry st) ?ref2) (err_get ?ref2) return_act s = (x, s')"
          using passed(2) img None by (simp add: Let_def)
        then show ?thesis
        proof (cases rule: and_useE)
          case (failed e)
          then show ?thesis using TryGetRepoImage_Some [OF ok(1) failed(1)] by simp
        next
          case (passed y u)
          note y = law2 [OF passed(1)]
          have "rm_metadata_eff st nm c i ?M = ?M(?ref2 := None)" using True img None eff Inr by simp
          then show ?thesis using passed(2) y record_names(4) [of "RepoAddress st" nm c i]
            by (cases y) (auto simp: act_simps fun_upd_idem)
        qed
      qed
    qed
  qed
qed

lemma leads_rm_metadata:
  assumes ok: "registry_ok view (DockerRegistry st)" "damaged_only view (DockerRegistry st) B"
    and undamaged: "looked_up st (Op_RmImageMetadata nm c i) \<inter> B = {}"
  shows "leads view (RepoAddress st) (RmImageMetadata st nm c i) (rm_metadata_eff st nm c i)"
proof (rule leadsI)
  fix s x s'
  let ?v = "images_of view s"
  assume own: "records_own view (RepoAddress st) s" and run: "RmImageMetadata st nm c i s = (x, s')"
  let ?f = "rm_metadata_eff st nm c i"
  have "images_of view s' = ?v \<and> (isl x \<or> ?f (content ?v) = content ?v) \<or>
    (\<exists>ref. is_record (RepoAddress st) ref \<and> images_of view s' = ?v(ref := None) \<and> ?f (content ?v) = (content ?v)(ref := None))"
    using run unfolding RmImageMetadata_def
  proof (cases rule: and_useE)
    case (failed e)
    then show ?thesis using selectMetadataNameImage_law [OF ok undamaged failed(1)] by simp
  next
    case (passed img t)
    note sel = selectMetadataNameImage_law [OF ok undamaged passed(1)]
    show ?thesis
    proof (cases img)
      case None
      then show ?thesis using passed(2) sel by (auto simp: act_simps)
    next
      case (Some j)
      then obtain ref where ref: "is_record (RepoAddress st) ref" "?v ref = Some j" "?f (content ?v) = (content ?v)(ref := None)"
        using sel by auto
      then have "own ?v ref" using own by (simp add: records_own_def)
      from delete_own [OF ok(1) this ref(2)] show ?thesis using passed(2) sel Some ref by auto
    qed
  qed
  then show "images_of view s' = ?v \<and> (isl x \<or> ?f (content ?v) = content ?v) \<or>
    (\<exists>ref. is_record (RepoAddress st) ref \<and> images_of view s' = ?v(ref := None) \<and> ?f (content ?v) = (content ?v)(ref := None)) \<or>
    (\<exists>ref ls. is_record (RepoAddress st) ref \<and> pushed ref ls ?v (images_of view s') \<and> ?f (content ?v) = (content ?v)(ref \<mapsto> map_of ls))"
    by blast
qed

lemma leads_get_delete:
  assumes ok: "registry_ok view (DockerRegistry st)" and ref: "is_record repo ref"
  shows "leads view repo (and_use (GetRepoImage (DockerRegistry st) ref) w
      (\<lambda>i. and_use (DeleteRepoImage (DockerRegistry st) i) w' return_act)) (rm_eff (Inr ref))"
proof (rule leadsI)
  fix s x s' assume own: "records_own view repo s"
    and run: "and_use (GetRepoImage (DockerRegistry st) ref) w (\<lambda>i. and_use (DeleteRepoImage (DockerRegistry st) i) w' return_act) s = (x, s')"
  let ?v = "images_of view s"
  from run have "images_of view s' = ?v(ref := None) \<or> isl x \<and> images_of view s' = ?v"
  proof (cases rule: and_useE)
    case (failed e)
    then show ?thesis using GetRepoImage_law [OF ok failed(1)] by simp
  next
    case (passed i t)
    note i = GetRepoImage_law [OF ok passed(1)]
    have "own ?v ref" using own ref by (simp add: records_own_def)
    from delete_own [OF ok this] show ?thesis using i passed(2) by auto
  qed
  then show "images_of view s' = ?v \<and> (isl x \<or> rm_eff (Inr ref) (content ?v) = content ?v) \<or>
    (\<exists>r. is_record repo r \<and> images_of view s' = ?v(r := None) \<and> rm_eff (Inr ref) (content ?v) = (content ?v)(r := None)) \<or>
    (\<exists>r l. is_record repo r \<and> pushed r l ?v (images_of view s') \<and> rm_eff (Inr ref) (content ?v) = (content ?v)(r \<mapsto> map_of l))"
    using ref by (auto simp: rm_eff_def)
qed

lemma eff_Inl [simp]: "put_eff (Inl e) ls = id" "rm_eff (Inl e) = id"
  by (simp_all add: put_eff_def rm_eff_def fun_eq_iff)

lemma do_op_leads:
  assumes laws: "storage_laws view st" and B: "damaged_only view (DockerRegistry st) B" "looked_up st op \<inter> B = {}"
  shows "leads view (RepoAddress st) (do_op st project op) (eff st project op)"
proof -
  have ok: "registry_ok view (DockerRegistry st)" using laws by simp
  show ?thesis
  proof (cases op)
    case (Op_PutImageMetadata nm c i)
    then show ?thesis
      by (simp add: PutImageMetadata_def) (rule leads_name; simp add: leads_push [OF laws] record_names)
  next
    case (Op_RmImageMetadata nm c i)
    then show ?thesis using leads_rm_metadata [OF ok B(1)] B(2) by simp
  next
    case (Op_AddManagedImage nm)
    then show ?thesis by (simp add: AddManagedImage_def) (rule leads_name; simp add: leads_push [OF laws] record_names)
  next
    case (Op_RmManagedImage nm)
    then have "ref \<notin> B" if "makeRepoManagedImageRecord (LegacyMurmurHash st) (RepoAddress st) nm = Inr ref" for ref using B(2) that by auto
    then show ?thesis using Op_RmManagedImage
      by (simp add: RmManagedImage_def) (rule leads_name; simp add: leads_rm [OF ok B(1)] record_names)
  next
    case (Op_PutImportMetadata m)
    then show ?thesis by (simp add: PutImportMetadata_def leads_push [OF laws] record_names)
  next
    case (Op_RmImportMetadata iid)
    then have "makeRepoImportMetadataName (RepoAddress st) iid \<notin> B" using B(2) by simp
    then show ?thesis using Op_RmImportMetadata by (simp add: RmImportMetadata_def Let_def leads_rm [OF ok B(1)] record_names)
  next
    case (Op_RegisterStageCustomTag i tag)
    then show ?thesis
      by (simp add: RegisterStageCustomTag_def addStageCustomTagMetadata_def)
        (rule leads_return, rule leads_name; simp add: leads_push [OF laws] record_names)
  next
    case (Op_UnregisterStageCustomTag tag)
    then show ?thesis
      by (simp add: UnregisterStageCustomTag_def deleteStageCustomTagMetadata_def)
        (rule leads_return, rule leads_name; simp add: leads_get_delete [OF ok] record_names)
  next
    case (Op_RejectStage d ts)
    then show ?thesis by (simp add: RejectStage_def Let_def leads_return leads_PushImage [OF laws] record_names)
  next
    case (Op_PostClientIDRecord rec)
    then show ?thesis by (simp add: PostClientIDRecord_def leads_push [OF laws] record_names)
  next
    case (Op_PostSyncServerRecord rec)
    then show ?thesis using leads_push [OF laws record_names(8)] by (simp add: PostSyncServerRecord_def)
  next
    case (Op_PostLastCleanupRecord ts)
    then show ?thesis using leads_push [OF laws record_names(9)]
      by (simp add: PostLastCleanupRecord_def leads_def act_simps)
  qed
qed

subsection \<open>Sequences of operations\<close>

fun run_ops :: "('o \<Rightarrow> ('s, unit) action) \<Rightarrow> 'o list \<Rightarrow> ('s, unit) action" where
  "run_ops act [] = return_act ()"
| "run_ops act (op # ops) = and_use (act op) id (\<lambda>_. run_ops act ops)"

text \<open>Operations that simulate those of an abstract state; a failing operation may or may not have had its effect.\<close>

locale data_refinement =
  fixes act :: "'o \<Rightarrow> ('s, unit) action" and abs_eff :: "'o \<Rightarrow> 'a \<Rightarrow> 'a" and abstr :: "'s \<Rightarrow> 'a" and inv :: "'s \<Rightarrow> bool"
    and good :: "'o \<Rightarrow> bool"
  assumes keeps_inv: "inv s \<Longrightarrow> good op \<Longrightarrow> act op s = (x, s') \<Longrightarrow> inv s'"
    and simulates: "inv s \<Longrightarrow> good op \<Longrightarrow> act op s = (Inr u, s') \<Longrightarrow> abstr s' = abs_eff op (abstr s)"
    and fails_cleanly: "inv s \<Longrightarrow> good op \<Longrightarrow> act op s = (Inl e, s') \<Longrightarrow> abstr s' = abstr s \<or> abstr s' = abs_eff op (abstr s)"
begin

lemma run_refines:
  "inv s \<Longrightarrow> \<forall>op \<in> set ops. good op \<Longrightarrow> run_ops act ops s = (x, s') \<Longrightarrow>
   inv s' \<and> (\<exists>k \<le> length ops. abstr s' = foldl (\<lambda>a op. abs_eff op a) (abstr s) (take k ops) \<and> (\<not> isl x \<longrightarrow> k = length ops))"
proof (induction ops arbitrary: s)
  case Nil
  then show ?case by (simp add: act_simps)
next
  case (Cons op ops)
  have run: "and_use (act op) id (\<lambda>_. run_ops act ops) s = (x, s')" and good: "good op" using Cons.prems(2,3) by simp_all
  from run show ?case
  proof (cases rule: and_useE)
    case (failed e)
    have "abstr s' = abstr s \<or> abstr s' = abs_eff op (abstr s)" "inv s'"
      using fails_cleanly keeps_inv Cons.prems(1) good failed(1) by blast+
    then show ?thesis using failed(2) by (auto intro: exI [of _ 0] exI [of _ "Suc 0"])
  next
    case (passed u t)
    then have "inv t" "abstr t = abs_eff op (abstr s)" using keeps_inv simulates Cons.prems(1) good by blast+
    then obtain k where "inv s'" "k \<le> length ops" "abstr s' = foldl (\<lambda>a op. abs_eff op a) (abs_eff op (abstr s)) (take k ops)"
      "\<not> isl x \<longrightarrow> k = length ops" using Cons.IH [of t] Cons.prems(2) passed(2) by auto
    then show ?thesis by (intro conjI exI [of _ "Suc k"]) auto
  qed
qed

end

abbreviation storage_inv :: "('r \<Rightarrow> images) \<Rightarrow> 'r RepoStagesStorage \<Rightarrow> string set \<Rightarrow> 'r client \<Rightarrow> bool" where
  "storage_inv view st B s \<equiv> storage_laws view st \<and> damaged_only view (DockerRegistry st) B \<and> records_own view (RepoAddress st) s"

lemma do_op_step:
  assumes "storage_inv view st B s" "looked_up st op \<inter> B = {}" "do_op st project op s = (x, s')"
  shows "storage_inv view st B s' \<and> (content (images_of view s') = eff st project op (content (images_of view s)) \<or>
      isl x \<and> content (images_of view s') = content (images_of view s))"
proof -
  have "leads view (RepoAddress st) (do_op st project op) (eff st project op)" using assms(1,2) by (auto intro: do_op_leads)
  then show ?thesis using assms(1,3) unfolding leads_def by blast
qed

interpretation records: data_refinement "do_op st project" "eff st project" "\<lambda>s. content (images_of view s)" "storage_inv view st B"
    "\<lambda>op. looked_up st op \<inter> B = {}"
  for st :: "'r RepoStagesStorage" and project :: string and view :: "'r \<Rightarrow> images" and B :: "string set"
proof (unfold_locales, goal_cases)
  case (1 s op x s')
  then show ?case by (rule do_op_step [THEN conjunct1])
next
  case (2 s op u s')
  then show ?case using do_op_step [of view st B s op project "Inr u" s'] by simp
next
  case (3 s op e s')
  then show ?case using do_op_step [of view st B s op project "Inl e" s'] by auto
qed


end
