(* ===== verification/Stage_Tags.thy ===== *)
theory Stage_Tags
  imports Repo_Records
begin

text \<open>
  What the tags of the registry say about stages: the tag of a stage is parsed back to its identifier,
  and the stages that a digest is looked up with are those whose tags are there, young enough and
  not rejected.
\<close>

subsection \<open>Tags of stages\<close>

text \<open>A digest and a timestamp that make a tag which can be parsed: without a timestamp only the 56 characters
  of a SHA3-224 digest count.\<close>

definition stage_ok :: "string \<Rightarrow> int \<Rightarrow> bool" where
  "stage_ok digest ts \<longleftrightarrow> CHR ''-'' \<notin> set digest \<and> int64_ok ts \<and> (ts = 0 \<longrightarrow> length digest = 56)"

abbreviation stage_tag :: "string \<Rightarrow> int \<Rightarrow> string" where
  "stage_tag digest ts \<equiv> StageID_String (NewStageID digest ts)"

lemma stage_tag_eq: "stage_tag digest ts = (if ts = 0 then digest else digest @ ''-'' @ int_dec ts)"
  by (simp add: StageID_String_def NewStageID_def)

lemmas parse_def = getDigestAndCreationTsFromRepoStageImageTag_def SplitN_2 ParseCreationTs_def

lemma parse_long: "CHR ''-'' \<notin> set digest \<Longrightarrow> int64_ok ts \<Longrightarrow>
  getDigestAndCreationTsFromRepoStageImageTag (digest @ ''-'' @ int_dec ts) = Inr (digest, ts)"
  by (simp add: parse_def Cut_single ParseInt_int_dec)

lemma parse_stage_tag: "stage_ok digest ts \<Longrightarrow> getDigestAndCreationTsFromRepoStageImageTag (stage_tag digest ts) = Inr (digest, ts)"
proof (cases "ts = 0")
  case True
  assume "stage_ok digest ts"
  then show ?thesis using True by (simp add: stage_ok_def stage_tag_eq parse_def Cut_None_notin)
next
  case False
  assume "stage_ok digest ts"
  then show ?thesis using False parse_long [of digest ts] by (simp add: stage_ok_def stage_tag_eq)
qed

lemma ConstructStageImageName_tag: "ConstructStageImageName repo digest ts = repo @ '':'' @ stage_tag digest ts"
  by (simp add: ConstructStageImageName_def stage_tag_eq)

text \<open>A tag that cannot be parsed is passed over: the error is always the one that the callers look for.\<close>

lemma parse_error: "getDigestAndCreationTsFromRepoStageImageTag tag = Inl e \<Longrightarrow> isUnexpectedTagFormatError e"
  by (auto simp: parse_def isUnexpectedTagFormatError_def UnexpectedTagFormatErrorPrefix_def split: option.splits if_splits)

lemma int_dec_not_empty: "int_dec z \<noteq> []"
  by (simp add: int_dec_def nat_dec_nonempty)

lemma int_dec_digit_last: "is_digit (last (int_dec z))"
  using nat_dec_digits [of "last (nat_dec n)" n for n] nat_dec_nonempty
  by (auto simp: int_dec_def)

lemma last_suffix: "s = t @ u \<Longrightarrow> u \<noteq> [] \<Longrightarrow> last s = last u"
  by simp

lemma parsed_not_rejected: "stage_ok digest ts \<Longrightarrow> \<not> HasSuffix (stage_tag digest ts) ''-rejected''"
proof -
  assume ok: "stage_ok digest ts"
  have "\<not> is_digit CHR ''d''" by (simp add: is_digit_def)
  then have "int_dec ts = w @ u \<Longrightarrow> u \<noteq> [] \<Longrightarrow> last u \<noteq> CHR ''d''" for w u
    using int_dec_digit_last [of ts] by auto
  moreover have "digest = w @ ''-rejected'' \<Longrightarrow> False" for w using ok by (auto simp: stage_ok_def)
  ultimately show ?thesis
    using int_dec_digit_last [of ts] \<open>\<not> is_digit CHR ''d''\<close> int_dec_not_empty [of ts]
    by (auto simp: stage_tag_eq dest!: arg_cong [where f = last])
qed

subsection \<open>The stages of a digest\<close>

text \<open>The timestamps of the rejected stages, of any digest, and of the stages whose tag starts with the digest.\<close>

definition rejected_ts :: "string list \<Rightarrow> int set" where
  "rejected_ts tags = {ts. \<exists>d' tag. tag @ ''-rejected'' \<in> set tags \<and> getDigestAndCreationTsFromRepoStageImageTag tag = Inr (d', ts)}"

definition digest_ts :: "string \<Rightarrow> string list \<Rightarrow> int set" where
  "digest_ts digest tags = {ts. \<exists>d' tag. tag \<in> set tags \<and> HasPrefix tag digest \<and> \<not> HasSuffix tag ''-rejected'' \<and>
     getDigestAndCreationTsFromRepoStageImageTag tag = Inr (d', ts)}"

lemma rejected_of_tags_result: "\<exists>ids. rejected_of_tags digest tags = Inr ids \<and> set ids = NewStageID digest ` rejected_ts tags"
proof (induction tags)
  case (Cons tag tags)
  obtain ids where ids: "rejected_of_tags digest tags = Inr ids" "set ids = NewStageID digest ` rejected_ts tags" using Cons by blast
  show ?case
  proof (cases "HasSuffix tag ''-rejected''")
    case True
    then obtain t where t: "tag = t @ ''-rejected''" by auto
    show ?thesis
    proof (cases "getDigestAndCreationTsFromRepoStageImageTag t")
      case (Inl e)
      then have "rejected_ts (tag # tags) = rejected_ts tags" by (auto simp: rejected_ts_def t)
      then show ?thesis using ids Inl parse_error [OF Inl] by (simp add: t record_prefixes)
    next
      case (Inr r)
      then have "rejected_ts (tag # tags) = insert (snd r) (rejected_ts tags)" by (cases r) (auto simp: rejected_ts_def t)
      then show ?thesis using ids Inr by (cases r) (simp add: t record_prefixes)
    qed
  next
    case False
    then have "rejected_ts (tag # tags) = rejected_ts tags" by (auto simp: rejected_ts_def)
    then show ?thesis using ids False by (simp add: record_prefixes)
  qed
qed (simp add: rejected_ts_def)

lemma NewStageID_inj: "NewStageID d ts = NewStageID d' ts' \<longleftrightarrow> d = d' \<and> ts = ts'"
  by (auto simp: NewStageID_def)

lemma suitable_of_tags_result:
  "set rejected = NewStageID digest ` R \<Longrightarrow>
   \<exists>ids. suitable_of_tags digest p rejected tags = Inr ids \<and> set ids = NewStageID digest ` {ts \<in> digest_ts digest tags. p \<le> ts \<and> ts \<notin> R}"
proof (induction tags)
  case (Cons tag tags)
  let ?S = "\<lambda>T. NewStageID digest ` {ts \<in> T. p \<le> ts \<and> ts \<notin> R}"
  obtain ids where ids: "suitable_of_tags digest p rejected tags = Inr ids" "set ids = ?S (digest_ts digest tags)" using Cons by blast
  show ?case
  proof (cases "HasPrefix tag digest \<and> \<not> HasSuffix tag ''-rejected''")
    case False
    then have "digest_ts digest (tag # tags) = digest_ts digest tags" by (auto simp: digest_ts_def)
    then show ?thesis using ids False by (auto simp: record_prefixes)
  next
    case True
    show ?thesis
    proof (cases "getDigestAndCreationTsFromRepoStageImageTag tag")
      case (Inl e)
      then have "digest_ts digest (tag # tags) = digest_ts digest tags" by (auto simp: digest_ts_def)
      then show ?thesis using ids True Inl parse_error [OF Inl] by (simp add: record_prefixes del: HasPrefix_iff HasSuffix_iff)
    next
      case (Inr r)
      obtain d' ts where r: "r = (d', ts)" by (cases r)
      have new: "digest_ts digest (tag # tags) = insert ts (digest_ts digest tags)" using True Inr r by (auto simp: digest_ts_def)
      have rej: "(\<exists>r \<in> set rejected. Digest r = Digest (NewStageID digest ts) \<and> CreationTs r = CreationTs (NewStageID digest ts)) \<longleftrightarrow> ts \<in> R"
        using Cons.prems by (auto simp: NewStageID_def)
      have "?S (insert ts (digest_ts digest tags)) = (if p \<le> ts \<and> ts \<notin> R then insert (NewStageID digest ts) else id) (?S (digest_ts digest tags))"
        by auto
      then show ?thesis using ids True Inr unfolding new r
        by (simp add: record_prefixes rej Let_def del: HasPrefix_iff HasSuffix_iff)
    qed
  qed
qed (simp add: digest_ts_def)

lemma ids_by_digest_result:
  "\<exists>ids. ids_by_digest digest p tags = Inr ids \<and>
     set ids = NewStageID digest ` {ts \<in> digest_ts digest tags. p \<le> ts \<and> ts \<notin> rejected_ts tags}"
  using rejected_of_tags_result [of digest tags] suitable_of_tags_result [of _ digest "rejected_ts tags" p tags]
  by (auto simp: ids_by_digest_def)

lemma rejection_listed: "CHR ''-'' \<notin> set digest \<Longrightarrow> int64_ok ts \<Longrightarrow> digest @ ''-'' @ int_dec ts @ ''-rejected'' \<in> set tags \<Longrightarrow> ts \<in> rejected_ts tags"
  unfolding rejected_ts_def using parse_long [of digest ts] by (intro CollectI exI [of _ digest] exI [of _ "digest @ ''-'' @ int_dec ts"]) simp

lemma stage_listed: "stage_ok digest ts \<Longrightarrow> stage_tag digest ts \<in> set tags \<Longrightarrow> ts \<in> digest_ts digest tags"
  unfolding digest_ts_def using parse_stage_tag [of digest ts] parsed_not_rejected [of digest ts]
  by (intro CollectI exI [of _ digest] exI [of _ "stage_tag digest ts"]) (simp add: stage_tag_eq)

lemma digest_ts_append [simp]: "digest_ts digest (xs @ ys) = digest_ts digest xs \<union> digest_ts digest ys"
  unfolding digest_ts_def set_append Un_iff by blast

lemma rejected_ts_append [simp]: "rejected_ts (xs @ ys) = rejected_ts xs \<union> rejected_ts ys"
  unfolding rejected_ts_def set_append Un_iff by blast

lemma stage_tag_ts:
  assumes "stage_ok digest ts"
  shows "digest_ts digest [stage_tag digest ts] = {ts}" and "rejected_ts [stage_tag digest ts] = {}"
proof -
  have prefix: "\<exists>t. stage_tag digest ts = digest @ t" by (auto simp: stage_tag_eq)
  note parse = parse_stage_tag [OF assms] and no = parsed_not_rejected [OF assms]
  show "digest_ts digest [stage_tag digest ts] = {ts}"
    using parse no prefix unfolding digest_ts_def by auto
  show "rejected_ts [stage_tag digest ts] = {}"
    using no unfolding rejected_ts_def HasSuffix_iff by (auto dest: sym)
qed

lemma ParseInt_ok: "ParseInt s = Some z \<Longrightarrow> int64_ok z"
  by (auto simp: ParseInt_def Let_def split: list.splits option.splits if_splits)

lemma parsed_int64: "getDigestAndCreationTsFromRepoStageImageTag tag = Inr (d, ts) \<Longrightarrow> int64_ok ts"
  using ParseInt_ok by (auto simp: parse_def int64_ok_def split: option.splits if_splits)

text \<open>What is before the first hyphen of a tag, or the whole tag, is its digest.\<close>

lemma parsed_prefix:
  assumes parse: "getDigestAndCreationTsFromRepoStageImageTag tag = Inr (d, ts)" and "CHR ''-'' \<notin> set digest"
  shows "HasPrefix tag digest \<longleftrightarrow> (\<exists>rest. d = digest @ rest)"
proof -
  obtain u where tag: "tag = d @ u" "u = [] \<or> hd u = CHR ''-''"
    using parse by (auto simp: parse_def split: option.splits if_splits dest!: Cut_SomeD)
  show ?thesis
  proof
    assume "HasPrefix tag digest"
    then obtain w where w: "d @ u = digest @ w" using tag(1) by auto
    then obtain us where "d = digest @ us \<or> digest = d @ us \<and> us \<noteq> []"
      using append_eq_append_conv2 [of d u digest w] by (metis append_Nil2)
    then show "\<exists>rest. d = digest @ rest"
    proof
      assume us: "digest = d @ us \<and> us \<noteq> []"
      with w have "u = us @ w" by simp
      with us tag(2) have "hd us = CHR ''-''" by auto
      with us assms(2) show ?thesis by (cases us) auto
    qed blast
  next
    assume "\<exists>rest. d = digest @ rest"
    then show "HasPrefix tag digest" using tag(1) by auto
  qed
qed

text \<open>C37: the lookup of the stages of a digest never fails once the tags are listed, and its result is exact. Every stage it
  returns is not older than the parent, has a tag in the repo that is no rejection and starts with the digest (so it is the digest, when the digests have one length),
  and no rejection names its timestamp; and for every such tag the stage is returned. So a stage whose tag is there
  is found unless it is too old or rejected, and a rejected stage is never returned.\<close>

theorem ids_by_digest_offers:
  assumes "CHR ''-'' \<notin> set digest"
  shows "\<exists>ids. ids_by_digest digest p tags = Inr ids \<and>
    (\<forall>i \<in> set ids. Digest i = digest \<and> p \<le> CreationTs i \<and>
       (\<exists>tag \<in> set tags. \<exists>rest. \<not> HasSuffix tag ''-rejected'' \<and>
          getDigestAndCreationTsFromRepoStageImageTag tag = Inr (digest @ rest, CreationTs i)) \<and>
       (\<forall>tag d'. tag @ ''-rejected'' \<in> set tags \<longrightarrow> getDigestAndCreationTsFromRepoStageImageTag tag \<noteq> Inr (d', CreationTs i))) \<and>
    (\<forall>tag \<in> set tags. \<forall>rest ts. \<not> HasSuffix tag ''-rejected'' \<and>
       getDigestAndCreationTsFromRepoStageImageTag tag = Inr (digest @ rest, ts) \<and> p \<le> ts \<and>
       (\<forall>tag' d'. tag' @ ''-rejected'' \<in> set tags \<longrightarrow> getDigestAndCreationTsFromRepoStageImageTag tag' \<noteq> Inr (d', ts)) \<longrightarrow>
       NewStageID digest ts \<in> set ids) \<and>
    (\<forall>ts. stage_ok digest ts \<longrightarrow>
       (stage_tag digest ts \<in> set tags \<longrightarrow> p \<le> ts \<longrightarrow> ts \<notin> rejected_ts tags \<longrightarrow> NewStageID digest ts \<in> set ids) \<and>
       (digest @ ''-'' @ int_dec ts @ ''-rejected'' \<in> set tags \<longrightarrow> NewStageID digest ts \<notin> set ids))"
proof -
  obtain ids where ids: "ids_by_digest digest p tags = Inr ids"
    "set ids = NewStageID digest ` {ts \<in> digest_ts digest tags. p \<le> ts \<and> ts \<notin> rejected_ts tags}"
    using ids_by_digest_result by blast
  have mem: "NewStageID digest ts \<in> set ids \<longleftrightarrow> ts \<in> digest_ts digest tags \<and> p \<le> ts \<and> ts \<notin> rejected_ts tags" for ts
    unfolding ids(2) by (auto simp: NewStageID_inj)
  have listed: "ts \<in> digest_ts digest tags \<longleftrightarrow> (\<exists>tag \<in> set tags. \<exists>rest. \<not> HasSuffix tag ''-rejected'' \<and>
          getDigestAndCreationTsFromRepoStageImageTag tag = Inr (digest @ rest, ts))" for ts
    unfolding digest_ts_def using parsed_prefix [OF _ assms] by blast
  have rejected: "ts \<in> rejected_ts tags \<longleftrightarrow> (\<exists>tag d'. tag @ ''-rejected'' \<in> set tags \<and> getDigestAndCreationTsFromRepoStageImageTag tag = Inr (d', ts))" for ts
    unfolding rejected_ts_def by blast
  have offered: "Digest i = digest \<and> p \<le> CreationTs i \<and> CreationTs i \<in> digest_ts digest tags \<and> CreationTs i \<notin> rejected_ts tags" if "i \<in> set ids" for i
    using that unfolding ids(2) by (auto simp: NewStageID_def)
  have "NewStageID digest ts \<notin> set ids" if "stage_ok digest ts" "digest @ ''-'' @ int_dec ts @ ''-rejected'' \<in> set tags" for ts
    using rejection_listed [of digest ts tags] that mem by (simp add: stage_ok_def)
  moreover have "\<forall>ts. stage_ok digest ts \<longrightarrow> stage_tag digest ts \<in> set tags \<longrightarrow> p \<le> ts \<longrightarrow> ts \<notin> rejected_ts tags \<longrightarrow> NewStageID digest ts \<in> set ids"
    using stage_listed [of digest _ tags] mem by simp
  moreover have "NewStageID digest ts \<in> set ids" if "tag \<in> set tags" "\<not> HasSuffix tag ''-rejected'' \<and>
      getDigestAndCreationTsFromRepoStageImageTag tag = Inr (digest @ rest, ts) \<and> p \<le> ts \<and>
      (\<forall>tag' d'. tag' @ ''-rejected'' \<in> set tags \<longrightarrow> getDigestAndCreationTsFromRepoStageImageTag tag' \<noteq> Inr (d', ts))" for tag rest ts
    unfolding mem listed rejected using that by blast
  ultimately show ?thesis using ids(1) offered [unfolded listed rejected] by (intro exI [of _ ids]) blast
qed

text \<open>The timestamp alone decides: the rejection of a stage hides the stages of all digests that were made in the same
  millisecond.\<close>

lemma foreign_rejection_discards:
  "ids_by_digest ''aa'' 0 [''aa-5''] = Inr [NewStageID ''aa'' 5]" "ids_by_digest ''aa'' 0 [''aa-5'', ''bb-5-rejected''] = Inr []"
  by code_simp+

subsection \<open>All stages\<close>

definition listed :: "string list \<Rightarrow> (string \<times> int) set" where
  "listed tags = {r. \<exists>tag \<in> set tags. is_stage_tag tag \<and> getDigestAndCreationTsFromRepoStageImageTag tag = Inr r}"

lemma stage_ids_of_tags_result:
  "\<exists>ids. stage_ids_of_tags tags = Inr ids \<and> set ids = (\<lambda>(d, ts). NewStageID d ts) ` listed tags"
proof (induction tags)
  case (Cons tag tags)
  obtain ids where ids: "stage_ids_of_tags tags = Inr ids" "set ids = (\<lambda>(d, ts). NewStageID d ts) ` listed tags"
    using Cons by blast
  show ?case
  proof (cases "is_stage_tag tag")
    case False
    then have "listed (tag # tags) = listed tags" by (auto simp: listed_def)
    then show ?thesis using ids False by simp
  next
    case True
    show ?thesis
    proof (cases "getDigestAndCreationTsFromRepoStageImageTag tag")
      case (Inl e)
      then have "listed (tag # tags) = listed tags" by (auto simp: listed_def)
      then show ?thesis using ids True Inl parse_error [OF Inl] by simp
    next
      case (Inr r)
      then have "listed (tag # tags) = insert r (listed tags)" using True by (auto simp: listed_def)
      then show ?thesis using ids True Inr by (cases r) simp
    qed
  qed
qed (simp add: listed_def)

lemma Split_one: "CHR ''-'' \<notin> set a \<Longrightarrow> CHR ''-'' \<notin> set b \<Longrightarrow> length (Split (a @ CHR ''-'' # b) ''-'') = 2"
  by (simp add: Split_single_append Split_single_notin)

lemma hex_tag:
  assumes "list_all (\<lambda>c. is_digit c \<or> c \<in> set ''abcdef'') digest" "length digest = 56" "0 \<le> ts" "int64_ok ts"
  shows "stage_ok digest ts" and "is_stage_tag (stage_tag digest ts) \<longleftrightarrow> ts = 0 \<or> length (int_dec ts) = 13"
proof -
  have minus: "\<not> is_digit CHR ''-''" "\<not> is_digit CHR ''m''" by (simp_all add: is_digit_def)
  have no: "CHR ''-'' \<notin> set digest" "CHR ''m'' \<notin> set digest" using assms(1) minus by (auto simp: list_all_iff)
  have digits: "CHR ''-'' \<notin> set (int_dec ts)" using int_dec_nonneg_chars [OF assms(3)] minus by blast
  show ok: "stage_ok digest ts" using no assms by (simp add: stage_ok_def)
  have "digest \<noteq> []" using assms(2) by auto
  then have "hd (stage_tag digest ts) \<noteq> CHR ''m''" using no(2) by (cases digest) (auto simp: stage_tag_eq)
  then have "\<not> HasPrefix (stage_tag digest ts) ''managed-image-''" "\<not> HasPrefix (stage_tag digest ts) ''meta-''"
    by auto
  then show "is_stage_tag (stage_tag digest ts) \<longleftrightarrow> ts = 0 \<or> length (int_dec ts) = 13"
    using parsed_not_rejected [OF ok] Split_one [OF no(1) digits] assms(2) int_dec_not_empty [of ts]
    by (auto simp: is_stage_tag_def record_prefixes stage_tag_eq simp del: HasPrefix_iff HasSuffix_iff)
qed

end
