(* ===== verification/Repo_Tags.thy ===== *)
theory Repo_Tags
  imports Repo_Records
begin

text \<open>
  What the tags of the registry keep: the names of images, the identifiers of stages and the image
  metadata come back from the tags that are made of them.
\<close>

subsection \<open>Replacing\<close>

lemma ReplaceAll_Nil [simp]: "old \<noteq> [] \<Longrightarrow> ReplaceAll [] old new = []"
  by (simp add: ReplaceAll_def Split.simps)

lemma Join_first: "xs \<noteq> [] \<Longrightarrow> Join ((c # hd xs) # tl xs) sep = c # Join xs sep"
  by (cases "tl xs"; cases xs) auto

lemma Split_skip:
  assumes "\<not> HasPrefix (c # s) old" "old \<noteq> []"
  shows "Split (c # s) old = (c # hd (Split s old)) # tl (Split s old)"
  using assms by (subst (1 2 3) Split.simps) (auto split: option.split simp del: HasPrefix_iff)

lemma ReplaceAll_skip: "\<not> HasPrefix (c # s) old \<Longrightarrow> old \<noteq> [] \<Longrightarrow> ReplaceAll (c # s) old new = c # ReplaceAll s old new"
  by (simp add: ReplaceAll_def Split_skip Join_first Split_nonempty del: HasPrefix_iff)

lemma Cut_here: "old \<noteq> [] \<Longrightarrow> Cut (old @ s) old = Some ([], s)"
  using Cut.simps(2) [of "hd old" "tl old @ s" old] HasPrefix_def [of "old @ s" old]
  by (cases old) (simp_all del: HasPrefix_iff)

lemma ReplaceAll_hit: "old \<noteq> [] \<Longrightarrow> ReplaceAll (old @ s) old new = new @ ReplaceAll s old new"
  using Split_nonempty [of old s] by (simp add: ReplaceAll_def Split.simps [of "old @ s"] Cut_here Join_Cons)

lemma ReplaceAll_char: "ReplaceAll s [x] new = concat (map (\<lambda>c. if c = x then new else [c]) s)"
proof (induction s)
  case (Cons c s)
  show ?case
  proof (cases "c = x")
    case True
    then show ?thesis using ReplaceAll_hit [of "[x]" s new] Cons by simp
  next
    case False
    then show ?thesis using ReplaceAll_skip [of c s "[x]"] Cons by simp
  qed
qed simp

subsection \<open>Image names\<close>

text \<open>The characters that a name is freed of, and the tokens that stand for them.\<close>

definition token :: "char \<Rightarrow> string" where
  "token c = (if c = CHR '' '' then ''__space__'' else if c = CHR ''/'' then ''__slash__'' else ''__plus__'')"

definition enc :: "char set \<Rightarrow> char \<Rightarrow> string" where
  "enc S c = (if c \<in> S then token c else [c])"

lemma enc_in [simp]: "c \<in> S \<Longrightarrow> enc S c = token c"
  by (simp add: enc_def)

lemma enc_out [simp]: "c \<notin> S \<Longrightarrow> enc S c = [c]"
  by (simp add: enc_def)

abbreviation seps :: "char set" where "seps \<equiv> {CHR '' '', CHR ''/'', CHR ''+''}"

text \<open>A name that survives: no underscore, and no part between two of the characters that is called like one
  of the tokens.\<close>

definition name_ok :: "string \<Rightarrow> bool" where
  "name_ok s \<longleftrightarrow> CHR ''_'' \<notin> set s \<and>
     (\<forall>a x w y b. s = a @ x # w @ y # b \<longrightarrow> x \<in> seps \<longrightarrow> y \<in> seps \<longrightarrow> w \<noteq> ''space'' \<and> w \<noteq> ''slash'')"

lemma name_ok_tl: "name_ok (c # s) \<Longrightarrow> name_ok s"
  unfolding name_ok_def by (metis append_Cons list.set_intros(2))

lemma name_ok_part: "name_ok (x # w @ y # b) \<Longrightarrow> x \<in> seps \<Longrightarrow> y \<in> seps \<Longrightarrow> w \<noteq> ''space'' \<and> w \<noteq> ''slash''"
  unfolding name_ok_def by (metis append_Nil)

lemma enc_word:
  "S \<subseteq> seps \<Longrightarrow> CHR ''_'' \<notin> set s \<Longrightarrow> CHR ''_'' \<notin> set w \<Longrightarrow> concat (map (enc S) s) = w @ CHR ''_'' # t \<Longrightarrow>
   \<exists>y b. s = w @ y # b \<and> y \<in> S"
proof (induction w arbitrary: s)
  case Nil
  then show ?case by (cases s) (auto simp: enc_def split: if_splits)
next
  case (Cons c w)
  then obtain d s' where s: "s = d # s'" by (cases s) auto
  have "d \<notin> S"
  proof
    assume "d \<in> S"
    then show False using Cons.prems s by (auto simp: enc_def token_def split: if_splits)
  qed
  then have "d = c" "concat (map (enc S) s') = w @ CHR ''_'' # t" using Cons.prems(4) s by auto
  then show ?case using Cons.IH [of s'] Cons.prems s by auto
qed

lemma enc_underscore: "CHR ''_'' \<notin> set s \<Longrightarrow> concat (map (enc S) s) = CHR ''_'' # t \<Longrightarrow> \<exists>u. t = CHR ''_'' # u"
  by (cases s) (auto simp: enc_def token_def split: if_splits)

text \<open>One step of the decoding.\<close>

lemma decode_step:
  assumes S: "S \<subseteq> seps" "c \<in> S" and order: "c = CHR '' '' \<or> CHR '' '' \<notin> S" "c \<noteq> CHR ''+'' \<or> CHR ''/'' \<notin> S"
  shows "name_ok s \<Longrightarrow> ReplaceAll (concat (map (enc S) s)) (token c) [c] = concat (map (enc (S - {c})) s)"
proof (induction s)
  case Nil
  then show ?case by (simp add: token_def)
next
  case (Cons d s)
  let ?E = "concat (map (enc S) s)"
  have IH: "ReplaceAll ?E (token c) [c] = concat (map (enc (S - {c})) s)" using Cons name_ok_tl by blast
  have u: "CHR ''_'' \<notin> set (d # s)" using Cons.prems by (simp add: name_ok_def)
  have ne: "token c \<noteq> []" by (simp add: token_def)
  consider (hit) "d = c" | (plain) "d \<notin> S" | (other) "d \<noteq> c" "d \<in> S" by blast
  then show ?case
  proof cases
    case hit
    then show ?thesis using ReplaceAll_hit [OF ne, of ?E "[c]"] IH S by simp
  next
    case plain
    then have "\<not> HasPrefix (d # ?E) (token c)" using u by (auto simp: token_def)
    from ReplaceAll_skip [OF this ne] show ?thesis using plain IH by simp
  next
    case other
    have no_word: "\<not> HasPrefix ?E (w @ ''__'')" if "w = ''space'' \<or> w = ''slash''" for w
    proof
      assume "HasPrefix ?E (w @ ''__'')"
      then obtain t where "?E = w @ CHR ''_'' # t" by auto
      moreover have "CHR ''_'' \<notin> set w" using that by auto
      ultimately obtain y b where "s = w @ y # b" "y \<in> S" using enc_word [OF S(1), of s w t] u by auto
      then show False using name_ok_part [of d w y b] Cons.prems other S(1) that by auto
    qed
    have no_us: "?E \<noteq> CHR ''_'' # x # t" if "x \<noteq> CHR ''_''" for x t
      using enc_underscore [of s S] u that by auto
    have cw: "c = CHR '' '' \<and> (d = CHR ''/'' \<or> d = CHR ''+'') \<or> c = CHR ''/'' \<and> d = CHR ''+''"
      using other S order by auto
    have "ReplaceAll (token d @ ?E) (token c) [c] = token d @ ReplaceAll ?E (token c) [c]"
      using cw no_word [of "''space''"] no_word [of "''slash''"] no_us [of "CHR ''s''"]
      by (elim disjE conjE) (simp_all add: token_def ReplaceAll_skip)
    then show ?thesis using IH other by simp
  qed
qed

lemma slugImageName_enc: "s \<noteq> [] \<Longrightarrow> slugImageName s = concat (map (enc seps) s)"
proof -
  have one: "concat (map (\<lambda>c. if c = x then new else [c]) (concat (map f s))) = concat (map (\<lambda>d. concat (map (\<lambda>c. if c = x then new else [c]) (f d))) s)"
    for x :: char and new f by (induction s) auto
  assume "s \<noteq> []"
  then show ?thesis
    by (simp add: slugImageName_def ReplaceAll_char one) (intro arg_cong [where f = concat] map_cong; simp add: enc_def token_def)
qed

lemma enc_none: "concat (map (enc {}) s) = s"
  by (induction s) simp_all

lemma unslug_slug:
  assumes "name_ok s"
  shows "unslugImageName (slugImageName s) = s"
proof (cases "s = []")
  case True
  then show ?thesis by (simp add: slugImageName_def unslugImageName_def) code_simp
next
  case False
  have steps: "ReplaceAll (concat (map (enc seps) s)) ''__space__'' '' '' = concat (map (enc {CHR ''/'', CHR ''+''}) s)"
    "ReplaceAll (concat (map (enc {CHR ''/'', CHR ''+''}) s)) ''__slash__'' ''/'' = concat (map (enc {CHR ''+''}) s)"
    "ReplaceAll (concat (map (enc {CHR ''+''}) s)) ''__plus__'' ''+'' = s"
    using decode_step [of seps "CHR '' ''", OF _ _ _ _ assms] decode_step [of "{CHR ''/'', CHR ''+''}" "CHR ''/''", OF _ _ _ _ assms]
      decode_step [of "{CHR ''+''}" "CHR ''+''", OF _ _ _ _ assms]
    by (simp_all add: token_def enc_none insert_Diff_if)
  have "s \<noteq> NamelessImageRecordTag" using assms by (auto simp: name_ok_def NamelessImageRecordTag_def)
  then show ?thesis using False by (simp add: slugImageName_enc unslugImageName_def steps Let_def)
qed

lemma concat_map_self: "(\<And>x. x \<in> set xs \<Longrightarrow> f x = [x]) \<Longrightarrow> concat (map f xs) = xs"
  by (induction xs) auto

lemma slugImageName_plain: "s \<noteq> [] \<Longrightarrow> set s \<inter> seps = {} \<Longrightarrow> slugImageName s = s"
  by (simp add: slugImageName_enc, rule concat_map_self) (rule enc_out, blast)

lemma name_ok_plain: "CHR ''_'' \<notin> set s \<Longrightarrow> set s \<inter> seps = {} \<Longrightarrow> name_ok s"
  unfolding name_ok_def by force

lemma slug_char_plain: "list_all slug_char s \<Longrightarrow> CHR ''_'' \<notin> set s \<and> set s \<inter> seps = {}"
  by (auto simp: list_all_iff slug_char_def is_name_char_def is_lower_def is_digit_def)

lemma slug_valid_tag: "list_all slug_char r \<Longrightarrow> r \<noteq> [] \<Longrightarrow> hd r \<noteq> CHR ''-'' \<Longrightarrow> length r \<le> 128 \<Longrightarrow> IsValidDockerTag r"
  by (cases r) (auto simp: IsValidDockerTag_def shouldNotBeSlugged_def DockerTagMaxSize_def dockerTagRegexp_def list_all_iff
    slug_char_def is_name_char_def is_word_def)

text \<open>C35: for a name without an underscore and without a part called \<open>space\<close> or \<open>slash\<close> between two separators, the name of an image
  comes back from its slug (the empty name too), and the name that werf lists for a managed image addresses
  the record of this image, also when the name was too long or too odd to be kept. The condition is
  sufficient; that a part of that kind is really lost shows \<open>space_name_lost\<close>.\<close>

theorem image_name_roundtrip:
  assumes "name_ok nm" and "murmur_ok 114 (murmur (slugImageName nm))"
  shows "unslugImageName (slugImageName nm) = nm \<and>
    (\<exists>i. getManagedImageID murmur nm = Inr i \<and> getManagedImageID murmur (getManagedImageNameFromManagedImageID i) = Inr i)"
proof (cases "IsValidDockerTag (slugImageName nm)")
  case True
  then show ?thesis using unslug_slug [OF assms(1)]
    by (simp add: getManagedImageID_def getManagedImageNameFromManagedImageID_def)
next
  case False
  let ?s = "slugImageName nm"
  have slug: "LimitedSlug murmur ?s 114 = slug murmur ?s 114"
  proof (rule ccontr)
    assume "LimitedSlug murmur ?s 114 \<noteq> slug murmur ?s 114"
    then have n: "\<not> shouldBeSlugged ?s 114" by (auto simp: LimitedSlug_def)
    have ne: "?s \<noteq> []" using False by (auto simp: IsValidDockerTag_def shouldNotBeSlugged_def)
    show False
    proof (cases "slugify ?s = ?s \<and> length ?s \<le> 114")
      case True
      then have "slug_ok ?s" by (simp add: slugify_fixed)
      then show False using False slug_valid_tag [of ?s] True ne by (simp add: slug_ok_def)
    next
      case no_slug: False
      then have len: "length ?s \<le> 114" and c: "Count ?s ''--'' = 1" and same: "slugify (Replace1 ?s ''--'' ''-'') = Replace1 ?s ''--'' ''-''"
        using n ne by (auto simp: shouldBeSlugged_def Let_def split: if_splits)
      obtain a b where ab: "Cut ?s ''--'' = Some (a, b)" using c
        by (cases "Cut ?s ''--''") (auto simp: Count_def Split.simps [of ?s])
      then have "slug_ok (a @ ''-'' @ b)" using same by (simp add: Replace1_def slugify_fixed)
      moreover have "?s = a @ ''--'' @ b" using Cut_SomeD [OF ab] .
      ultimately have "list_all slug_char ?s" "hd ?s \<noteq> CHR ''-''" by (cases a; simp add: slug_ok_def slug_char_def)+
      then show False using slug_valid_tag [of ?s] ne len \<open>\<not> IsValidDockerTag ?s\<close> by simp
    qed
  qed
  obtain r where r: "slug murmur ?s 114 = Inr r" "r \<noteq> []" "length r \<le> 114" "list_all slug_char r" "hd r \<noteq> CHR ''-''"
    using slug_stable [of 114 murmur ?s, OF assms(2)] by blast
  have plain: "slugImageName r = r" "name_ok r" "IsValidDockerTag r"
    using slug_char_plain [OF r(4)] r slugImageName_plain name_ok_plain slug_valid_tag by simp_all
  then have "getManagedImageID murmur nm = Inr r"
    using False r slug by (simp add: getManagedImageID_def DockerTagMaxSize_def record_prefixes)
  moreover have "unslugImageName r = r" using unslug_slug [OF plain(2)] plain(1) by simp
  ultimately show ?thesis using unslug_slug [OF assms(1)] plain
    by (simp add: getManagedImageNameFromManagedImageID_def getManagedImageID_def)
qed

text \<open>The names that do not come back, and a record whose tag is too long for the registry.\<close>

lemma space_name_lost: "unslugImageName (slugImageName ''a/space/b'') = ''a__slash slash__b''"
  by code_simp

lemma managed_image_tag_too_long:
  "\<exists>i. getManagedImageID murmur (replicate 128 CHR ''a'') = Inr i \<and>
     \<not> IsValidDockerTag (RepoManagedImageRecord_ImageTagPrefix @ i)"
proof -
  let ?s = "replicate 128 CHR ''a''"
  have "slugImageName ?s = ?s" by (rule slugImageName_plain) auto
  moreover have "IsValidDockerTag ?s"
    by (rule slug_valid_tag) (simp_all add: list_all_iff slug_char_def is_name_char_def is_lower_def)
  ultimately have "getManagedImageID murmur ?s = Inr ?s" by (simp add: getManagedImageID_def)
  moreover have "\<not> IsValidDockerTag (RepoManagedImageRecord_ImageTagPrefix @ ?s)"
    by (simp add: IsValidDockerTag_def shouldNotBeSlugged_def DockerTagMaxSize_def record_prefixes)
  ultimately show ?thesis by blast
qed

end
