(* ===== verification/Repo_Reading.thy ===== *)
theory Repo_Reading
  imports Repo_Refinement Stage_Tags Repo_Tags
begin

text \<open>
  What the storage reads from the registry: the stages of a digest, the tables of the image metadata that
  the cleanup starts from, and the records as they were put. The listings are those without the option
  \<open>WithCache\<close>, which ask the registry.
\<close>

subsection \<open>The listed tags\<close>

lemma st_Tags_law:
  assumes ok: "registry_ok view (DockerRegistry st)" and run: "st_Tags st False s = (Inr tags, s')"
  shows "distinct tags \<and> set tags = {t. images_of view s (RepoAddress st @ '':'' @ t) \<noteq> None} \<and> remote s' = remote s"
proof -
  have api: "api_tags (DockerRegistry st) (RepoAddress st) (remote s) = Inr tags" "remote s' = remote s"
    using run by (auto simp: st_Tags_def reg_Tags_def getTagsListFromRegistry_def tryLoadTagsFromCache_def split: sum.splits)
  show ?thesis
  proof (cases "remote_list (DockerRegistry st) (RepoAddress st) (remote s)")
    case (Inl e)
    then have "status_404 (DockerRegistry st) e" "tags = []" using api by (auto simp: api_tags_def split: if_splits)
    then show ?thesis using list_laws(2) [OF ok Inl] api by simp
  next
    case (Inr ts)
    then have "ts = tags" using api by (simp add: api_tags_def)
    then show ?thesis using list_laws(1) [OF ok Inr] api by simp
  qed
qed

lemma read_tags:
  assumes ok: "registry_ok view (DockerRegistry st)" and run: "and_use (st_Tags st False) w k s = (Inr y, s')"
  obtains tags t where "distinct tags" "set tags = {t. images_of view s (RepoAddress st @ '':'' @ t) \<noteq> None}" "remote t = remote s"
    "k tags t = (Inr y, s')"
  using run
proof (cases rule: and_useE)
  case (passed tags t)
  then show thesis using st_Tags_law [OF ok passed(1)] that by blast
qed simp

subsection \<open>Rejected and deleted stages\<close>

lemma rejected_name_tag: "rejected_name st (NewStageID d ts) = RepoAddress st @ '':'' @ d @ ''-'' @ int_dec ts @ ''-rejected''"
  by (simp add: rejected_name_def makeRepoRejectedStageImageRecord_def NewStageID_def)

lemma RejectStage_law:
  assumes "storage_laws view st" "RejectStage st project d ts s = (Inr u, s')"
  shows "\<exists>ls. pushed (rejected_name st (NewStageID d ts)) ls (images_of view s) (images_of view s')"
proof -
  have "\<exists>x. PushImage (DockerRegistry st) (rejected_name st (NewStageID d ts)) [(WerfLabel, project)] s = (x, s') \<and> \<not> isl x"
    using assms(2) by (auto simp: RejectStage_def rejected_name_def NewStageID_def Let_def act_simps elim!: and_useE)
  moreover have "unaliased (DockerRegistry st) (rejected_name st (NewStageID d ts))"
    using assms(1) record_names(6) by (simp add: records_unaliased_def rejected_name_def)
  ultimately show ?thesis using PushImage_law [of view "DockerRegistry st"] assms(1) by blast
qed

lemma GetStageDesc_rejected:
  assumes ok: "registry_ok view (DockerRegistry st)" "damaged_only view (DockerRegistry st) B" "rejected_name st i \<notin> B"
    and rejected: "images_of view s (rejected_name st i) \<noteq> None"
    and run: "GetStageDesc st i s = (x, s')"
  shows "x \<noteq> Inr (Some d)"
proof (cases "GetRepoImage (DockerRegistry st) (ConstructStageImageName (RepoAddress st) (Digest i) (CreationTs i)) s")
  case (Pair y t)
  then have t: "t = s" using GetRepoImage_law [OF ok(1) Pair] by simp
  show ?thesis
  proof (cases y)
    case (Inl e)
    then show ?thesis using run Pair by (auto simp: GetStageDesc_def Let_def act_simps split: if_splits)
  next
    case (Inr info)
    then have "and_use (TryGetRepoImage (DockerRegistry st) (rejected_name st i)) (err_get (rejected_name st i))
        (\<lambda>r. return_act (case r of Some _ \<Rightarrow> None | None \<Rightarrow> Some (NewStageID (Digest i) (CreationTs i), info))) s = (x, s')"
      using run Pair t by (simp add: GetStageDesc_def Let_def)
    then show ?thesis
    proof (cases rule: and_useE)
      case (passed r u)
      then show ?thesis using TryGetRepoImage_law [OF ok passed(1)] rejected by (auto simp: act_simps)
    qed simp
  qed
qed


lemma DeleteStage_law:
  assumes ok: "registry_ok view (DockerRegistry st)" and own: "records_own view (RepoAddress st) s"
    and run: "DeleteStage st d s = (Inr (), s')"
  defines "v \<equiv> without (iRepoDigest (desc_info d)) (images_of view s)" and "n \<equiv> rejected_name st (desc_id d)"
  shows "images_of view s' = v(n := None) \<or>
    images_of view s' = v \<and> (\<forall>B. damaged_only view (DockerRegistry st) B \<longrightarrow> n \<notin> B \<longrightarrow> v n = None)"
  using run unfolding DeleteStage_def
proof (cases rule: and_useE)
  case (passed u t)
  have t: "images_of view t = v" using DeleteRepoImage_law [OF ok passed(1)] by (simp add: v_def)
  have own_n: "own (images_of view t) n" unfolding t v_def
    using own own_without record_names(6) by (simp add: records_own_def rejected_name_def n_def)
  from passed(2) [unfolded Let_def, folded n_def] show ?thesis
  proof (cases rule: and_useE)
    case (passed img u)
    show ?thesis
    proof (cases img)
      case None
      then have "images_of view s' = v" using TryGetRepoImage_Some [OF ok passed(1)] passed(2) t by (simp add: act_simps)
      moreover have "v n = None" if "damaged_only view (DockerRegistry st) B" "n \<notin> B" for B
        using TryGetRepoImage_law [OF ok that passed(1)] None t by simp
      ultimately show ?thesis by blast
    next
      case (Some i)
      note img = TryGetRepoImage_Some [OF ok passed(1)]
      from Some passed(2) img have "and_use (DeleteRepoImage (DockerRegistry st) i) (wrap (''unable to remove rejected image record '' @ n))
          return_act t = (Inr (), s')" by simp
      from delete_own [OF ok own_n _ this] img Some t show ?thesis by simp
    qed
  qed simp
qed simp



subsection \<open>The tables of the image metadata\<close>

text \<open>The parts of a metadata tag.\<close>

definition meta_parts :: "string \<Rightarrow> (string \<times> string \<times> string) option" where
  "meta_parts tag =
     (if HasPrefix tag ''meta-'' then (case Split (TrimPrefix tag ''meta-'') ''_'' of [k, c, i] \<Rightarrow> Some (k, c, i) | _ \<Rightarrow> None) else None)"

abbreviation no_underscore :: "string \<Rightarrow> bool" where
  "no_underscore s \<equiv> CHR ''_'' \<notin> set s"

lemma meta_parts_iff:
  "meta_parts tag = Some (k, c, i) \<longleftrightarrow>
     tag = makeRepoImageMetadataTagNameByImageMetadataID k c i \<and> no_underscore k \<and> no_underscore c \<and> no_underscore i"
proof
  assume "meta_parts tag = Some (k, c, i)"
  then obtain t where t: "tag = ''meta-'' @ t" and sp: "Split t ''_'' = [k, c, i]"
    by (auto simp: meta_parts_def TrimPrefix_append [of "''meta-''", simplified] split: if_splits list.splits)
  have "t = Join [k, c, i] ''_''" using Join_Split [of "''_''" t] sp by simp
  moreover have "no_underscore k" "no_underscore c" "no_underscore i" using Split_parts_notin [of _ t "CHR ''_''"] sp by auto
  ultimately show "tag = makeRepoImageMetadataTagNameByImageMetadataID k c i \<and> no_underscore k \<and> no_underscore c \<and> no_underscore i"
    by (simp add: t makeRepoImageMetadataTagNameByImageMetadataID_def)
next
  assume *: "tag = makeRepoImageMetadataTagNameByImageMetadataID k c i \<and> no_underscore k \<and> no_underscore c \<and> no_underscore i"
  then have "Split (k @ CHR ''_'' # c @ CHR ''_'' # i) ''_'' = [k, c, i]" by (simp add: Split_single_append Split_single_notin)
  moreover have "TrimPrefix tag ''meta-'' = k @ CHR ''_'' # c @ CHR ''_'' # i"
    using * TrimPrefix_append [of "''meta-''"] by (simp add: makeRepoImageMetadataTagNameByImageMetadataID_def)
  moreover have "HasPrefix tag ''meta-''" using * by (simp add: makeRepoImageMetadataTagNameByImageMetadataID_def)
  ultimately show "meta_parts tag = Some (k, c, i)" by (simp add: meta_parts_def del: HasPrefix_iff)
qed

abbreviation part_key :: "string \<Rightarrow> string" where "part_key tag \<equiv> fst (the (meta_parts tag))"
abbreviation part_commit :: "string \<Rightarrow> string" where "part_commit tag \<equiv> fst (snd (the (meta_parts tag)))"
abbreviation part_stage :: "string \<Rightarrow> string" where "part_stage tag \<equiv> snd (snd (the (meta_parts tag)))"

lemma add_commit_append2: "add_commit n i c t = slice_append2 n i [c] t"
  by (simp add: add_commit_def slice_append2_def map_get_def)

lemma group_tag_eq:
  "group_tag ids ''meta-'' (t, u) tag =
     ((if meta_parts tag \<noteq> None \<and> map_of ids (part_key tag) \<noteq> None
       then slice_append2 (the (map_of ids (part_key tag))) (part_stage tag) [part_commit tag] t else t),
      (if meta_parts tag \<noteq> None \<and> map_of ids (part_key tag) = None
       then slice_append2 (part_key tag) (part_stage tag) [part_commit tag] u else u))"
proof (cases "meta_parts tag")
  case None
  then show ?thesis by (auto simp: group_tag_def meta_parts_def split: if_splits list.splits simp del: HasPrefix_iff)
next
  case (Some p)
  then obtain k c i where p: "meta_parts tag = Some (k, c, i)" by (cases p) auto
  then have "HasPrefix tag ''meta-''" "Split (TrimPrefix tag ''meta-'') ''_'' = [k, c, i]"
    by (auto simp: meta_parts_def split: if_splits list.splits simp del: HasPrefix_iff)
  then show ?thesis using p
    by (cases "map_of ids k") (simp_all add: group_tag_def metadata_key_def add_commit_append2 del: HasPrefix_iff)
qed

lemma group_fold:
  "foldl (group_tag ids ''meta-'') (t, u) tags =
     (foldl (\<lambda>r x. if meta_parts x \<noteq> None \<and> map_of ids (part_key x) \<noteq> None
        then slice_append2 (the (map_of ids (part_key x))) (part_stage x) [part_commit x] r else r) t tags,
      foldl (\<lambda>r x. if meta_parts x \<noteq> None \<and> map_of ids (part_key x) = None
        then slice_append2 (part_key x) (part_stage x) [part_commit x] r else r) u tags)"
  by (induction tags arbitrary: t u) (simp_all add: group_tag_eq)

lemma table_ok_fold_append2:
  "table_ok (foldl (\<lambda>r x. if P x then slice_append2 (n x) (k x) (v x) r else r) [] xs)" (is "table_ok ?t")
proof -
  have ok: "map_ok ?t" by (rule map_ok_fold_append2) simp
  have "map_ok inner" if "(m, inner) \<in> set ?t" for m inner
    using map_get_mem [OF ok that] map_ok_fold_append [of "[]" "\<lambda>x. P x \<and> n x = m" k v xs]
    by (simp add: map_get_fold_append2)
  then show ?thesis using ok by (auto simp: table_ok_def)
qed

lemma table_get_fold_append2:
  "slice_get (map_get (foldl (\<lambda>r x. if P x then slice_append2 (n x) (k x) [v x] r else r) [] xs) m) i =
     map v (filter (\<lambda>x. (P x \<and> n x = m) \<and> k x = i) xs)"
proof -
  have "concat (map (\<lambda>x. [v x]) ys) = map v ys" for ys by (induction ys) auto
  then show ?thesis by (simp add: map_get_fold_append2 slice_get_fold_append)
qed

lemma metadata_ids_result:
  "metadata_ids murmur nms m = Inr ids \<Longrightarrow>
   \<forall>n \<in> set nms. \<exists>k. getImageMetadataID murmur n = Inr k \<and> k \<in> map_keys ids"
  "metadata_ids murmur nms m = Inr ids \<Longrightarrow> map_of ids k = Some n \<Longrightarrow> map_of m k = Some n \<or> n \<in> set nms \<and> getImageMetadataID murmur n = Inr k"
  "metadata_ids murmur nms m = Inr ids \<Longrightarrow> map_keys m \<subseteq> map_keys ids"
proof (induction nms arbitrary: m)
  case (Cons x nms)
  {
    case 1
    then obtain i where i: "getImageMetadataID murmur x = Inr i" "metadata_ids murmur nms (AList.update i x m) = Inr ids"
      by (auto split: sum.splits)
    then show ?case using Cons.IH(1,3) [OF i(2)] by (auto simp: map_keys_update)
  next
    case 2
    then obtain i where i: "getImageMetadataID murmur x = Inr i" "metadata_ids murmur nms (AList.update i x m) = Inr ids"
      by (auto split: sum.splits)
    then show ?case using Cons.IH(2) [OF i(2) 2(2)] by (auto simp: map_of_update split: if_splits)
  next
    case 3
    then obtain i where i: "metadata_ids murmur nms (AList.update i x m) = Inr ids" by (auto split: sum.splits)
    then show ?case using Cons.IH(3) [OF i] by (auto simp: map_keys_update)
  }
qed auto

text \<open>A record of image metadata is there.\<close>

definition has_metadata :: "images \<Rightarrow> string \<Rightarrow> string \<Rightarrow> string \<Rightarrow> string \<Rightarrow> bool" where
  "has_metadata v repo k c i \<longleftrightarrow> no_underscore k \<and> no_underscore c \<and> no_underscore i \<and>
     v (makeRepoImageMetadataNameByImageMetadataID repo k c i) \<noteq> None"

lemma commit_listed:
  assumes "set tags = {t. v (repo @ '':'' @ t) \<noteq> None}"
  shows "c \<in> set (map part_commit (filter (\<lambda>x. ((meta_parts x \<noteq> None \<and> P (part_key x)) \<and> g (part_key x) = n) \<and> part_stage x = i) tags)) \<longleftrightarrow>
    (\<exists>k. P k \<and> g k = n \<and> has_metadata v repo k c i)"
proof
  assume "c \<in> set (map part_commit (filter (\<lambda>x. ((meta_parts x \<noteq> None \<and> P (part_key x)) \<and> g (part_key x) = n) \<and> part_stage x = i) tags))"
  then obtain x k where "x \<in> set tags" "meta_parts x = Some (k, c, i)" "P k" "g k = n" by auto
  then show "\<exists>k. P k \<and> g k = n \<and> has_metadata v repo k c i"
    using assms by (auto simp: has_metadata_def meta_parts_iff makeRepoImageMetadataNameByImageMetadataID_def)
next
  assume "\<exists>k. P k \<and> g k = n \<and> has_metadata v repo k c i"
  then obtain k where k: "P k" "g k = n" "has_metadata v repo k c i" by blast
  let ?x = "makeRepoImageMetadataTagNameByImageMetadataID k c i"
  have "meta_parts ?x = Some (k, c, i)" "?x \<in> set tags"
    using k assms by (auto simp: has_metadata_def meta_parts_iff makeRepoImageMetadataNameByImageMetadataID_def)
  then show "c \<in> set (map part_commit (filter (\<lambda>x. ((meta_parts x \<noteq> None \<and> P (part_key x)) \<and> g (part_key x) = n) \<and> part_stage x = i) tags))"
    using k by (auto intro!: image_eqI [of _ _ ?x])
qed



subsection \<open>Records as they were put\<close>

lemma ToLabelsMap_inverse:
  "map_of ls = map_of (AList.update WerfLabel project (ToLabelsMap m)) \<Longrightarrow> newImportMetadataFromLabels ls = m"
  by (simp add: newImportMetadataFromLabels_def label_get_def ToLabelsMap_def label_defs)

lemma ToLabels_inverse:
  "map_of ls = map_of (AList.update WerfLabel project (ToLabels m)) \<Longrightarrow> newCustomTagMetadataFromLabels ls = m"
  by (simp add: newCustomTagMetadataFromLabels_def label_get_def ToLabels_def label_defs)

lemma get_content: "v ref = Some i \<Longrightarrow> content v ref = Some ls \<Longrightarrow> map_of (iLabels i) = ls"
  by (simp add: content_def)


end
