(* ===== verification/Repo_Examples.thy ===== *)
theory Repo_Examples
  imports Repo_Reading
begin

text \<open>
  A registry in memory that follows the laws, and the theorems about the storage applied to it.
\<close>

subsection \<open>A registry in memory\<close>

text \<open>The digest and the labels of each reference. All references are of one repo, and the image of one of them is damaged.\<close>

type_synonym memory = "(string \<times> string \<times> labels) list"

definition mem_info :: "string \<Rightarrow> string \<times> labels \<Rightarrow> Info" where
  "mem_info ref = (\<lambda>(digest, ls). Info ref ''h/r'' ''t'' (''h/r@'' @ digest) [] [] digest
     (case map_of ls WerfBaseImageIDLabel of Some i \<Rightarrow> i | None \<Rightarrow> []) ls 0 0 [] False [])"

definition mem_view :: "memory \<Rightarrow> images" where
  "mem_view r = (\<lambda>ref. map_option (mem_info ref) (map_of r ref))"

definition broken_refs :: "string list" where "broken_refs = [''repo:managed-image-old'', ''repo:ab-4-rejected'']"

text \<open>A digest that is longer than all that are there.\<close>

definition mem_digest :: "memory \<Rightarrow> string" where
  "mem_digest r = replicate (Suc (sum_list (map (\<lambda>(_, d, _). length d) r))) CHR ''d''"

definition mem_del :: "string \<Rightarrow> memory \<Rightarrow> memory" where
  "mem_del d r =
     (let gone = map fst (filter (\<lambda>(k, _). case map_of r k of None \<Rightarrow> False | Some (digest, _) \<Rightarrow> ''h/r@'' @ digest = d) r)
      in filter (\<lambda>(k, _). k \<notin> set gone) r)"

definition mem_image :: "string \<times> labels \<Rightarrow> remote_image" where
  "mem_image = (\<lambda>(digest, ls). \<lparr>imageDigest = Inr digest, configDigest = Inr digest,
     configFile = Inr \<lparr>cfgLabels = ls, cfgOnBuild = [], cfgEnv = [], cfgCreated = 0, cfgVolumes = [], cfgImage = []\<rparr>, layerSizes = Inr []\<rparr>)"

fun mem_code :: "ErrorCode \<Rightarrow> string" where
  "mem_code BlobUnknownErrorCode = ''BLOB_UNKNOWN''"
| "mem_code ManifestUnknownErrorCode = ''MANIFEST_UNKNOWN''"
| "mem_code NameUnknownErrorCode = ''NAME_UNKNOWN''"
| "mem_code _ = ''INVALID''"

definition mem_registry :: "memory registry" where
  "mem_registry =
     \<lparr>ParseReference = (\<lambda>ref. Inr (ref, ''h'', ''r'')),
      FindStringSubmatch = (\<lambda>ref. [ref, ''r'', ''t'', []]),
      DefaultTag = ''latest'',
      remote_list = (\<lambda>repo r. Inr (map (drop (length repo + 1)) (filter (\<lambda>k. HasPrefix k (repo @ '':'')) (remdups (map fst r))))),
      remote_get = (\<lambda>ref r. case map_of r ref of
           None \<Rightarrow> Inl (Err ''MANIFEST_UNKNOWN'')
         | Some e \<Rightarrow> if ref \<in> set broken_refs then Inl (Err ''BLOB_UNKNOWN'') else Inr (Image_descriptor (Inr (mem_image e)))),
      remote_write = (\<lambda>ref ls r. (Inr (), (ref, mem_digest r, ls) # r)),
      remote_delete = (\<lambda>d r. (Inr (), mem_del d r)),
      remote_tag = (\<lambda>ref t r. (Inr (), r)),
      remote_copy = (\<lambda>a b r. (Inr (), r)),
      code_text = mem_code,
      status_404 = (\<lambda>_. False)\<rparr>"

lemma mem_info_digest [simp]: "iRepoDigest (mem_info ref (d, ls)) = ''h/r@'' @ d" "iLabels (mem_info ref (d, ls)) = ls"
  by (simp_all add: mem_info_def)

lemma mem_digest_fresh: "(k, d, ls) \<in> set r \<Longrightarrow> d \<noteq> mem_digest r"
proof -
  assume "(k, d, ls) \<in> set r"
  then have "length d \<le> sum_list (map (\<lambda>(_, d, _). length d) r)" by (induction r) auto
  then show ?thesis by (auto simp: mem_digest_def dest: arg_cong [where f = length])
qed

lemma mem_delete_view: "mem_view (mem_del d r) = without d (mem_view r)"
proof
  fix ref
  have keep: "map_of (filter (\<lambda>(k, _). P k) xs) ref = (if P ref then map_of xs ref else None)" for P and xs :: memory
    by (induction xs) auto
  show "mem_view (mem_del d r) ref = without d (mem_view r) ref"
    unfolding mem_del_def Let_def keep without_def mem_view_def
    by (cases "map_of r ref") (auto simp: image_iff Bex_def dest: map_of_SomeD split: option.splits prod.splits)
qed

text \<open>What is read.\<close>

definition mem_error :: "string \<Rightarrow> memory \<Rightarrow> go_error" where
  "mem_error ref r = wrap (''getting '' @ ref) (Err (if map_of r ref = None then ''MANIFEST_UNKNOWN'' else ''BLOB_UNKNOWN''))"

lemma mem_parse: "ParseReference mem_registry ref = Inr (ref, ''h'', ''r'')" "parseReferenceParts mem_registry ref = Inr (''h'', ''r'', ''t'')"
  by (simp_all add: mem_registry_def parseReferenceParts_def)

lemma mem_image_info: "image_info ref ''h/r'' ''t'' (Inr (mem_image e)) = Inr (mem_info ref e)"
proof -
  have "NormalizeRepository ''h/r'' = ''h/r''" by code_simp
  then show ?thesis
    by (cases e) (simp add: image_info_def bind_res_def wrap_res_def mem_image_def mem_info_def SetCreatedAtUnix_def split: option.split)
qed

lemma mem_read:
  "api_GetRepoImage mem_registry ref r = (case map_of r ref of
     None \<Rightarrow> Inl (mem_error ref r) | Some e \<Rightarrow> if ref \<in> set broken_refs then Inl (mem_error ref r) else Inr (mem_info ref e))"
proof -
  have join: "Join [''h'', ''r''] ''/'' = ''h/r''" by code_simp
  have get: "remote_get mem_registry ref r = (case map_of r ref of None \<Rightarrow> Inl (Err ''MANIFEST_UNKNOWN'')
       | Some e \<Rightarrow> if ref \<in> set broken_refs then Inl (Err ''BLOB_UNKNOWN'') else Inr (Image_descriptor (Inr (mem_image e))))"
    by (simp add: mem_registry_def)
  show ?thesis
    by (cases "map_of r ref")
      (simp_all add: api_GetRepoImage_def getImageDesc_def mem_parse get mem_error_def bind_res_def wrap_res_def
        getRepoImageByDesc.simps join mem_image_info)
qed

lemma mem_absent_error: "IsImageNotFoundError mem_registry (mem_error ref r) \<or> IsBrokenImageError mem_registry (mem_error ref r)"
proof -
  have c: "Contains (''getting '' @ ref @ '': '' @ t) t" for t unfolding Contains_iff by (metis append.assoc append_Nil2)
  have "code_text mem_registry = mem_code" by (simp add: mem_registry_def)
  then show ?thesis
    using c [of "''MANIFEST_UNKNOWN''"] c [of "''BLOB_UNKNOWN''"]
    by (simp add: mem_error_def IsImageNotFoundError_def IsBrokenImageError_def isErrorMatched_def NotFoundImageCodes_def BrokenImageCodes_def)
qed

lemma mem_registry_ok: "registry_ok mem_view mem_registry"
  unfolding registry_ok_def
proof (intro conjI allI impI)
  fix repo and r :: memory
  have inj: "inj_on (drop (length repo + 1)) {k. HasPrefix k (repo @ '':'')}" by (auto simp: inj_on_def)
  have "distinct (map (drop (length repo + 1)) (filter (\<lambda>k. HasPrefix k (repo @ '':'')) (remdups (map fst r))))"
    unfolding distinct_map by (intro conjI inj_on_subset [OF inj]) auto
  moreover have "set (map (drop (length repo + 1)) (filter (\<lambda>k. HasPrefix k (repo @ '':'')) (remdups (map fst r)))) =
      {t. mem_view r (repo @ '':'' @ t) \<noteq> None}"
    by (force simp: map_of_eq_None_keys image_iff mem_view_def)
  ultimately show "case remote_list mem_registry repo r of
        Inr tags \<Rightarrow> distinct tags \<and> set tags = {t. mem_view r (repo @ '':'' @ t) \<noteq> None}
      | Inl e \<Rightarrow> status_404 mem_registry e \<longrightarrow> (\<forall>t. mem_view r (repo @ '':'' @ t) = None)"
    unfolding mem_registry_def by simp
next
  fix ref info and r :: memory
  assume "api_GetRepoImage mem_registry ref r = Inr info"
  then show "mem_view r ref = Some info" by (auto simp: mem_read mem_view_def split: option.splits if_splits)
next
  fix nm ls and r :: memory
  have "called mem_registry nm = {nm}" by (auto simp: called_def mem_parse)
  then have "written mem_registry nm ls (mem_view r) (mem_view ((nm, mem_digest r, ls) # r))"
    unfolding written_def using mem_digest_fresh
    by (intro exI [of _ "mem_info nm (mem_digest r, ls)"]) (auto simp: mem_view_def dest!: map_of_SomeD)
  then show "case remote_write mem_registry nm ls r of
        (Inr _, r') \<Rightarrow> written mem_registry nm ls (mem_view r) (mem_view r')
      | (Inl _, r') \<Rightarrow> mem_view r' = mem_view r \<or> written mem_registry nm ls (mem_view r) (mem_view r')"
    by (simp add: mem_registry_def)
next
  fix d nm and p :: "string \<times> string" and r :: memory
  assume "ParseReference mem_registry d = Inr (nm, p)"
  then show "case remote_delete mem_registry nm r of
        (Inr _, r') \<Rightarrow> mem_view r' = without d (mem_view r)
      | (Inl _, r') \<Rightarrow> mem_view r' = mem_view r \<or> mem_view r' = without d (mem_view r)"
    by (auto simp: mem_parse) (simp add: mem_registry_def mem_delete_view)
qed

definition mem_storage :: "memory RepoStagesStorage" where
  "mem_storage = \<lparr>RepoAddress = ''repo'', DockerRegistry = mem_registry, LegacyMurmurHash = (\<lambda>s. if s = ''app'' then ''a1'' else ''b2''),
     cleanupDisabled = False\<rparr>"

definition mem_start :: "memory client" where "mem_start = \<lparr>remote = [], cachedTagsMap = []\<rparr>"

lemma mem_fields [simp]: "DockerRegistry mem_storage = mem_registry" "RepoAddress mem_storage = ''repo''"
  by (simp_all add: mem_storage_def)

lemma mem_ok: "registry_ok mem_view (DockerRegistry mem_storage)" "records_unaliased mem_storage"
  "damaged_only mem_view (DockerRegistry mem_storage) (set broken_refs)"
  by (simp_all add: mem_registry_ok records_unaliased_def unaliased_def called_def mem_parse damaged_only_def mem_read mem_view_def
      split: option.split)

lemma mem_start_own: "records_own mem_view (RepoAddress mem_storage) mem_start"
  by (simp add: records_own_def own_def mem_start_def mem_view_def)


text \<open>How the calls run in memory.\<close>

lemma mem_TryGet: "TryGetRepoImage mem_registry ref s = (Inr (if ref \<in> set broken_refs then None else mem_view (remote s) ref), s)"
  using mem_absent_error [of ref "remote s"]
  by (cases "map_of (remote s) ref") (simp_all add: TryGetRepoImage_def tryGetRepoImage_def act_simps mem_read mem_view_def)

abbreviation mem_put :: "string \<Rightarrow> labels \<Rightarrow> memory client \<Rightarrow> memory client" where
  "mem_put ref ls s \<equiv> s\<lparr>remote := (ref, mem_digest (remote s), ls) # remote s\<rparr>"

lemma mem_Push: "PushImage mem_registry ref ls s = (Inr (), mem_put ref ls s)"
  by (simp add: PushImage_def lift_def pushWithRetry_def retriesLimit_def pushImage_def mem_parse eval_nat_numeral)
    (simp add: mem_registry_def)

lemma mem_Delete: "DeleteRepoImage mem_registry i s = (Inr (), s\<lparr>remote := mem_del (iRepoDigest i) (remote s)\<rparr>)"
  by (simp add: DeleteRepoImage_def lift_def deleteImageByReference_def mem_parse) (simp add: mem_registry_def)

lemmas mem_calls = mem_TryGet mem_Push mem_Delete push_record_def and_use_def act_simps with_name_def Let_def

text \<open>The removal of a damaged record leaves it.\<close>

lemma damaged_managed_image_stays:
  assumes "map_of (remote s) ''repo:managed-image-old'' = Some e"
  shows "RmManagedImage mem_storage ''old'' s = (Inr (), s)"
proof -
  have "makeRepoManagedImageRecord (LegacyMurmurHash mem_storage) ''repo'' ''old'' = Inr ''repo:managed-image-old''" by code_simp
  moreover have "''repo:managed-image-old'' \<in> set broken_refs" by (simp add: broken_refs_def)
  ultimately show ?thesis
    using rm_record_damaged [of mem_storage "''repo:managed-image-old''" s] assms mem_absent_error
    by (simp add: RmManagedImage_def with_name_def mem_read)
qed

definition source :: ImportMetadata where
  "source = \<lparr>ImportSourceID = ''src'', SourceStageID = ''ab-5'', Checksum = ''77''\<rparr>"

lemma mem_app: "getImageMetadataID (LegacyMurmurHash mem_storage) ''app'' = Inr ''a1''"
  by code_simp

lemma mem_v1: "LimitedSlug (LegacyMurmurHash mem_storage) ''v1'' 48 = Inr ''v1''"
proof -
  have "slug_ok ''v1''" by (simp add: slug_ok_def slug_char_def is_name_char_def is_lower_def is_digit_def no_double_def)
  then show ?thesis using slugify_self [of "''v1''"] by (simp add: LimitedSlug_def shouldBeSlugged_def)
qed

subsection \<open>The theorems on it\<close>


lemma int_dec_45: "int_dec 4 = ''4''" "int_dec 5 = ''5''"
  by code_simp+


definition ab_5 :: StageDesc where
  "ab_5 = \<lparr>desc_addr = 1, desc_id = NewStageID ''ab'' 5, desc_info = mem_info ''repo:ab-5'' (''sha'', [])\<rparr>"

definition with_stage :: "memory client" where
  "with_stage = \<lparr>remote = [(''repo:ab-5'', ''sha'', []), (''repo:v1'', ''sha'', []), (''repo:ab-5-rejected'', ''x'', [])],
     cachedTagsMap = []\<rparr>"


theorem image_name_roundtrip_witness: "unslugImageName (slugImageName ''front/web app+1'') = ''front/web app+1''"
proof -
  have "murmur_ok 114 ''77c3''" by (simp add: murmur_ok_def is_name_char_def is_lower_def is_digit_def)
  moreover have "name_ok ''front/web app+1''"
    unfolding name_ok_def by (auto simp: Cons_eq_append_conv append_eq_Cons_conv)
  ultimately show ?thesis using image_name_roundtrip [of "''front/web app+1''" "\<lambda>_. ''77c3''"] by blast
qed

theorem ids_by_digest_offers_witness:
  "\<exists>ids. ids_by_digest ''ab'' 3 [''ab-5'', ''ab-4'', ''ab-4-rejected''] = Inr ids \<and> NewStageID ''ab'' 4 \<notin> set ids"
proof -
  have "stage_ok ''ab'' 4" "CHR ''-'' \<notin> set ''ab''" by (simp_all add: stage_ok_def int64_ok_def)
  moreover have "''ab'' @ ''-'' @ int_dec 4 @ ''-rejected'' \<in> set [''ab-5'', ''ab-4'', ''ab-4-rejected'']"
    by (simp add: int_dec_45)
  ultimately show ?thesis using ids_by_digest_offers [of "''ab''" 3 "[''ab-5'', ''ab-4'', ''ab-4-rejected'']"] by blast
qed

definition with_metadata :: "memory client" where
  "with_metadata = \<lparr>remote = [(''repo:meta-a1_c0_ab-5'', ''x'', []), (''repo:meta-f7_c1_ab-5'', ''y'', [])], cachedTagsMap = []\<rparr>"



end
