(* ===== verification/Host_Backend.thy ===== *)
theory Host_Backend
  imports Complex_Main Go_Strings "HOL-Library.Word"
begin

text \<open>
  The host that \<open>werf host cleanup\<close> and \<open>werf host purge\<close> work on: the container backend (\<open>src/pkg/container_backend\<close>, \<open>src/pkg/image\<close>),
  the locks, the disk and the record of the last use of an image, with the helpers of
  \<open>src/pkg/host_cleaning/containers.go\<close> and \<open>images.go\<close>, the cleanup report (\<open>cleanup_report.go\<close>) and the usage of a volume
  (\<open>src/pkg/volumeutils/volume_usage.go\<close>).

  Docker, Buildah, the kernel and the lock library are parameters: a record of the answers to the calls. Other
  processes work on the same host, so an answer is a function of all calls made before; nothing is assumed of it.
  The history of the calls is the state of the model. The labels of an image are listed in the order of their names, so that equal lists are equal maps.

  Sizes are \<open>uint64\<close> with its wrap-around. A percentage is an exact rational, where the code rounds to a \<open>float64\<close>; a
  volume has at least one byte (Go would compute with NaN otherwise).
\<close>

subsection \<open>Errors\<close>

text \<open>\<open>errors.Is\<close> looks for a sentinel in the chain of the wrapped errors.\<close>

datatype sentinel = ErrUnsupportedFeature | ErrCannotRemovePausedContainer | ErrCannotRemoveRunningContainer
  | ErrImageUsedByContainer | ErrPruneIsAlreadyRunning | errOptionDryRunNotSupported

datatype host_error = Failed "sentinel option" string

fun errors_Is :: "host_error \<Rightarrow> sentinel \<Rightarrow> bool" where
  "errors_Is (Failed s t) target \<longleftrightarrow> s = Some target"

fun errorf :: "string \<Rightarrow> host_error \<Rightarrow> host_error" where
  "errorf msg (Failed s t) = Failed s (msg @ '': '' @ t)"

subsection \<open>Calls\<close>

record Summary =
  sID :: string
  sRepoTags :: "string list"
  sRepoDigests :: "string list"
  sLabels :: "(string \<times> string) list"
  sCreated :: int
  sSize :: int

record Container =
  cID :: string
  cImageID :: string
  cNames :: "string list"

record ContainerFilter =
  fID :: string
  fName :: string
  fAncestor :: string

type_synonym filters = "(string \<times> string) list"

datatype host_call =
    Call_Info | Call_Stat string | Call_Disk string | Call_Now | Call_LastRun | Call_LastAccess string
  | Call_Images filters | Call_Containers "ContainerFilter list"
  | Call_Acquire string | Call_Release string
  | Call_Rmi string bool | Call_Rm string bool | Call_PruneImages filters | Call_PruneVolumes
  | Call_RemoveHostDirs string "string list" | Call_RemoveAll string | Call_StapelPurge | Call_TmpPurge bool
  | Log "string list"

type_synonym host_calls = "host_call list"

type_synonym 'a host_action = "host_calls \<Rightarrow> (host_error + 'a) \<times> host_calls"

record cleanupReport =
  ItemsDeleted :: "string list"
  SpaceReclaimed :: "64 word"

record host =
  backendName :: string
  homeDir :: string
  serviceDir :: string
  localCacheDir :: string
  sharedContextDir :: string
  windows :: bool
  info :: "host_calls \<Rightarrow> host_error + string"
  stat :: "string \<Rightarrow> host_calls \<Rightarrow> host_error + unit"
  disk_info :: "string \<Rightarrow> host_calls \<Rightarrow> host_error + 64 word \<times> 64 word"
  now :: "host_calls \<Rightarrow> int"
  last_run :: "host_calls \<Rightarrow> host_error + int"
  lru_record :: "string \<Rightarrow> host_calls \<Rightarrow> host_error + int option"
  list_images :: "filters \<Rightarrow> host_calls \<Rightarrow> host_error + Summary list"
  list_containers :: "ContainerFilter list \<Rightarrow> host_calls \<Rightarrow> host_error + Container list"
  acquire :: "string \<Rightarrow> host_calls \<Rightarrow> host_error + bool"
  release :: "string \<Rightarrow> host_calls \<Rightarrow> host_error + unit"
  rmi :: "string \<Rightarrow> bool \<Rightarrow> host_calls \<Rightarrow> host_error + unit"
  rm :: "string \<Rightarrow> bool \<Rightarrow> host_calls \<Rightarrow> host_error + unit"
  prune_images :: "filters \<Rightarrow> host_calls \<Rightarrow> host_error + cleanupReport"
  prune_volumes :: "host_calls \<Rightarrow> host_error + cleanupReport"
  remove_host_dirs :: "string \<Rightarrow> string list \<Rightarrow> host_calls \<Rightarrow> host_error + unit"
  remove_all :: "string \<Rightarrow> host_calls \<Rightarrow> host_error + unit"
  stapel_purge :: "host_calls \<Rightarrow> host_error + unit"
  tmp_purge :: "bool \<Rightarrow> host_calls \<Rightarrow> host_error + unit"

definition ask_host :: "host_call \<Rightarrow> (host_calls \<Rightarrow> host_error + 'a) \<Rightarrow> 'a host_action" where
  "ask_host c f h = (f h, h @ [c])"

definition give :: "'a \<Rightarrow> 'a host_action" where
  "give x h = (Inr x, h)"

definition give_up :: "host_error \<Rightarrow> 'a host_action" where
  "give_up e h = (Inl e, h)"

text \<open>\<open>x, err := m; if err != nil \<dots>\<close>: the error and the value each have their continuation.\<close>

definition attempt :: "'a host_action \<Rightarrow> (host_error \<Rightarrow> 'b host_action) \<Rightarrow> ('a \<Rightarrow> 'b host_action) \<Rightarrow> 'b host_action" where
  "attempt m f k h = (case m h of (Inl e, h') \<Rightarrow> f e h' | (Inr x, h') \<Rightarrow> k x h')"

text \<open>The usual continuation of an error is to return it wrapped.\<close>

definition follow :: "'a host_action \<Rightarrow> string \<Rightarrow> ('a \<Rightarrow> 'b host_action) \<Rightarrow> 'b host_action" where
  "follow m msg k = attempt m (\<lambda>e. give_up (errorf msg e)) k"

definition plain :: "'a host_action \<Rightarrow> ('a \<Rightarrow> 'b host_action) \<Rightarrow> 'b host_action" where
  "plain m k = attempt m give_up k"

fun loop :: "('s \<Rightarrow> 'a \<Rightarrow> 's host_action) \<Rightarrow> 's \<Rightarrow> 'a list \<Rightarrow> 's host_action" where
  "loop f s [] = give s"
| "loop f s (x # xs) = plain (f s x) (\<lambda>s'. loop f s' xs)"

definition log_lines :: "string list \<Rightarrow> unit host_action" where
  "log_lines ls = ask_host (Log ls) (\<lambda>h. Inr ())"

subsection \<open>Usage of a volume\<close>

record VolumeUsage =
  UsedBytes :: "64 word"
  TotalBytes :: "64 word"

definition bytes :: "64 word \<Rightarrow> rat" where
  "bytes w = of_nat (unat w)"

text \<open>The percentages of the code are float64; here they are exact rationals, so a comparison may differ when the quotient is within the rounding
  of its bound. Division by a size of zero gives NaN or an infinity in the code and zero here: what is proved of the usage is about
  volumes of positive size.\<close>

definition Percentage :: "VolumeUsage \<Rightarrow> rat" where
  "Percentage vu = bytes (UsedBytes vu) / bytes (TotalBytes vu) * 100"

definition BytesToFree :: "VolumeUsage \<Rightarrow> rat \<Rightarrow> 64 word" where
  "BytesToFree vu targetVolumeUsagePercentage =
     word_of_int \<lfloor>bytes (TotalBytes vu) / 100 * max (Percentage vu - targetVolumeUsagePercentage) 0\<rfloor>"

definition GetVolumeUsageByPath :: "host \<Rightarrow> string \<Rightarrow> VolumeUsage host_action" where
  "GetVolumeUsageByPath w path =
     follow (ask_host (Call_Disk path) (disk_info w path)) ''unable to get disk info''
       (\<lambda>(total, free). give \<lparr>UsedBytes = total - free, TotalBytes = total\<rparr>)"

subsection \<open>Reports\<close>

definition no_report :: cleanupReport where
  "no_report = \<lparr>ItemsDeleted = [], SpaceReclaimed = 0\<rparr>"

definition Normalize :: "cleanupReport \<Rightarrow> cleanupReport" where
  "Normalize cr = (if length (ItemsDeleted cr) > 0 then cr else no_report)"

definition mapImageListToCleanupReport :: "Summary list \<Rightarrow> cleanupReport" where
  "mapImageListToCleanupReport list =
     Normalize \<lparr>ItemsDeleted = map sID list,
                SpaceReclaimed = foldl (\<lambda>spaceReclaimed img. spaceReclaimed + word_of_int (sSize img)) 0 list\<rparr>"

subsection \<open>Filters and names\<close>

definition label_werf :: "string \<times> string" where "label_werf = (''label'', ''werf'')"
definition DanglingTrue :: "string \<times> string" where "DanglingTrue = (''dangling'', ''true'')"
definition DanglingFalse :: "string \<times> string" where "DanglingFalse = (''dangling'', ''false'')"

definition ContainerLockName :: "string \<Rightarrow> string" where
  "ContainerLockName containerName = ''container.'' @ containerName"

definition ImageLockName :: "string \<Rightarrow> string" where
  "ImageLockName imageName = ''image.'' @ imageName"

definition name_filter :: "string \<Rightarrow> ContainerFilter" where
  "name_filter n = \<lparr>fID = [], fName = n, fAncestor = []\<rparr>"

definition werfContainersByContainersOptions :: "host \<Rightarrow> ContainerFilter list \<Rightarrow> Container list host_action" where
  "werfContainersByContainersOptions w filters =
     (let fs = filters @ [name_filter ''werf.build.'', name_filter ''import-server-'']
      in ask_host (Call_Containers fs) (list_containers w fs))"

definition werfContainerName :: "Container \<Rightarrow> string" where
  "werfContainerName c =
     (case find (\<lambda>name. HasPrefix name ''/werf.build.'' \<or> HasPrefix name ''/import-server-'') (cNames c) of
        None \<Rightarrow> [] | Some name \<Rightarrow> TrimPrefix name ''/'')"

definition list_images_by :: "host \<Rightarrow> filters \<Rightarrow> Summary list host_action" where
  "list_images_by w fs = ask_host (Call_Images fs) (list_images w fs)"

text \<open>\<open>time.Time{}\<close>, in nanoseconds since the epoch, and the time of the last use that the cache has of an image.\<close>

definition zero_time :: int where "zero_time = - 62135596800000000000"

definition GetImageLastAccessTime :: "host \<Rightarrow> string \<Rightarrow> int host_action" where
  "GetImageLastAccessTime w imageRef =
     plain (ask_host (Call_LastAccess imageRef) (lru_record w imageRef))
       (\<lambda>record. case record of None \<Rightarrow> give zero_time | Some ns \<Rightarrow> give ns)"

subsection \<open>What a run may do\<close>

text \<open>Every call of a trace is justified by the history before it.\<close>

fun justified :: "(host_calls \<Rightarrow> host_call \<Rightarrow> bool) \<Rightarrow> host_calls \<Rightarrow> host_calls \<Rightarrow> bool" where
  "justified J h [] \<longleftrightarrow> True"
| "justified J h (c # cs) \<longleftrightarrow> J h c \<and> justified J (h @ [c]) cs"

lemma justified_append: "justified J h (s @ t) \<longleftrightarrow> justified J h s \<and> justified J (h @ s) t"
  by (induction s arbitrary: h) auto

lemma justified_iff: "justified J h t \<longleftrightarrow> (\<forall>pre c post. t = pre @ c # post \<longrightarrow> J (h @ pre) c)"
proof (induction t arbitrary: h)
  case (Cons a t)
  show ?case by (auto simp: Cons.IH Cons_eq_append_conv)
qed simp

text \<open>A contract: from a history where \<open>P\<close> holds every call is justified, and a value satisfies \<open>Q\<close> in the history
  it is returned in.\<close>

definition contract :: "(host_calls \<Rightarrow> host_call \<Rightarrow> bool) \<Rightarrow> (host_calls \<Rightarrow> bool) \<Rightarrow> 'a host_action \<Rightarrow> ('a \<Rightarrow> host_calls \<Rightarrow> bool) \<Rightarrow> bool" where
  "contract J P m Q \<longleftrightarrow> (\<forall>h. P h \<longrightarrow> (\<exists>r t. m h = (r, h @ t) \<and> justified J h t \<and> (\<forall>x. r = Inr x \<longrightarrow> Q x (h @ t))))"

definition lasting :: "(host_calls \<Rightarrow> bool) \<Rightarrow> bool" where
  "lasting P \<longleftrightarrow> (\<forall>h t. P h \<longrightarrow> P (h @ t))"

lemma contractE:
  assumes "contract J P m Q" "P h"
  obtains r t where "m h = (r, h @ t)" "justified J h t" "\<And>x. r = Inr x \<Longrightarrow> Q x (h @ t)"
  using assms unfolding contract_def by blast

lemma contract_weaken: "contract J P m Q \<Longrightarrow> (\<And>h. P' h \<Longrightarrow> P h) \<Longrightarrow> (\<And>x h. Q x h \<Longrightarrow> Q' x h) \<Longrightarrow> contract J P' m Q'"
  unfolding contract_def by meson

lemma contract_give: "(\<And>h. P h \<Longrightarrow> Q x h) \<Longrightarrow> contract J P (give x) Q"
  by (auto simp: contract_def give_def)

lemma contract_give_up: "contract J P (give_up e) Q"
  by (auto simp: contract_def give_up_def)

lemma contract_ask:
  "(\<And>h. P h \<Longrightarrow> J h c) \<Longrightarrow> (\<And>h x. P h \<Longrightarrow> f h = Inr x \<Longrightarrow> Q x (h @ [c])) \<Longrightarrow> contract J P (ask_host c f) Q"
  by (auto simp: contract_def ask_host_def)

lemma contract_seq:
  assumes m: "contract J P m Q" and f: "\<And>e. contract J (\<lambda>h. True) (f e) R" and k: "\<And>x. contract J (Q x) (k x) R"
  shows "contract J P (attempt m f k) R"
  unfolding contract_def
proof safe
  fix h assume "P h"
  obtain r t where mt: "m h = (r, h @ t)" "justified J h t" "\<And>x. r = Inr x \<Longrightarrow> Q x (h @ t)"
    using contractE [OF m \<open>P h\<close>] by metis
  obtain n where n: "attempt m f k h = n (h @ t)" "contract J (\<lambda>h'. h' = h @ t) n R"
  proof (cases r)
    case (Inl e)
    then have "attempt m f k h = f e (h @ t)" using mt(1) by (simp add: attempt_def)
    moreover have "contract J (\<lambda>h'. h' = h @ t) (f e) R" using f [of e] by (rule contract_weaken) simp_all
    ultimately show ?thesis by (rule that)
  next
    case (Inr x)
    then have "attempt m f k h = k x (h @ t)" using mt(1) by (simp add: attempt_def)
    moreover have "contract J (\<lambda>h'. h' = h @ t) (k x) R" using k [of x] by (rule contract_weaken) (use mt(3) [OF Inr] in simp_all)
    ultimately show ?thesis by (rule that)
  qed
  obtain r' t' where "n (h @ t) = (r', (h @ t) @ t')" "justified J (h @ t) t'" "\<And>x. r' = Inr x \<Longrightarrow> R x ((h @ t) @ t')"
    using contractE [OF n(2) refl] by metis
  then show "\<exists>r t. attempt m f k h = (r, h @ t) \<and> justified J h t \<and> (\<forall>x. r = Inr x \<longrightarrow> R x (h @ t))"
    using n(1) mt(2) by (intro exI [of _ r'] exI [of _ "t @ t'"]) (simp add: justified_append)
qed

lemma contract_frame: "contract J P m Q \<Longrightarrow> lasting F \<Longrightarrow> contract J (\<lambda>h. P h \<and> F h) m (\<lambda>x h. Q x h \<and> F h)"
  unfolding contract_def lasting_def by blast

lemma contract_any: "contract J P m Q \<Longrightarrow> contract J P m (\<lambda>_ _. True)"
  by (erule contract_weaken) simp_all

lemma contract_plain_seq:
  "contract J P m Q \<Longrightarrow> (\<And>x. contract J (Q x) (k x) R) \<Longrightarrow> contract J P (plain m k) R"
  unfolding plain_def by (rule contract_seq) (auto intro: contract_give_up)

lemma contract_follow_seq:
  "contract J P m Q \<Longrightarrow> (\<And>x. contract J (Q x) (k x) R) \<Longrightarrow> contract J P (follow m msg k) R"
  unfolding follow_def by (rule contract_seq) (auto intro: contract_give_up)

text \<open>What holds from some call on is kept while others are made.\<close>

lemma contract_plain:
  assumes "contract J (\<lambda>h. True) m Q" "lasting P" "\<And>x. contract J (\<lambda>h. Q x h \<and> P h) (k x) R"
  shows "contract J P (plain m k) R"
  using contract_plain_seq [OF contract_frame [OF assms(1,2)] assms(3)] by simp

lemma contract_follow:
  assumes "contract J (\<lambda>h. True) m Q" "lasting P" "\<And>x. contract J (\<lambda>h. Q x h \<and> P h) (k x) R"
  shows "contract J P (follow m msg k) R"
  using contract_follow_seq [OF contract_frame [OF assms(1,2)] assms(3)] by simp

lemma contract_loop:
  assumes "\<And>s x. x \<in> set xs \<Longrightarrow> contract J P (f s x) (\<lambda>_ _. True)" and g: "lasting P"
  shows "contract J P (loop f s xs) (\<lambda>_ _. True)"
  using assms(1)
proof (induction xs arbitrary: s)
  case (Cons x xs)
  have rest: "contract J P (loop f s' xs) (\<lambda>_ _. True)" for s' by (rule Cons.IH) (use Cons.prems in auto)
  have "contract J P (f s x) (\<lambda>_. P)"
    using contract_frame [OF Cons.prems [of x s] g] by simp
  then show ?case using rest by (auto intro: contract_plain_seq)
qed (simp add: contract_give)

lemma contract_loop_inv:
  assumes "\<And>done_xs x s. contract J (I s done_xs) (f s x) (\<lambda>s'. I s' (done_xs @ [x]))"
  shows "contract J (I s done_xs) (loop f s xs) (\<lambda>s'. I s' (done_xs @ xs))"
proof (induction xs arbitrary: s done_xs)
  case (Cons x xs)
  show ?case using Cons.IH [of _ "done_xs @ [x]"] by (auto intro: contract_plain_seq [OF assms])
qed (simp add: contract_give)

lemma grows_True [simp]: "lasting (\<lambda>h. True)"
  by (simp add: lasting_def)

lemma grows_conj: "lasting P \<Longrightarrow> lasting Q \<Longrightarrow> lasting (\<lambda>h. P h \<and> Q h)"
  by (simp add: lasting_def)

end
