(* ===== verification/Host_GC.thy ===== *)
theory Host_GC
  imports Host_Backend
begin

text \<open>
  The garbage collection of the images and containers that werf left on the host:
  \<open>src/pkg/host_cleaning/local_backend_cleaner.go\<close>. The volume of the backend is measured; above the allowed usage the
  anonymous volumes and the dangling images are pruned, then the containers are removed, then the images, the
  least recently used first, until the usage is at its target.

  \<open>slices.SortFunc\<close> is not stable, so the sorting of the images is a parameter. The lines that go to the log as a
  list of deleted items are calls of the history, the other log lines are left out.
\<close>

subsection \<open>Volume\<close>

record RunGCOptions =
  AllowedStorageVolumeUsagePercentage :: rat
  AllowedStorageVolumeUsageMarginPercentage :: rat
  StoragePath :: string
  Force :: bool
  DryRun :: bool

definition backendStoragePath :: "host \<Rightarrow> string \<Rightarrow> string host_action" where
  "backendStoragePath w storagePath =
     (let check = (\<lambda>path. follow (ask_host (Call_Stat path) (stat w path)) (''error accessing '' @ path) (\<lambda>_. give path))
      in if storagePath = []
         then follow (ask_host Call_Info (info w)) (''error getting local '' @ backendName w @ '' backend info'') check
         else check storagePath)"

definition ShouldRunAutoGC :: "host \<Rightarrow> rat \<Rightarrow> string \<Rightarrow> bool host_action" where
  "ShouldRunAutoGC w allowed storagePath =
     follow (backendStoragePath w storagePath) (''error getting local '' @ backendName w @ '' backend storage path'')
       (\<lambda>path. follow (GetVolumeUsageByPath w path) (''error getting volume usage by path '' @ path)
          (\<lambda>vu. give (Percentage vu > allowed)))"

subsection \<open>Images of werf\<close>

definition werfImagesByLabels :: "host \<Rightarrow> Summary list host_action" where
  "werfImagesByLabels w =
     follow (list_images_by w [DanglingFalse, label_werf]) (''unable to get werf '' @ backendName w @ '' images'') give"

definition werfImagesByLegacyLabels :: "host \<Rightarrow> Summary list host_action" where
  "werfImagesByLegacyLabels w =
     follow (list_images_by w [DanglingFalse, label_werf, (''label'', ''werf-stage-signature'')])
       (''unable to get werf v1.1 legacy '' @ backendName w @ '' images'') give"

definition service_filters :: filters where
  "service_filters = DanglingFalse # map (Pair ''reference'')
     [''*client-id-*'', ''*managed-image-*'', ''*meta-*'', ''*import-metadata-*'', ''*-rejected'',
      ''werf-client-id/*'', ''werf-managed-images/*'', ''werf-images-metadata-by-commit/*'', ''werf-import-metadata/*'']"

definition werfImagesByLastRun :: "host \<Rightarrow> Summary list host_action" where
  "werfImagesByLastRun w =
     follow (ask_host Call_LastRun (last_run w)) ''error getting v1.1 last run timestamp''
       (\<lambda>t. if t = zero_time
            then follow (list_images_by w service_filters) ''unable to get werf service images''
                   (\<lambda>list. give (filter (\<lambda>img. sSize img = 0) list))
            else give [])"

definition maxLastUsedAtForImage :: "host \<Rightarrow> Summary \<Rightarrow> int host_action" where
  "maxLastUsedAtForImage w img =
     loop (\<lambda>lastUsedAt ref. follow (GetImageLastAccessTime w ref) ''error accessing last recently used images cache''
             (\<lambda>lastRecentlyUsedAt. give (if lastUsedAt < lastRecentlyUsedAt then lastRecentlyUsedAt else lastUsedAt)))
       (sCreated img) (sRepoTags img)"

type_synonym time_map = "(string, int) go_map"

definition note_last_use :: "host \<Rightarrow> time_map \<Rightarrow> Summary \<Rightarrow> time_map host_action" where
  "note_last_use w m img =
     follow (maxLastUsedAtForImage w img) ''unable to max last used at for image'' (\<lambda>t. give (AList.update (sID img) t m))"

definition map_time :: "time_map \<Rightarrow> Summary \<Rightarrow> int" where
  "map_time m img = (case map_of m (sID img) of None \<Rightarrow> zero_time | Some t \<Rightarrow> t)"

type_synonym image_sorter = "(Summary \<Rightarrow> int) \<Rightarrow> Summary list \<Rightarrow> Summary list"

definition image_sorter_ok :: "image_sorter \<Rightarrow> bool" where
  "image_sorter_ok sorter \<longleftrightarrow> (\<forall>f xs. mset (sorter f xs) = mset xs \<and> sorted (map f (sorter f xs)))"

definition werfImages :: "host \<Rightarrow> image_sorter \<Rightarrow> Summary list host_action" where
  "werfImages w sorter =
     plain (werfImagesByLabels w) (\<lambda>images0.
     plain (werfImagesByLegacyLabels w) (\<lambda>images1.
     plain (werfImagesByLastRun w) (\<lambda>images2.
       let images = images0 @ images1 @ images2
       in plain (loop (note_last_use w) [] images) (\<lambda>lastUsedAtMap. give (sorter (map_time lastUsedAtMap) images)))))"

subsection \<open>Removal\<close>

definition isLocked :: "host \<Rightarrow> string \<Rightarrow> bool host_action" where
  "isLocked w lockName =
     plain (ask_host (Call_Acquire lockName) (acquire w lockName))
       (\<lambda>ok. if \<not> ok then give True
            else plain (ask_host (Call_Release lockName) (release w lockName)) (\<lambda>_. give False))"

definition removeImageRef :: "host \<Rightarrow> RunGCOptions \<Rightarrow> string \<Rightarrow> unit host_action" where
  "removeImageRef w opts ref =
     (if DryRun opts then give () else ask_host (Call_Rmi ref (Force opts)) (rmi w ref (Force opts)))"

definition removeContainerRef :: "host \<Rightarrow> RunGCOptions \<Rightarrow> string \<Rightarrow> unit host_action" where
  "removeContainerRef w opts ref =
     (if DryRun opts then give () else ask_host (Call_Rm ref (Force opts)) (rm w ref (Force opts)))"

definition none_tag :: string where "none_tag = ''<none>:<none>''"

text \<open>A failed removal of one reference is counted and logged, and the others are tried all the same.\<close>

definition counted_removal :: "host \<Rightarrow> RunGCOptions \<Rightarrow> nat \<Rightarrow> string \<Rightarrow> nat host_action" where
  "counted_removal w opts unRemovedCount ref =
     attempt (removeImageRef w opts ref) (\<lambda>e. give (unRemovedCount + 1)) (\<lambda>_. give unRemovedCount)"

definition remove_tag :: "host \<Rightarrow> RunGCOptions \<Rightarrow> nat \<Rightarrow> string \<Rightarrow> nat host_action" where
  "remove_tag w opts unRemovedCount ref =
     (if ref = none_tag then counted_removal w opts unRemovedCount ref
      else follow (isLocked w (ImageLockName ref)) (''checking lock '' @ ImageLockName ref)
             (\<lambda>ok. if ok then give (unRemovedCount + 1) else counted_removal w opts unRemovedCount ref))"

definition removeImageByRepoTags :: "host \<Rightarrow> RunGCOptions \<Rightarrow> Summary \<Rightarrow> bool host_action" where
  "removeImageByRepoTags w opts img =
     plain (loop (remove_tag w opts) 0 (sRepoTags img))
       (\<lambda>unRemovedCount. give (unRemovedCount = 0 \<and> length (sRepoTags img) > 0))"

definition removeImageByRepoDigests :: "host \<Rightarrow> RunGCOptions \<Rightarrow> Summary \<Rightarrow> bool host_action" where
  "removeImageByRepoDigests w opts img =
     plain (loop (counted_removal w opts) 0 (sRepoDigests img))
       (\<lambda>unRemovedCount. give (unRemovedCount = 0 \<and> length (sRepoDigests img) > 0))"

definition remove_image :: "host \<Rightarrow> RunGCOptions \<Rightarrow> string list \<Rightarrow> Summary \<Rightarrow> string list host_action" where
  "remove_image w opts deleted img =
     plain (if length (sRepoTags img) > 0 then removeImageByRepoTags w opts img
            else if length (sRepoDigests img) > 0 then removeImageByRepoDigests w opts img
            else give False)
       (\<lambda>ok. give (if ok then deleted @ [sID img] else deleted))"

subsection \<open>How many images to remove\<close>

function free_index :: "Summary list \<Rightarrow> nat \<Rightarrow> 64 word \<Rightarrow> 64 word \<Rightarrow> nat" where
  "free_index list i freedBytes bytesToFree =
     (if i < length list \<and> freedBytes < bytesToFree
      then free_index list (i + 1) (freedBytes + word_of_int (sSize (list ! i))) bytesToFree
      else i)"
  by auto
termination by (relation "measure (\<lambda>(list, i, _). length list - i)") auto

declare free_index.simps [simp del]

definition countImagesToFree :: "Summary list \<Rightarrow> int \<Rightarrow> 64 word \<Rightarrow> int" where
  "countImagesToFree list startIndex bytesToFree =
     (if bytesToFree = 0 \<or> startIndex < 0 \<or> startIndex \<ge> int (length list) then - 1
      else max (int (free_index list (nat startIndex) 0 bytesToFree) - 1) startIndex)"

lemma free_index_bounds: "i \<le> length list \<Longrightarrow> i \<le> free_index list i f b \<and> free_index list i f b \<le> length list"
proof (induction list i f b rule: free_index.induct)
  case (1 list i f b)
  show ?case
  proof (cases "i < length list \<and> f < b")
    case True
    with "1.IH" [OF True] show ?thesis by (subst (1 2) free_index.simps) simp
  next
    case False
    with 1(2) show ?thesis by (subst (1 2) free_index.simps) auto
  qed
qed

lemma countImagesToFree_range:
  assumes "countImagesToFree list s b \<noteq> - 1"
  shows "0 \<le> s \<and> s \<le> countImagesToFree list s b \<and> countImagesToFree list s b < int (length list)"
proof -
  have s: "0 \<le> s" "s < int (length list)" and eq: "countImagesToFree list s b = max (int (free_index list (nat s) 0 b) - 1) s"
    using assms by (auto simp: countImagesToFree_def split: if_split_asm)
  then have "free_index list (nat s) 0 b \<le> length list" using free_index_bounds [of "nat s" list 0 b] by simp
  with s eq show ?thesis by simp
qed

text \<open>The loop over the images: \<open>i\<close> is the next image, \<open>vu\<close> the usage measured last.\<close>

record gc_round =
  next_image :: nat
  usage :: VolumeUsage
  gc_report :: cleanupReport

function image_rounds :: "host \<Rightarrow> RunGCOptions \<Rightarrow> rat \<Rightarrow> Summary list \<Rightarrow> nat \<Rightarrow> VolumeUsage \<Rightarrow> cleanupReport \<Rightarrow>
    gc_round host_action" where
  "image_rounds w opts tVu images i vu report h =
     (let n = countImagesToFree images (int i) (BytesToFree vu tVu)
      in if n = - 1 then (Inr \<lparr>next_image = i, usage = vu, gc_report = report\<rparr>, h)
         else case loop (remove_image w opts) (ItemsDeleted report) (drop i (take (nat n + 1) images)) h of
             (Inl e, h') \<Rightarrow> (Inl e, h')
           | (Inr deleted, h') \<Rightarrow>
               (case GetVolumeUsageByPath w (StoragePath opts) h' of
                  (Inl e, h'') \<Rightarrow> (Inl (errorf (''error getting volume usage by path '' @ StoragePath opts) e), h'')
                | (Inr vuAfter, h'') \<Rightarrow>
                    image_rounds w opts tVu images (nat n + 1) vuAfter
                      \<lparr>ItemsDeleted = deleted,
                       SpaceReclaimed = SpaceReclaimed report + (UsedBytes vu - UsedBytes vuAfter)\<rparr> h''))"
  by pat_completeness auto
termination
proof (relation "measure (\<lambda>(_, _, _, images, i, _). length images - i)", goal_cases)
  case (2 w opts tVu images i vu report h n)
  then show ?case using countImagesToFree_range [of images "int i" "BytesToFree vu tVu"] by auto
qed simp

declare image_rounds.simps [simp del]

definition cleanupWerfImages :: "host \<Rightarrow> image_sorter \<Rightarrow> RunGCOptions \<Rightarrow> VolumeUsage \<Rightarrow> rat \<Rightarrow> cleanupReport host_action" where
  "cleanupWerfImages w sorter opts vu targetVolumeUsagePercentage =
     plain (werfImages w sorter) (\<lambda>images.
     plain (image_rounds w opts targetVolumeUsagePercentage images 0 vu no_report) (\<lambda>end_round.
       give (Normalize (gc_report end_round))))"

subsection \<open>Containers\<close>

text \<open>Whatever the error of a removal is, the container is only left out of the report.\<close>

definition remove_container :: "host \<Rightarrow> RunGCOptions \<Rightarrow> string list \<Rightarrow> Container \<Rightarrow> string list host_action" where
  "remove_container w opts deleted c =
     (let containerName = werfContainerName c
      in if containerName = [] then give deleted
         else follow (isLocked w (ContainerLockName containerName)) (''checking lock '' @ ContainerLockName containerName)
                (\<lambda>ok. if ok then give deleted
                      else attempt (removeContainerRef w opts (cID c)) (\<lambda>e. give deleted) (\<lambda>_. give (deleted @ [cID c]))))"

definition cleanupWerfContainers :: "host \<Rightarrow> RunGCOptions \<Rightarrow> VolumeUsage \<Rightarrow> cleanupReport host_action" where
  "cleanupWerfContainers w opts vu =
     follow (werfContainersByContainersOptions w []) ''cannot get build containers'' (\<lambda>containers.
     plain (loop (remove_container w opts) [] containers) (\<lambda>deleted.
       if length containers > 0
       then follow (GetVolumeUsageByPath w (StoragePath opts)) (''error getting volume usage by path '' @ StoragePath opts)
              (\<lambda>vuAfter. give (Normalize \<lparr>ItemsDeleted = deleted, SpaceReclaimed = UsedBytes vu - UsedBytes vuAfter\<rparr>))
       else give (Normalize \<lparr>ItemsDeleted = deleted, SpaceReclaimed = 0\<rparr>)))"

subsection \<open>Pruning\<close>

definition prune_filters :: filters where
  "prune_filters = [DanglingTrue, label_werf, (''until'', ''15m'')]"

definition pruneImages :: "host \<Rightarrow> RunGCOptions \<Rightarrow> cleanupReport host_action" where
  "pruneImages w opts =
     (if DryRun opts then plain (list_images_by w prune_filters) (\<lambda>list. give (mapImageListToCleanupReport list))
      else attempt (ask_host (Call_PruneImages prune_filters) (prune_images w prune_filters))
             (\<lambda>e. if errors_Is e ErrImageUsedByContainer \<or> errors_Is e ErrPruneIsAlreadyRunning then give no_report
                  else give_up e)
             give)"

definition pruneVolumes :: "host \<Rightarrow> RunGCOptions \<Rightarrow> cleanupReport host_action" where
  "pruneVolumes w opts =
     (if DryRun opts then give_up (Failed (Some errOptionDryRunNotSupported) ''option dry-run not supported'')
      else attempt (ask_host Call_PruneVolumes (prune_volumes w))
             (\<lambda>e. if errors_Is e ErrPruneIsAlreadyRunning then give no_report else give_up e)
             give)"

definition handleError :: "host_error \<Rightarrow> host_error option" where
  "handleError e =
     (if errors_Is e ErrUnsupportedFeature then None
      else if errors_Is e errOptionDryRunNotSupported then None
      else Some e)"

text \<open>A step of the collection: an error it can live with gives an empty report.\<close>

definition prune_step :: "cleanupReport host_action \<Rightarrow> VolumeUsage \<Rightarrow> VolumeUsage host_action" where
  "prune_step m vu =
     (let go_on = (\<lambda>report. plain (log_lines (ItemsDeleted report))
            (\<lambda>_. give (vu\<lparr>UsedBytes := UsedBytes vu - SpaceReclaimed report\<rparr>)))
      in attempt m (\<lambda>e. if handleError e \<noteq> None then give_up e else go_on no_report) go_on)"

definition cleanup_step :: "cleanupReport host_action \<Rightarrow> VolumeUsage \<Rightarrow> VolumeUsage host_action" where
  "cleanup_step m vu =
     plain m (\<lambda>report. plain (log_lines (ItemsDeleted report))
       (\<lambda>_. give (vu\<lparr>UsedBytes := UsedBytes vu - SpaceReclaimed report\<rparr>)))"

subsection \<open>The collection\<close>

definition target_usage :: "RunGCOptions \<Rightarrow> rat" where
  "target_usage opts = max (AllowedStorageVolumeUsagePercentage opts - AllowedStorageVolumeUsageMarginPercentage opts) 0"

definition gc_steps :: "host \<Rightarrow> image_sorter \<Rightarrow> RunGCOptions \<Rightarrow> VolumeUsage \<Rightarrow> unit host_action" where
  "gc_steps w sorter opts vu =
     follow (prune_step (pruneVolumes w opts) vu) ''unable to prune unused anonymous volumes'' (\<lambda>vu.
     follow (prune_step (pruneImages w opts) vu) ''unable to prune werf dangling images'' (\<lambda>vu.
       if Percentage vu \<le> AllowedStorageVolumeUsagePercentage opts then give ()
       else
         follow (cleanup_step (cleanupWerfContainers w opts vu) vu) ''unable to remove werf containers'' (\<lambda>vu.
         follow (cleanup_step (cleanupWerfImages w sorter opts vu (target_usage opts)) vu) ''unable to cleanup werf images''
           (\<lambda>vu. give ()))))"

definition RunGC :: "host \<Rightarrow> image_sorter \<Rightarrow> RunGCOptions \<Rightarrow> unit host_action" where
  "RunGC w sorter opts =
     follow (backendStoragePath w (StoragePath opts)) (''error getting local '' @ backendName w @ '' backend storage path'')
       (\<lambda>path. let opts = opts\<lparr>StoragePath := path\<rparr>
          in follow (GetVolumeUsageByPath w path) (''error getting volume usage by path '' @ path)
               (\<lambda>vu. if Percentage vu \<le> AllowedStorageVolumeUsagePercentage opts then give ()
                     else gc_steps w sorter opts vu))"

end
