(* ===== verification/Host_GC_Safety.thy ===== *)
theory Host_GC_Safety
  imports Host_GC
begin

text \<open>
  What the garbage collection of the host (\<open>src/pkg/host_cleaning/local_backend_cleaner.go\<close>) removes: only images
  and containers that the backend listed as those of werf, not while another process holds their lock, nothing in a dry
  run, nothing below the allowed usage.
\<close>

subsection \<open>What a call must be justified by\<close>

definition listed_image :: "host \<Rightarrow> filters \<Rightarrow> Summary \<Rightarrow> host_calls \<Rightarrow> bool" where
  "listed_image w fs img h \<longleftrightarrow>
     (\<exists>pre post list. h = pre @ Call_Images fs # post \<and> list_images w fs pre = Inr list \<and> img \<in> set list)"

definition no_v1_1_run :: "host \<Rightarrow> host_calls \<Rightarrow> bool" where
  "no_v1_1_run w h \<longleftrightarrow> (\<exists>pre post. h = pre @ Call_LastRun # post \<and> last_run w pre = Inr zero_time)"

definition legacy_filters :: filters where
  "legacy_filters = [DanglingFalse, label_werf, (''label'', ''werf-stage-signature'')]"

definition werf_image :: "host \<Rightarrow> Summary \<Rightarrow> host_calls \<Rightarrow> bool" where
  "werf_image w img h \<longleftrightarrow>
     listed_image w [DanglingFalse, label_werf] img h \<or> listed_image w legacy_filters img h \<or>
     listed_image w service_filters img h \<and> sSize img = 0 \<and> no_v1_1_run w h"

definition werf_container :: "host \<Rightarrow> Container \<Rightarrow> host_calls \<Rightarrow> bool" where
  "werf_container w c h \<longleftrightarrow>
     (\<exists>fs pre post list. fs = [name_filter ''werf.build.'', name_filter ''import-server-''] \<and>
        h = pre @ Call_Containers fs # post \<and> list_containers w fs pre = Inr list \<and> c \<in> set list) \<and>
     werfContainerName c \<noteq> []"

definition unlocked :: "host \<Rightarrow> string \<Rightarrow> host_calls \<Rightarrow> bool" where
  "unlocked w name h \<longleftrightarrow> (\<exists>pre. h = pre @ [Call_Acquire name, Call_Release name] \<and> acquire w name pre = Inr True)"

fun gc_call :: "host \<Rightarrow> RunGCOptions \<Rightarrow> host_calls \<Rightarrow> host_call \<Rightarrow> bool" where
  "gc_call w opts h (Call_Rmi ref force) \<longleftrightarrow> \<not> DryRun opts \<and> force = Force opts \<and>
     (\<exists>img. werf_image w img h \<and>
        (if sRepoTags img = [] then ref \<in> set (sRepoDigests img)
         else ref \<in> set (sRepoTags img) \<and> (ref = none_tag \<or> unlocked w (ImageLockName ref) h)))"
| "gc_call w opts h (Call_Rm i force) \<longleftrightarrow> \<not> DryRun opts \<and> force = Force opts \<and>
     (\<exists>c. werf_container w c h \<and> cID c = i \<and> unlocked w (ContainerLockName (werfContainerName c)) h)"
| "gc_call w opts h (Call_PruneImages fs) \<longleftrightarrow> \<not> DryRun opts \<and> fs = [DanglingTrue, label_werf, (''until'', ''15m'')]"
| "gc_call w opts h Call_PruneVolumes \<longleftrightarrow> \<not> DryRun opts"
| "gc_call w opts h (Call_RemoveHostDirs d ds) \<longleftrightarrow> False"
| "gc_call w opts h (Call_RemoveAll d) \<longleftrightarrow> False"
| "gc_call w opts h Call_StapelPurge \<longleftrightarrow> False"
| "gc_call w opts h (Call_TmpPurge d) \<longleftrightarrow> False"
| "gc_call w opts h c \<longleftrightarrow> True"

lemma gc_call_path [simp]: "gc_call w (opts\<lparr>StoragePath := p\<rparr>) = gc_call w opts"
proof (intro ext)
  fix h c show "gc_call w (opts\<lparr>StoragePath := p\<rparr>) h c = gc_call w opts h c" by (cases c) simp_all
qed

lemma grows_listed: "lasting (listed_image w fs img)"
  by (fastforce simp: lasting_def listed_image_def)

lemma grows_no_v1_1_run: "lasting (no_v1_1_run w)"
  by (fastforce simp: lasting_def no_v1_1_run_def)

lemma grows_werf_image: "lasting (werf_image w img)"
  using grows_listed grows_no_v1_1_run unfolding lasting_def werf_image_def by blast

lemma grows_werf_images: "lasting (\<lambda>h. \<forall>img \<in> set imgs. werf_image w img h)"
  using grows_werf_image unfolding lasting_def by blast

lemma grows_werf_container: "lasting (werf_container w c)"
  by (fastforce simp: lasting_def werf_container_def)

lemma listed_now: "list_images w fs h = Inr list \<Longrightarrow> img \<in> set list \<Longrightarrow> listed_image w fs img (h @ [Call_Images fs])"
  by (auto simp: listed_image_def)

subsection \<open>Listing the images\<close>

abbreviation quiet :: "host \<Rightarrow> RunGCOptions \<Rightarrow> 'a host_action \<Rightarrow> bool" where
  "quiet w opts m \<equiv> contract (gc_call w opts) (\<lambda>h. True) m (\<lambda>_ _. True)"

lemma contract_list_images:
  "contract (gc_call w opts) (\<lambda>h. True) (list_images_by w fs) (\<lambda>list h. \<forall>img \<in> set list. listed_image w fs img h)"
  unfolding list_images_by_def by (rule contract_ask) (auto intro: listed_now)

lemma contract_by_labels:
  "contract (gc_call w opts) (\<lambda>h. True) (werfImagesByLabels w) (\<lambda>imgs h. \<forall>img \<in> set imgs. werf_image w img h)"
  unfolding werfImagesByLabels_def
  by (rule contract_follow_seq [OF contract_list_images contract_give]) (simp add: werf_image_def)

lemma contract_by_legacy_labels:
  "contract (gc_call w opts) (\<lambda>h. True) (werfImagesByLegacyLabels w) (\<lambda>imgs h. \<forall>img \<in> set imgs. werf_image w img h)"
  unfolding werfImagesByLegacyLabels_def
  by (rule contract_follow_seq [OF contract_list_images contract_give]) (simp add: werf_image_def legacy_filters_def)

lemma contract_by_last_run:
  "contract (gc_call w opts) (\<lambda>h. True) (werfImagesByLastRun w) (\<lambda>imgs h. \<forall>img \<in> set imgs. werf_image w img h)"
  (is "contract _ _ _ ?Q")
proof -
  have run: "contract (gc_call w opts) (\<lambda>h. True) (ask_host Call_LastRun (last_run w)) (\<lambda>t h. t = zero_time \<longrightarrow> no_v1_1_run w h)"
    by (rule contract_ask) (auto simp: no_v1_1_run_def)
  have "contract (gc_call w opts) (no_v1_1_run w)
      (follow (list_images_by w service_filters) ''unable to get werf service images'' (\<lambda>list. give (filter (\<lambda>img. sSize img = 0) list))) ?Q"
    by (rule contract_follow [OF contract_list_images grows_no_v1_1_run contract_give]) (auto simp: werf_image_def)
  then show ?thesis
    unfolding werfImagesByLastRun_def
    by (intro contract_follow_seq [OF run]) (auto intro: contract_give elim!: contract_weaken)
qed

lemma quiet_last_access: "quiet w opts (GetImageLastAccessTime w ref)"
  unfolding GetImageLastAccessTime_def
  by (rule contract_plain_seq [OF contract_ask [where Q = "\<lambda>_ _. True"]]) (auto intro: contract_give split: option.split)

lemma quiet_max_last_used: "quiet w opts (maxLastUsedAtForImage w img)"
  unfolding maxLastUsedAtForImage_def
  by (rule contract_loop) (auto intro!: contract_follow_seq [OF quiet_last_access] contract_give)

lemma quiet_note_last_use: "quiet w opts (note_last_use w m img)"
  unfolding note_last_use_def by (rule contract_follow_seq [OF quiet_max_last_used contract_give]) simp

lemma quiet_note_all: "quiet w opts (loop (note_last_use w) m imgs)"
  by (rule contract_loop [OF quiet_note_last_use]) simp

lemma contract_werfImages:
  assumes "image_sorter_ok sorter"
  shows "contract (gc_call w opts) (\<lambda>h. True) (werfImages w sorter) (\<lambda>imgs h. \<forall>img \<in> set imgs. werf_image w img h)"
proof -
  have sorted: "set (sorter f xs) = set xs" for f xs
    using assms unfolding image_sorter_ok_def by (metis set_mset_mset)
  show ?thesis
    unfolding werfImages_def Let_def
    by (rule contract_plain_seq [OF contract_by_labels]
          contract_plain [OF contract_by_legacy_labels grows_werf_images]
          contract_plain [OF contract_by_last_run grows_conj [OF grows_werf_images grows_werf_images]]
          contract_plain [OF quiet_note_all grows_conj [OF grows_werf_images grows_conj [OF grows_werf_images grows_werf_images]]]
          contract_give)+ (auto simp: sorted)
qed


subsection \<open>Removing images\<close>

lemma contract_isLocked:
  "contract (gc_call w opts) (\<lambda>h. True) (isLocked w name) (\<lambda>b h. \<not> b \<longrightarrow> unlocked w name h)"
proof -
  let ?held = "\<lambda>h. \<exists>pre. h = pre @ [Call_Acquire name] \<and> acquire w name pre = Inr True"
  have "contract (gc_call w opts) (\<lambda>h. True) (ask_host (Call_Acquire name) (acquire w name)) (\<lambda>ok h. ok \<longrightarrow> ?held h)"
    by (rule contract_ask) auto
  moreover have "contract (gc_call w opts) ?held (ask_host (Call_Release name) (release w name)) (\<lambda>_ h. unlocked w name h)"
    by (rule contract_ask) (auto simp: unlocked_def)
  then have "contract (gc_call w opts) ?held
      (plain (ask_host (Call_Release name) (release w name)) (\<lambda>_. give False)) (\<lambda>b h. \<not> b \<longrightarrow> unlocked w name h)"
    by (rule contract_plain_seq) (auto intro: contract_give)
  ultimately show ?thesis
    unfolding isLocked_def by (intro contract_plain_seq) (auto intro: contract_give elim!: contract_weaken)
qed

lemma contract_counted_removal:
  "contract (gc_call w opts) (\<lambda>h. \<not> DryRun opts \<longrightarrow> gc_call w opts h (Call_Rmi ref (Force opts)))
     (counted_removal w opts n ref) (\<lambda>_ _. True)"
  unfolding counted_removal_def removeImageRef_def
  by (rule contract_seq [where Q = "\<lambda>_ _. True"]) (auto simp del: gc_call.simps intro!: contract_give contract_ask)

lemma contract_remove_tag:
  assumes "ref \<in> set (sRepoTags img)"
  shows "contract (gc_call w opts) (werf_image w img) (remove_tag w opts n ref) (\<lambda>_ _. True)"
proof -
  have just: "contract (gc_call w opts) (\<lambda>h. (ref = none_tag \<or> unlocked w (ImageLockName ref) h) \<and> werf_image w img h)
      (counted_removal w opts n ref) (\<lambda>_ _. True)"
    using assms by (intro contract_weaken [OF contract_counted_removal]) (force split: if_split)+
  show ?thesis
  proof (cases "ref = none_tag")
    case True
    show ?thesis unfolding remove_tag_def using True just by (auto elim!: contract_weaken)
  next
    case False
    show ?thesis unfolding remove_tag_def using False just
      by (auto intro!: contract_follow [OF contract_isLocked grows_werf_image] contract_give elim!: contract_weaken)
  qed
qed

lemma contract_by_tags:
  "contract (gc_call w opts) (werf_image w img) (removeImageByRepoTags w opts img) (\<lambda>_ _. True)"
  unfolding removeImageByRepoTags_def
  by (rule contract_plain_seq [OF contract_loop [OF contract_remove_tag grows_werf_image] contract_give]) auto

lemma contract_by_digests:
  assumes "sRepoTags img = []"
  shows "contract (gc_call w opts) (werf_image w img) (removeImageByRepoDigests w opts img) (\<lambda>_ _. True)"
proof -
  have "contract (gc_call w opts) (werf_image w img) (counted_removal w opts n ref) (\<lambda>_ _. True)"
    if "ref \<in> set (sRepoDigests img)" for n ref
    using that assms by (intro contract_weaken [OF contract_counted_removal]) (simp_all, metis)
  then have "contract (gc_call w opts) (werf_image w img) (loop (counted_removal w opts) 0 (sRepoDigests img)) (\<lambda>_ _. True)"
    by (rule contract_loop [OF _ grows_werf_image])
  then show ?thesis
    unfolding removeImageByRepoDigests_def by (rule contract_plain_seq) (auto intro: contract_give)
qed

lemma contract_remove_image:
  "contract (gc_call w opts) (werf_image w img) (remove_image w opts deleted img) (\<lambda>_ _. True)"
  unfolding remove_image_def
  by (rule contract_plain_seq [where Q = "\<lambda>_ _. True"])
    (auto intro: contract_give contract_by_tags contract_by_digests)

lemma quiet_usage: "quiet w opts (GetVolumeUsageByPath w path)"
  unfolding GetVolumeUsageByPath_def
  by (rule contract_follow_seq [where Q = "\<lambda>_ _. True"]) (auto intro!: contract_ask contract_give)

lemma image_rounds_plain:
  "image_rounds w opts tVu images i vu report =
     (let n = countImagesToFree images (int i) (BytesToFree vu tVu)
      in if n = - 1 then give \<lparr>next_image = i, usage = vu, gc_report = report\<rparr>
         else plain (loop (remove_image w opts) (ItemsDeleted report) (drop i (take (nat n + 1) images))) (\<lambda>deleted.
              follow (GetVolumeUsageByPath w (StoragePath opts)) (''error getting volume usage by path '' @ StoragePath opts)
                (\<lambda>vuAfter. image_rounds w opts tVu images (nat n + 1) vuAfter
                      \<lparr>ItemsDeleted = deleted,
                       SpaceReclaimed = SpaceReclaimed report + (UsedBytes vu - UsedBytes vuAfter)\<rparr>)))"
  by (rule ext, subst image_rounds.simps) (simp add: Let_def give_def plain_def follow_def attempt_def give_up_def split: sum.split prod.split)

lemma contract_image_rounds:
  "contract (gc_call w opts) (\<lambda>h. \<forall>img \<in> set images. werf_image w img h) (image_rounds w opts tVu images i vu report) (\<lambda>_ _. True)"
proof (induction "length images - i" arbitrary: i vu report rule: less_induct)
  case less
  let ?n = "countImagesToFree images (int i) (BytesToFree vu tVu)"
  let ?P = "\<lambda>h. \<forall>img \<in> set images. werf_image w img h"
  show ?case
  proof (cases "?n = - 1")
    case True
    then show ?thesis by (subst image_rounds_plain) (simp add: contract_give)
  next
    case False
    from countImagesToFree_range [OF this] have n: "i \<le> nat ?n" "nat ?n < length images" by auto
    have rec: "contract (gc_call w opts) ?P (image_rounds w opts tVu images (nat ?n + 1) vu' report') (\<lambda>_ _. True)" for vu' report'
      by (rule less) (use n in auto)
    have "contract (gc_call w opts) ?P (remove_image w opts d img) (\<lambda>_ _. True)" if "img \<in> set (drop i (take (nat ?n + 1) images))" for d img
      by (rule contract_weaken [OF contract_remove_image]) (use that in \<open>auto dest!: in_set_dropD in_set_takeD\<close>)
    then have "contract (gc_call w opts) ?P (loop (remove_image w opts) d (drop i (take (nat ?n + 1) images))) (\<lambda>_ _. True)" for d
      by (rule contract_loop [OF _ grows_werf_images])
    from contract_frame [OF this grows_werf_images [of images w]]
    have del: "contract (gc_call w opts) ?P (loop (remove_image w opts) d (drop i (take (nat ?n + 1) images))) (\<lambda>_. ?P)" for d
      by simp
    show ?thesis
      by (subst image_rounds_plain)
        (simp only: Let_def False if_False, rule contract_plain_seq [OF del], rule contract_follow [OF quiet_usage grows_werf_images],
          rule contract_weaken [OF rec], simp_all)
  qed
qed


subsection \<open>The whole collection\<close>

lemma contract_cleanup_images:
  assumes "image_sorter_ok sorter"
  shows "quiet w opts (cleanupWerfImages w sorter opts vu target)"
  unfolding cleanupWerfImages_def
  by (rule contract_plain_seq [OF contract_werfImages [OF assms]], rule contract_plain_seq [OF contract_image_rounds], rule contract_give) simp

lemma contract_remove_container:
  "contract (gc_call w opts) (\<lambda>h. werfContainerName c \<noteq> [] \<longrightarrow> werf_container w c h) (remove_container w opts deleted c) (\<lambda>_ _. True)"
proof (cases "werfContainerName c = []")
  case True
  then show ?thesis by (simp add: remove_container_def contract_give)
next
  case False
  let ?name = "ContainerLockName (werfContainerName c)"
  have "contract (gc_call w opts) (\<lambda>h. unlocked w ?name h \<and> werf_container w c h)
      (attempt (removeContainerRef w opts (cID c)) (\<lambda>e. give deleted) (\<lambda>_. give (deleted @ [cID c]))) (\<lambda>_ _. True)"
    unfolding removeContainerRef_def
    by (rule contract_seq [where Q = "\<lambda>_ _. True"]) (auto intro!: contract_give contract_ask)
  with False show ?thesis
    unfolding remove_container_def Let_def
    by (auto intro!: contract_follow [OF contract_isLocked] contract_give grows_werf_container elim!: contract_weaken)
qed

lemma contract_list_containers:
  "contract (gc_call w opts) (\<lambda>h. True) (werfContainersByContainersOptions w [])
     (\<lambda>cs h. \<forall>c \<in> set cs. werfContainerName c \<noteq> [] \<longrightarrow> werf_container w c h)"
  unfolding werfContainersByContainersOptions_def Let_def
  by (rule contract_ask) (auto simp: werf_container_def)

lemma contract_cleanup_containers: "quiet w opts (cleanupWerfContainers w opts vu)"
proof -
  have g: "lasting (\<lambda>h. \<forall>c \<in> set cs. werfContainerName c \<noteq> [] \<longrightarrow> werf_container w c h)" for cs
    using grows_werf_container unfolding lasting_def by blast
  have "contract (gc_call w opts) (\<lambda>h. \<forall>c \<in> set cs. werfContainerName c \<noteq> [] \<longrightarrow> werf_container w c h)
      (loop (remove_container w opts) [] cs) (\<lambda>_ _. True)" for cs
    by (rule contract_loop [OF _ g]) (rule contract_weaken [OF contract_remove_container], auto)
  moreover have "quiet w opts (follow (GetVolumeUsageByPath w p) m (\<lambda>vuAfter. give (k vuAfter)))" for p m and k :: "_ \<Rightarrow> cleanupReport"
    by (rule contract_follow_seq [OF quiet_usage contract_give]) simp
  ultimately show ?thesis
    unfolding cleanupWerfContainers_def
    by (intro contract_follow_seq [OF contract_list_containers] contract_plain_seq) (auto intro: contract_give)
qed

lemma quiet_path: "quiet w opts (backendStoragePath w p)"
proof -
  have "quiet w opts (follow (ask_host (Call_Stat q) (stat w q)) m (\<lambda>_. give q))" for q m
    by (rule contract_follow_seq [where Q = "\<lambda>_ _. True"]) (auto intro!: contract_ask contract_give)
  then show ?thesis
    unfolding backendStoragePath_def Let_def
    by (auto intro!: contract_follow_seq [where Q = "\<lambda>_ _. True"] contract_ask contract_give)
qed

lemma quiet_log: "quiet w opts (log_lines ls)"
  unfolding log_lines_def by (rule contract_ask) auto

lemma quiet_logged: "quiet w opts (plain (log_lines ls) (\<lambda>_. give x))"
  by (rule contract_plain_seq [OF quiet_log contract_give]) simp

lemma quiet_prune_step: "quiet w opts m \<Longrightarrow> quiet w opts (prune_step m vu)"
  unfolding prune_step_def Let_def by (rule contract_seq) (auto intro: contract_give_up quiet_logged)

lemma quiet_cleanup_step: "quiet w opts m \<Longrightarrow> quiet w opts (cleanup_step m vu)"
  unfolding cleanup_step_def by (rule contract_plain_seq) (auto intro: quiet_logged)

lemma quiet_prune_volumes: "quiet w opts (pruneVolumes w opts)"
  unfolding pruneVolumes_def
  by (auto intro!: contract_give_up contract_seq [where Q = "\<lambda>_ _. True"] contract_ask contract_give)

lemma quiet_prune_images: "quiet w opts (pruneImages w opts)"
proof -
  have "quiet w opts (plain (list_images_by w prune_filters) (\<lambda>list. give (mapImageListToCleanupReport list)))"
    by (rule contract_plain_seq [OF contract_list_images contract_give]) simp
  then show ?thesis
    unfolding pruneImages_def
    by (auto simp: prune_filters_def intro!: contract_give_up contract_seq [where Q = "\<lambda>_ _. True"] contract_ask contract_give)
qed

lemma quiet_gc_steps: "image_sorter_ok sorter \<Longrightarrow> quiet w opts (gc_steps w sorter opts vu)"
  unfolding gc_steps_def
  by (rule contract_follow_seq [OF quiet_prune_step [OF quiet_prune_volumes]],
      rule contract_follow_seq [OF quiet_prune_step [OF quiet_prune_images]],
      auto intro!: contract_give contract_follow_seq [OF quiet_cleanup_step [OF contract_cleanup_containers]]
        contract_follow_seq [OF quiet_cleanup_step [OF contract_cleanup_images]])

lemma quiet_RunGC: "image_sorter_ok sorter \<Longrightarrow> quiet w opts (RunGC w sorter opts)"
  unfolding RunGC_def Let_def
  using quiet_gc_steps [of sorter w "opts\<lparr>StoragePath := p\<rparr>" for p]
  by (intro contract_follow_seq [OF quiet_path] contract_follow_seq [OF quiet_usage]) (auto intro: contract_give)

text \<open>C16: whatever the backend, the disk and the other processes of the host do, the garbage collection only removes
  images that the backend listed as tagged images of werf (or, on a host without a run of werf v1.1, as empty service
  images), each by a tag whose lock it had just taken and released (or by a digest, when it has no tag), and containers that it listed by the names of
  werf's containers and whose lock it had just taken and released; it prunes only dangling images of werf older than 15
  minutes and the anonymous volumes; it forces a removal only if told so, touches no directory of the
  host, and in a dry run it removes nothing at all. This holds at whatever point it fails.\<close>

theorem RunGC_removes_only:
  assumes "image_sorter_ok sorter" "RunGC w sorter opts h = (r, h')"
  shows "\<exists>t. h' = h @ t \<and> justified (gc_call w opts) h t"
  using contractE [OF quiet_RunGC [OF assms(1), of w opts], where h = h] assms(2) by (metis Pair_inject)

end
