(* ===== verification/Host_GC_Exact.thy ===== *)
theory Host_GC_Exact
  imports Host_GC_Safety "HOL-Library.Sublist"
begin

text \<open>
  How much the garbage collection of the host (\<open>src/pkg/host_cleaning/local_backend_cleaner.go\<close>) removes: how many images one
  round takes, in which order the images go, when the rounds stop, and what the report of the deleted images means.
\<close>

subsection \<open>Bytes to free\<close>

lemma bytes_nonneg [simp]: "0 \<le> bytes w"
  unfolding bytes_def by (rule of_nat_0_le_iff)

lemma bytes_zero [simp]: "bytes w = 0 \<longleftrightarrow> w = 0"
  unfolding bytes_def of_nat_eq_0_iff by (rule unsigned_eq_0_iff)

lemma bytes_pos [simp]: "0 < bytes w \<longleftrightarrow> w \<noteq> 0"
  using bytes_nonneg [of w] bytes_zero [of w] by linarith

lemma bytes_less: "bytes w < 2 ^ 64"
proof -
  have "unat w < 2 ^ 64" using unsigned_less [of w, where ?'a = nat] by simp
  then have "(of_nat (unat w) :: rat) < of_nat (2 ^ 64)" by (simp only: of_nat_less_iff)
  then show ?thesis by (simp only: bytes_def of_nat_power of_nat_numeral)
qed

lemma BytesToFree_exact:
  assumes "TotalBytes vu \<noteq> 0" "0 \<le> target"
  shows "uint (BytesToFree vu target) = max 0 \<lfloor>bytes (UsedBytes vu) - bytes (TotalBytes vu) * target / 100\<rfloor>"
proof -
  let ?u = "bytes (UsedBytes vu)" and ?t = "bytes (TotalBytes vu)"
  have t: "0 < ?t" using assms(1) by simp
  have fm: "\<lfloor>max x (0::rat)\<rfloor> = max \<lfloor>x\<rfloor> 0" for x
    by (cases "x \<le> 0") (simp_all add: max_absorb1 max_absorb2)
  have "?t / 100 * max (Percentage vu - target) 0 = max (?u - ?t * target / 100) 0"
    using t by (auto simp: Percentage_def max_def field_simps)
  then have eq: "BytesToFree vu target = word_of_int (max \<lfloor>?u - ?t * target / 100\<rfloor> 0)"
    by (simp only: BytesToFree_def fm)
  have "?u - ?t * target / 100 < 2 ^ 64" using bytes_less [of "UsedBytes vu"] t assms(2) by (smt (verit, best) divide_nonneg_pos mult_nonneg_nonneg less_eq_rat_def diff_le_eq le_add_same_cancel1 order_le_less_trans zero_less_numeral)
  then have "\<lfloor>?u - ?t * target / 100\<rfloor> < 2 ^ 64" by (simp add: floor_less_iff)
  then show ?thesis by (simp add: eq uint_word_of_int max.commute)
qed

text \<open>The usage is at its target up to one byte.\<close>

definition at_target :: "VolumeUsage \<Rightarrow> rat \<Rightarrow> bool" where
  "at_target vu target \<longleftrightarrow> bytes (UsedBytes vu) < bytes (TotalBytes vu) * target / 100 + 1"

lemma BytesToFree_zero:
  assumes "TotalBytes vu \<noteq> 0" "0 \<le> target"
  shows "BytesToFree vu target = 0 \<longleftrightarrow> at_target vu target"
proof -
  have "BytesToFree vu target = 0 \<longleftrightarrow> uint (BytesToFree vu target) = 0" by (simp add: uint_0_iff)
  also have "\<dots> \<longleftrightarrow> \<lfloor>bytes (UsedBytes vu) - bytes (TotalBytes vu) * target / 100\<rfloor> < 1"
    by (simp only: BytesToFree_exact [OF assms]) linarith
  also have "\<dots> \<longleftrightarrow> at_target vu target" by (simp add: floor_less_iff at_target_def algebra_simps)
  finally show ?thesis .
qed

subsection \<open>How many images\<close>

definition size_of :: "Summary \<Rightarrow> nat" where
  "size_of img = unat (word_of_int (sSize img) :: 64 word)"

definition size_sum :: "Summary list \<Rightarrow> nat \<Rightarrow> nat \<Rightarrow> nat" where
  "size_sum list i j = sum_list (map size_of (drop i (take j list)))"

lemma size_sum_empty [simp]: "size_sum list i i = 0"
  by (simp add: size_sum_def)

lemma size_sum_head: "i < j \<Longrightarrow> j \<le> length list \<Longrightarrow> size_sum list i j = size_of (list ! i) + size_sum list (i + 1) j"
  by (simp add: size_sum_def Cons_nth_drop_Suc [symmetric])

lemma free_index_least:
  assumes "i \<le> length list" "unat f + size_sum list i (length list) < 2 ^ 64"
  shows "(\<forall>k. i \<le> k \<longrightarrow> k < free_index list i f b \<longrightarrow> unat f + size_sum list i k < unat b) \<and>
    (free_index list i f b = length list \<or> unat b \<le> unat f + size_sum list i (free_index list i f b))"
  using assms
proof (induction list i f b rule: free_index.induct)
  case (1 list i f b)
  show ?case
  proof (cases "i < length list \<and> f < b")
    case False
    then have "free_index list i f b = i" by (subst free_index.simps) (rule if_not_P)
    with False 1(2) show ?thesis by (auto simp: word_less_nat_alt)
  next
    case True
    let ?f = "f + word_of_int (sSize (list ! i))"
    have eq: "free_index list i f b = free_index list (i + 1) ?f b" using True by (subst free_index.simps) simp
    have sum: "size_sum list i (length list) = size_of (list ! i) + size_sum list (i + 1) (length list)"
      by (rule size_sum_head) (use True in auto)
    have f: "unat ?f = unat f + size_of (list ! i)"
      using 1(3) sum by (subst unat_add_lem [THEN iffD1]) (simp_all add: size_of_def)
    have IH: "(\<forall>k. i + 1 \<le> k \<longrightarrow> k < free_index list (i + 1) ?f b \<longrightarrow> unat ?f + size_sum list (i + 1) k < unat b) \<and>
        (free_index list (i + 1) ?f b = length list \<or> unat b \<le> unat ?f + size_sum list (i + 1) (free_index list (i + 1) ?f b))"
      by (rule "1.IH" [OF True]) (use True f sum 1(3) in auto)
    have r: "i + 1 \<le> free_index list (i + 1) ?f b" "free_index list (i + 1) ?f b \<le> length list"
      using free_index_bounds [of "i + 1" list ?f b] True by auto
    have step: "unat f + size_sum list i k = unat ?f + size_sum list (i + 1) k" if "i < k" "k \<le> length list" for k
      using size_sum_head [OF that] f by simp
    have "unat f + size_sum list i k < unat b" if k: "i \<le> k" "k < free_index list i f b" for k
    proof (cases "k = i")
      case True
      then show ?thesis using \<open>i < length list \<and> f < b\<close> by (simp add: word_less_nat_alt)
    next
      case False
      with k r eq have "i < k" "k \<le> length list" by auto
      from step [OF this] IH \<open>i < k\<close> k(2) eq show ?thesis by simp
    qed
    moreover have "free_index list i f b = length list \<or> unat b \<le> unat f + size_sum list i (free_index list i f b)"
      using IH eq step [of "free_index list i f b"] r by auto
    ultimately show ?thesis by blast
  qed
qed

text \<open>C21: the images one round takes. As long as the sizes do not add up to \<open>2^64\<close>, the round that starts at image \<open>s\<close>
  ends at the first image with which at least the wanted number of bytes is freed, or at the last image when all
  of them are not enough: it never takes an image more than needed.\<close>

theorem countImagesToFree_least:
  assumes "s < length list" "b \<noteq> 0" "size_sum list s (length list) < 2 ^ 64"
  shows "\<exists>n < length list. countImagesToFree list (int s) b = int n \<and> s \<le> n \<and>
    (\<forall>k. s \<le> k \<and> k \<le> n \<longrightarrow> size_sum list s k < unat b) \<and>
    (n = length list - 1 \<or> unat b \<le> size_sum list s (n + 1))"
proof -
  let ?r = "free_index list s 0 b"
  have least: "\<forall>k. s \<le> k \<longrightarrow> k < ?r \<longrightarrow> size_sum list s k < unat b"
    "?r = length list \<or> unat b \<le> size_sum list s ?r"
    using free_index_least [of s list 0 b] assms by auto
  have r: "s + 1 \<le> ?r" "?r \<le> length list"
    using assms free_index_bounds [of "s + 1" list "0 + word_of_int (sSize (list ! s))" b]
    by (subst free_index.simps, simp add: word_neq_0_conv)+
  then have "countImagesToFree list (int s) b = int (?r - 1)"
    using assms by (simp add: countImagesToFree_def max_def of_nat_diff)
  with r least show ?thesis by (intro exI [of _ "?r - 1"]) auto
qed


subsection \<open>The calls of a round\<close>

definition rmi_refs :: "host_calls \<Rightarrow> string list" where
  "rmi_refs t = concat (map (\<lambda>c. case c of Call_Rmi ref force \<Rightarrow> [ref] | _ \<Rightarrow> []) t)"

lemma rmi_refs_append [simp]: "rmi_refs (s @ t) = rmi_refs s @ rmi_refs t"
  by (simp add: rmi_refs_def)

lemma rmi_refs_Nil [simp]: "rmi_refs [] = []"
  by (simp add: rmi_refs_def)

text \<open>The references that an image is removed by.\<close>

definition image_refs :: "Summary \<Rightarrow> string list" where
  "image_refs img = (if sRepoTags img \<noteq> [] then sRepoTags img else sRepoDigests img)"

definition emits :: "'a host_action \<Rightarrow> string list \<Rightarrow> bool" where
  "emits m refs \<longleftrightarrow> (\<forall>h. \<exists>r t. m h = (r, h @ t) \<and> subseq (rmi_refs t) refs)"

lemma emitsE: assumes "emits m refs" obtains r t where "m h = (r, h @ t)" "subseq (rmi_refs t) refs"
  using assms [unfolded emits_def, THEN spec [of _ h]] by blast

lemma emits_give [simp]: "emits (give x) refs"
  by (simp add: emits_def give_def)

lemma emits_give_up [simp]: "emits (give_up e) refs"
  by (simp add: emits_def give_up_def)

lemma emits_ask: "subseq (rmi_refs [c]) refs \<Longrightarrow> emits (ask_host c f) refs"
  by (simp add: emits_def ask_host_def)

lemma emits_attempt:
  assumes "emits m xs" "\<And>e. emits (f e) ys" "\<And>x. emits (k x) ys"
  shows "emits (attempt m f k) (xs @ ys)"
  unfolding emits_def
proof
  fix h
  obtain r t where m: "m h = (r, h @ t)" "subseq (rmi_refs t) xs" using assms(1) by (rule emitsE)
  obtain r' t' where n: "attempt m f k h = (r', (h @ t) @ t')" "subseq (rmi_refs t') ys"
  proof (cases r)
    case (Inl e)
    with m(1) that show ?thesis by (auto simp: attempt_def intro: emitsE [OF assms(2) [of e], of "h @ t"])
  next
    case (Inr x)
    with m(1) that show ?thesis by (auto simp: attempt_def intro: emitsE [OF assms(3) [of x], of "h @ t"])
  qed
  have "subseq (rmi_refs (t @ t')) (xs @ ys)" using m(2) n(2) by (simp add: list_emb_append_mono)
  with n(1) show "\<exists>r t. attempt m f k h = (r, h @ t) \<and> subseq (rmi_refs t) (xs @ ys)" by auto
qed

lemma emits_plain: "emits m xs \<Longrightarrow> (\<And>x. emits (k x) ys) \<Longrightarrow> emits (plain m k) (xs @ ys)"
  unfolding plain_def by (rule emits_attempt) simp_all

lemma emits_follow: "emits m xs \<Longrightarrow> (\<And>x. emits (k x) ys) \<Longrightarrow> emits (follow m msg k) (xs @ ys)"
  unfolding follow_def by (rule emits_attempt) simp_all

lemma emits_loop: "(\<And>s x. emits (f s x) (refs x)) \<Longrightarrow> emits (loop f s xs) (concat (map refs xs))"
  by (induction xs arbitrary: s) (auto intro: emits_plain)

lemma emits_isLocked: "emits (isLocked w name) []"
proof -
  have "emits (plain (ask_host (Call_Release name) (release w name)) (\<lambda>_. give False)) ([] @ [])"
    by (rule emits_plain) (auto intro: emits_ask simp: rmi_refs_def)
  then have "emits (isLocked w name) ([] @ [])"
    unfolding isLocked_def by (intro emits_plain) (auto intro: emits_ask simp: rmi_refs_def)
  then show ?thesis by simp
qed

lemma emits_counted: "emits (counted_removal w opts n ref) [ref]"
proof -
  have "emits (removeImageRef w opts ref) [ref]"
    by (auto simp: removeImageRef_def rmi_refs_def intro: emits_ask)
  from emits_attempt [OF this, of "\<lambda>e. give (n + 1)" "[]" "\<lambda>_. give n"] show ?thesis
    by (simp add: counted_removal_def)
qed

lemma emits_remove_tag: "emits (remove_tag w opts n ref) [ref]"
proof -
  have "emits (if ok then give (n + 1) else counted_removal w opts n ref) [ref]" for ok by (simp add: emits_counted)
  from emits_follow [OF emits_isLocked this] show ?thesis by (simp add: remove_tag_def emits_counted)
qed

lemma emits_remove_image: "emits (remove_image w opts d img) (image_refs img)"
proof -
  have "emits (removeImageByRepoTags w opts img) (sRepoTags img)"
    using emits_plain [OF emits_loop [of "remove_tag w opts" "\<lambda>ref. [ref]", OF emits_remove_tag], of "\<lambda>n. give (n = 0 \<and> length (sRepoTags img) > 0)" "[]"]
    by (simp add: removeImageByRepoTags_def)
  moreover have "emits (removeImageByRepoDigests w opts img) (sRepoDigests img)"
    using emits_plain [OF emits_loop [of "counted_removal w opts" "\<lambda>ref. [ref]", OF emits_counted], of "\<lambda>n. give (n = 0 \<and> length (sRepoDigests img) > 0)" "[]"]
    by (simp add: removeImageByRepoDigests_def)
  ultimately have "emits (if length (sRepoTags img) > 0 then removeImageByRepoTags w opts img
      else if length (sRepoDigests img) > 0 then removeImageByRepoDigests w opts img else give False) (image_refs img)"
    by (auto simp: image_refs_def)
  from emits_plain [OF this, of "\<lambda>ok. give (if ok then d @ [sID img] else d)" "[]"] show ?thesis
    by (simp add: remove_image_def)
qed

text \<open>What the report promises: every reference of a reported image was removed, unless it is a dry run.\<close>

definition removed :: "host \<Rightarrow> RunGCOptions \<Rightarrow> string \<Rightarrow> host_calls \<Rightarrow> bool" where
  "removed w opts ref h \<longleftrightarrow> DryRun opts \<or>
     (\<exists>pre post. h = pre @ Call_Rmi ref (Force opts) # post \<and> rmi w ref (Force opts) pre = Inr ())"

lemma grows_removed: "lasting (removed w opts ref)"
  by (fastforce simp: lasting_def removed_def)

abbreviation any_call :: "host_calls \<Rightarrow> host_call \<Rightarrow> bool" where "any_call \<equiv> \<lambda>_ _. True"

abbreviation all_removed :: "host \<Rightarrow> RunGCOptions \<Rightarrow> string list \<Rightarrow> host_calls \<Rightarrow> bool" where
  "all_removed w opts refs h \<equiv> \<forall>ref \<in> set refs. removed w opts ref h"

lemma grows_all_removed: "lasting (all_removed w opts refs)"
  using grows_removed unfolding lasting_def by blast

lemma counted_removed:
  "contract any_call (\<lambda>h. True) (counted_removal w opts n ref) (\<lambda>n' h. n' = 0 \<longrightarrow> n = 0 \<and> removed w opts ref h)"
  unfolding counted_removal_def removeImageRef_def contract_def attempt_def ask_host_def give_def removed_def
  by (auto split: sum.splits)

lemma any_ask: "contract any_call (\<lambda>h. True) (ask_host c f) (\<lambda>_ _. True)"
  by (rule contract_ask) simp_all

lemma any_isLocked: "contract any_call (\<lambda>h. True) (isLocked w name) (\<lambda>_ _. True)"
  unfolding isLocked_def by (rule contract_plain_seq [OF any_ask]) (auto intro!: contract_give contract_plain_seq [OF any_ask])

lemma tag_removed:
  "contract any_call (\<lambda>h. True) (remove_tag w opts n ref) (\<lambda>n' h. n' = 0 \<longrightarrow> n = 0 \<and> removed w opts ref h)"
proof -
  have "contract any_call (\<lambda>h. True) (if ok then give (n + 1) else counted_removal w opts n ref)
      (\<lambda>n' h. n' = 0 \<longrightarrow> n = 0 \<and> removed w opts ref h)" for ok
    by (cases ok) (simp_all add: counted_removed contract_give)
  from contract_follow_seq [OF any_isLocked this] show ?thesis by (simp add: remove_tag_def counted_removed)
qed

lemma loop_removed:
  assumes "\<And>n ref. contract any_call (\<lambda>h. True) (f n ref) (\<lambda>n' h. n' = 0 \<longrightarrow> n = 0 \<and> removed w opts ref h)"
  shows "contract any_call (\<lambda>h. True) (loop f n refs) (\<lambda>n' h. n' = (0::nat) \<longrightarrow> n = 0 \<and> all_removed w opts refs h)"
proof (induction refs arbitrary: n)
  case (Cons ref refs)
  let ?Q = "\<lambda>n' h. n' = 0 \<longrightarrow> n = 0 \<and> removed w opts ref h"
  have g: "lasting (?Q n')" for n' using grows_removed unfolding lasting_def by blast
  have "contract any_call (?Q n') (loop f n' refs) (\<lambda>n'' h. n'' = 0 \<longrightarrow> n = 0 \<and> all_removed w opts (ref # refs) h)" for n'
    using contract_frame [OF Cons.IH [of n'] g] by (rule contract_weaken) auto
  then show ?case by (auto intro: contract_plain_seq [OF assms])
qed (simp add: contract_give)


definition reported :: "host \<Rightarrow> RunGCOptions \<Rightarrow> Summary list \<Rightarrow> string list \<Rightarrow> host_calls \<Rightarrow> bool" where
  "reported w opts imgs ids h \<longleftrightarrow>
     (\<forall>i \<in> set ids. \<exists>img \<in> set imgs. sID img = i \<and> image_refs img \<noteq> [] \<and> all_removed w opts (image_refs img) h)"

lemma reported_Nil [simp]: "reported w opts imgs [] h"
  by (simp add: reported_def)

lemma grows_reported: "lasting (reported w opts imgs ids)"
  unfolding lasting_def reported_def
proof (intro allI impI ballI)
  fix h t i assume "\<forall>i \<in> set ids. \<exists>img \<in> set imgs. sID img = i \<and> image_refs img \<noteq> [] \<and> all_removed w opts (image_refs img) h" "i \<in> set ids"
  then obtain img where "img \<in> set imgs" "sID img = i" "image_refs img \<noteq> []" "all_removed w opts (image_refs img) h" by blast
  then show "\<exists>img \<in> set imgs. sID img = i \<and> image_refs img \<noteq> [] \<and> all_removed w opts (image_refs img) (h @ t)"
    using grows_all_removed [where w = w and opts = opts and refs = "image_refs img"] unfolding lasting_def by blast
qed

lemma reported_image:
  assumes "img \<in> set imgs"
  shows "contract any_call (reported w opts imgs d) (remove_image w opts d img) (reported w opts imgs)"
proof -
  have loops: "contract any_call (\<lambda>h. True) (loop f 0 refs) (\<lambda>n h. n = (0::nat) \<longrightarrow> all_removed w opts refs h)"
    if "\<And>n ref. contract any_call (\<lambda>h. True) (f n ref) (\<lambda>n' h. n' = 0 \<longrightarrow> n = 0 \<and> removed w opts ref h)" for f refs
    by (rule contract_weaken [OF loop_removed [OF that]]) simp_all
  let ?m = "if length (sRepoTags img) > 0 then removeImageByRepoTags w opts img
      else if length (sRepoDigests img) > 0 then removeImageByRepoDigests w opts img else give False"
  have tags: "contract any_call (\<lambda>h. True) (removeImageByRepoTags w opts img)
      (\<lambda>ok h. ok \<longrightarrow> sRepoTags img \<noteq> [] \<and> all_removed w opts (sRepoTags img) h)"
    unfolding removeImageByRepoTags_def
    by (rule contract_plain_seq [OF loops [OF tag_removed] contract_give]) auto
  have digests: "contract any_call (\<lambda>h. True) (removeImageByRepoDigests w opts img)
      (\<lambda>ok h. ok \<longrightarrow> sRepoDigests img \<noteq> [] \<and> all_removed w opts (sRepoDigests img) h)"
    unfolding removeImageByRepoDigests_def
    by (rule contract_plain_seq [OF loops [OF counted_removed] contract_give]) auto
  have m: "contract any_call (\<lambda>h. True) ?m (\<lambda>ok h. ok \<longrightarrow> image_refs img \<noteq> [] \<and> all_removed w opts (image_refs img) h)"
    using tags digests by (auto simp: image_refs_def contract_give elim: contract_weaken)
  show ?thesis
    unfolding remove_image_def
    by (rule contract_plain [OF m grows_reported], rule contract_give) (use assms in \<open>auto simp: reported_def\<close>)
qed

lemma reported_loop:
  "set imgs \<subseteq> set all \<Longrightarrow> contract any_call (reported w opts all d) (loop (remove_image w opts) d imgs) (reported w opts all)"
proof (induction imgs arbitrary: d)
  case (Cons img imgs)
  then show ?case by (auto intro: contract_plain_seq [OF reported_image])
qed (simp add: contract_give)

lemma reported_mono: "reported w opts imgs ids h \<Longrightarrow> set imgs \<subseteq> set imgs' \<Longrightarrow> reported w opts imgs' ids h"
  unfolding reported_def by blast

lemma give_plain: "plain m (\<lambda>x. give (f x)) h = (Inr y, h') \<Longrightarrow> \<exists>x. m h = (Inr x, h') \<and> y = f x"
  by (auto simp: plain_def attempt_def give_def give_up_def split: prod.splits sum.splits)

lemma remove_image_items: "remove_image w opts d img h = (Inr d', h') \<Longrightarrow> d' = d \<or> d' = d @ [sID img]"
  unfolding remove_image_def by (drule give_plain) auto

lemma plain_InrE:
  assumes "plain m k h = (Inr y, h')"
  obtains x h1 where "m h = (Inr x, h1)" "k x h1 = (Inr y, h')"
  using assms by (auto simp: plain_def attempt_def give_up_def split: prod.splits sum.splits)

lemma follow_InrE:
  assumes "follow m msg k h = (Inr y, h')"
  obtains x h1 where "m h = (Inr x, h1)" "k x h1 = (Inr y, h')"
  using assms by (auto simp: follow_def attempt_def give_up_def split: prod.splits sum.splits)

lemma loop_items:
  "loop (remove_image w opts) d imgs h = (Inr d', h') \<Longrightarrow> \<exists>ds. d' = d @ ds \<and> subseq ds (map sID imgs)"
proof (induction imgs arbitrary: d h)
  case (Cons img imgs)
  from Cons.prems obtain x h1 where x: "remove_image w opts d img h = (Inr x, h1)" "loop (remove_image w opts) x imgs h1 = (Inr d', h')"
    by (auto elim: plain_InrE)
  from Cons.IH [OF x(2)] obtain ds where "d' = x @ ds" "subseq ds (map sID imgs)" by blast
  with remove_image_items [OF x(1)] show ?case by fastforce
qed (simp add: give_def)

text \<open>What is known of the last usage: it is the one the run started with, or the last call measured it.\<close>

definition measured :: "host \<Rightarrow> string \<Rightarrow> VolumeUsage \<Rightarrow> host_calls \<Rightarrow> bool" where
  "measured w path vu h \<longleftrightarrow>
     (\<exists>pre. h = pre @ [Call_Disk path] \<and> disk_info w path pre = Inr (TotalBytes vu, TotalBytes vu - UsedBytes vu))"

lemma GetVolumeUsage_measured:
  "GetVolumeUsageByPath w path h = (Inr vu, h') \<Longrightarrow> h' = h @ [Call_Disk path] \<and> measured w path vu h'"
  unfolding GetVolumeUsageByPath_def
  by (auto simp: measured_def ask_host_def give_def elim!: follow_InrE)

text \<open>The rounds that were run: for each the last image it tried, the calls it made and the usage it measured with its last call. A round
  is started only while the usage known last is above the target, and tries just as many images as should free the difference.\<close>

type_synonym round_entry = "nat \<times> host_calls \<times> VolumeUsage"

fun round_log :: "host \<Rightarrow> RunGCOptions \<Rightarrow> rat \<Rightarrow> Summary list \<Rightarrow> nat \<Rightarrow> VolumeUsage \<Rightarrow> host_calls \<Rightarrow> round_entry list \<Rightarrow> bool" where
  "round_log w opts tVu images i vu h [] \<longleftrightarrow> True"
| "round_log w opts tVu images i vu h ((n, seg, vu1) # rounds) \<longleftrightarrow>
     \<not> at_target vu tVu \<and> i \<le> n \<and> n < length images \<and> int n = countImagesToFree images (int i) (BytesToFree vu tVu) \<and>
     subseq (rmi_refs seg) (concat (map image_refs (drop i (take (n + 1) images)))) \<and>
     measured w (StoragePath opts) vu1 (h @ seg) \<and>
     round_log w opts tVu images (n + 1) vu1 (h @ seg) rounds"

fun rounds_reach :: "nat \<Rightarrow> VolumeUsage \<Rightarrow> round_entry list \<Rightarrow> nat \<times> VolumeUsage" where
  "rounds_reach i vu [] = (i, vu)"
| "rounds_reach i vu ((n, seg, vu1) # rounds) = rounds_reach (n + 1) vu1 rounds"

definition round_calls :: "round_entry list \<Rightarrow> host_calls" where
  "round_calls rounds = concat (map (fst \<circ> snd) rounds)"

lemma above_target:
  assumes "countImagesToFree images i (BytesToFree vu tVu) \<noteq> - 1" "0 \<le> tVu"
  shows "\<not> at_target vu tVu"
proof -
  have b: "BytesToFree vu tVu \<noteq> 0" using assms(1) by (auto simp: countImagesToFree_def)
  then have "TotalBytes vu \<noteq> 0" by (auto simp: BytesToFree_def bytes_def)
  with b show ?thesis using BytesToFree_zero [OF _ assms(2), of vu] by simp
qed

definition round_end :: "host \<Rightarrow> RunGCOptions \<Rightarrow> rat \<Rightarrow> Summary list \<Rightarrow> nat \<Rightarrow> VolumeUsage \<Rightarrow> cleanupReport \<Rightarrow>
    host_calls \<Rightarrow> gc_round \<Rightarrow> host_calls \<Rightarrow> round_entry list \<Rightarrow> string list \<Rightarrow> bool" where
  "round_end w opts tVu images i vu report h e h' rounds ds \<longleftrightarrow>
    h' = h @ round_calls rounds \<and> round_log w opts tVu images i vu h rounds \<and>
    rounds_reach i vu rounds = (next_image e, usage e) \<and> i \<le> next_image e \<and> next_image e \<le> length images \<and>
    subseq (rmi_refs (round_calls rounds)) (concat (map image_refs (drop i (take (next_image e) images)))) \<and>
    ItemsDeleted (gc_report e) = ItemsDeleted report @ ds \<and> subseq ds (map sID (drop i (take (next_image e) images))) \<and>
    (reported w opts (take i images) (ItemsDeleted report) h \<longrightarrow>
       reported w opts (take (next_image e) images) (ItemsDeleted (gc_report e)) h') \<and>
    SpaceReclaimed (gc_report e) + UsedBytes (usage e) = SpaceReclaimed report + UsedBytes vu \<and>
    (next_image e = i \<and> usage e = vu \<and> h' = h \<or> measured w (StoragePath opts) (usage e) h') \<and>
    countImagesToFree images (int (next_image e)) (BytesToFree (usage e) tVu) = - 1"

lemma rounds_end:
  assumes "image_rounds w opts tVu images i vu report h = (Inr e, h')" "i \<le> length images"
    and target: "0 \<le> tVu"
  shows "\<exists>rounds ds. round_end w opts tVu images i vu report h e h' rounds ds"
  using assms(1,2)
proof (induction "length images - i" arbitrary: i vu report h rule: less_induct)
  case less
  let ?n = "countImagesToFree images (int i) (BytesToFree vu tVu)"
  show ?case
  proof (cases "?n = - 1")
    case True
    with less.prems(1) have "e = \<lparr>next_image = i, usage = vu, gc_report = report\<rparr>" "h' = h"
      by (auto simp: image_rounds_plain give_def)
    with True less.prems(2) show ?thesis by (intro exI [of _ "[]"]) (simp add: round_end_def round_calls_def)
  next
    case False
    define n where "n = nat ?n"
    from countImagesToFree_range [OF False] have n: "i \<le> n" "n < length images" "?n = int n" by (auto simp: n_def)
    let ?imgs = "drop i (take (n + 1) images)"
    from less.prems(1) obtain d h1 vu1 h2 where d: "loop (remove_image w opts) (ItemsDeleted report) ?imgs h = (Inr d, h1)"
      and u: "GetVolumeUsageByPath w (StoragePath opts) h1 = (Inr vu1, h2)"
      and rest: "image_rounds w opts tVu images (n + 1) vu1
        \<lparr>ItemsDeleted = d, SpaceReclaimed = SpaceReclaimed report + (UsedBytes vu - UsedBytes vu1)\<rparr> h2 = (Inr e, h')"
      by (simp only: image_rounds_plain [of w opts tVu images i] Let_def n(3) nat_int) (auto elim!: plain_InrE follow_InrE)
    obtain t1 where t1: "h1 = h @ t1" "subseq (rmi_refs t1) (concat (map image_refs ?imgs))"
      using emitsE [OF emits_loop [of "remove_image w opts" image_refs "ItemsDeleted report" ?imgs, OF emits_remove_image], where h = h] d
      by (metis Pair_inject)
    obtain ds1 where ds1: "d = ItemsDeleted report @ ds1" "subseq ds1 (map sID ?imgs)" using loop_items [OF d] by blast
    have h2: "h2 = h1 @ [Call_Disk (StoragePath opts)]" "measured w (StoragePath opts) vu1 h2"
      using GetVolumeUsage_measured [OF u] by auto
    have rep1: "reported w opts (take (n + 1) images) d h2" if "reported w opts (take i images) (ItemsDeleted report) h"
    proof -
      have "reported w opts (take (n + 1) images) (ItemsDeleted report) h"
        by (rule reported_mono [OF that]) (use n(1) in \<open>simp add: set_take_subset_set_take\<close>)
      with contractE [OF reported_loop [of ?imgs "take (n + 1) images" w opts "ItemsDeleted report"], where h = h] d
      have "reported w opts (take (n + 1) images) d h1" by (metis Pair_inject set_drop_subset)
      then show ?thesis using grows_reported [of w opts "take (n + 1) images" d] h2(1) unfolding lasting_def by blast
    qed
    obtain rs2 ds2 where "round_end w opts tVu images (n + 1) vu1
        \<lparr>ItemsDeleted = d, SpaceReclaimed = SpaceReclaimed report + (UsedBytes vu - UsedBytes vu1)\<rparr> h2 e h' rs2 ds2"
      using less.hyps [OF _ rest] n by (metis Suc_eq_plus1 Suc_leI diff_less_mono2 le_imp_less_Suc order_less_le_trans)
    then have log: "round_log w opts tVu images (n + 1) vu1 h2 rs2" "rounds_reach (n + 1) vu1 rs2 = (next_image e, usage e)"
      and IH: "h' = h2 @ round_calls rs2" "n + 1 \<le> next_image e" "next_image e \<le> length images"
      "subseq (rmi_refs (round_calls rs2)) (concat (map image_refs (drop (n + 1) (take (next_image e) images))))"
      "ItemsDeleted (gc_report e) = d @ ds2" "subseq ds2 (map sID (drop (n + 1) (take (next_image e) images)))"
      "reported w opts (take (n + 1) images) d h2 \<longrightarrow> reported w opts (take (next_image e) images) (ItemsDeleted (gc_report e)) h'"
      "SpaceReclaimed (gc_report e) + UsedBytes (usage e) = SpaceReclaimed report + (UsedBytes vu - UsedBytes vu1) + UsedBytes vu1"
      "next_image e = n + 1 \<and> usage e = vu1 \<and> h' = h2 \<or> measured w (StoragePath opts) (usage e) h'"
      "countImagesToFree images (int (next_image e)) (BytesToFree (usage e) tVu) = - 1"
      by (auto simp: round_end_def)
    have split: "drop i (take (next_image e) images) = ?imgs @ drop (n + 1) (take (next_image e) images)"
    proof -
      have "take (next_image e) images = take (n + 1) images @ drop (n + 1) (take (next_image e) images)"
        using IH(2) by (metis append_take_drop_id min.absorb1 take_take)
      then show ?thesis using n(1,2) by (metis (no_types, lifting) Suc_eq_plus1 drop_append diff_is_0_eq' drop_0 le_SucI length_take less_eq_Suc_le min.absorb2)
    qed
    let ?seg = "t1 @ [Call_Disk (StoragePath opts)]"
    let ?rounds = "(n, ?seg, vu1) # rs2"
    have calls: "round_calls ?rounds = ?seg @ round_calls rs2" by (simp add: round_calls_def)
    have seg: "rmi_refs ?seg = rmi_refs t1" by (simp add: rmi_refs_def)
    have "h' = h @ round_calls ?rounds" using IH(1) h2(1) t1(1) calls by simp
    moreover have "subseq (rmi_refs (round_calls ?rounds)) (concat (map image_refs (drop i (take (next_image e) images))))"
      using t1(2) IH(4) unfolding calls split by (simp add: list_emb_append_mono rmi_refs_def)
    moreover have "round_log w opts tVu images i vu h ?rounds"
      using above_target [OF False target] n t1 h2 log(1) seg by simp
    moreover have "rounds_reach i vu ?rounds = (next_image e, usage e)" using log(2) by simp
    moreover have "ItemsDeleted (gc_report e) = ItemsDeleted report @ (ds1 @ ds2)" using IH(5) ds1(1) by simp
    moreover have "subseq (ds1 @ ds2) (map sID (drop i (take (next_image e) images)))"
      using ds1(2) IH(6) by (simp add: split list_emb_append_mono)
    moreover have "measured w (StoragePath opts) (usage e) h'"
      using IH(9) h2(2) by auto
    ultimately have "round_end w opts tVu images i vu report h e h' ?rounds (ds1 @ ds2)"
      using IH(2,3,7,8,10) n(1) rep1 unfolding round_end_def by simp
    then show ?thesis by blast
  qed
qed


subsection \<open>The order of the images\<close>

text \<open>The last use of an image is the latest of its creation and of the accesses that the cache has for its tags.\<close>

definition accessed :: "host \<Rightarrow> string \<Rightarrow> int \<Rightarrow> host_calls \<Rightarrow> bool" where
  "accessed w ref a h \<longleftrightarrow> (\<exists>pre post r. h = pre @ Call_LastAccess ref # post \<and> lru_record w ref pre = Inr r \<and>
     a = (case r of None \<Rightarrow> zero_time | Some ns \<Rightarrow> ns))"

definition last_use :: "host \<Rightarrow> int \<Rightarrow> string list \<Rightarrow> int \<Rightarrow> host_calls \<Rightarrow> bool" where
  "last_use w created refs t h \<longleftrightarrow> created \<le> t \<and> (\<forall>ref \<in> set refs. \<exists>a \<le> t. accessed w ref a h) \<and>
     (t = created \<or> (\<exists>ref \<in> set refs. accessed w ref t h))"

lemma grows_accessed: "lasting (accessed w ref a)"
  by (fastforce simp: lasting_def accessed_def)

lemma grows_last_use: "lasting (last_use w created refs t)"
  using grows_accessed unfolding lasting_def last_use_def by blast

lemma access_time: "contract any_call (\<lambda>h. True) (GetImageLastAccessTime w ref) (\<lambda>a h. accessed w ref a h)"
  unfolding GetImageLastAccessTime_def contract_def plain_def attempt_def ask_host_def give_up_def give_def accessed_def
  by (auto split: sum.splits option.splits)

lemma max_last_used:
  "contract any_call (\<lambda>h. True) (maxLastUsedAtForImage w img) (last_use w (sCreated img) (sRepoTags img))"
proof -
  let ?f = "\<lambda>lastUsedAt ref. follow (GetImageLastAccessTime w ref) ''error accessing last recently used images cache''
      (\<lambda>lastRecentlyUsedAt. give (if lastUsedAt < lastRecentlyUsedAt then lastRecentlyUsedAt else lastUsedAt))"
  have "contract any_call (last_use w (sCreated img) refs t) (?f t ref) (\<lambda>t'. last_use w (sCreated img) (refs @ [ref]) t')" for t refs ref
  proof (rule contract_follow [OF access_time grows_last_use], rule contract_give)
    fix a h assume "accessed w ref a h \<and> last_use w (sCreated img) refs t h"
    then show "last_use w (sCreated img) (refs @ [ref]) (if t < a then a else t) h"
      by (cases "t < a") (auto simp: last_use_def, (meson less_imp_le order_trans not_less)+)
  qed
  from contract_loop_inv [where I = "\<lambda>t refs h. last_use w (sCreated img) refs t h", OF this, where s = "sCreated img" and done_xs = "[]" and xs = "sRepoTags img"]
  show ?thesis unfolding maxLastUsedAtForImage_def by (rule contract_weaken) (simp_all add: last_use_def)
qed

definition timed :: "host \<Rightarrow> time_map \<Rightarrow> Summary list \<Rightarrow> host_calls \<Rightarrow> bool" where
  "timed w tmap imgs h \<longleftrightarrow> (\<forall>img \<in> set imgs. \<exists>img' \<in> set imgs. sID img' = sID img \<and>
     (\<exists>t. map_of tmap (sID img) = Some t \<and> last_use w (sCreated img') (sRepoTags img') t h))"

lemma grows_timed: "lasting (timed w tmap imgs)"
  unfolding lasting_def
proof (intro allI impI)
  fix h t assume timed: "timed w tmap imgs h"
  have mono: "last_use w c refs u h \<Longrightarrow> last_use w c refs u (h @ t)" for c refs u
    using grows_last_use unfolding lasting_def by blast
  show "timed w tmap imgs (h @ t)" using timed mono unfolding timed_def by meson
qed

lemma timed_loop: "contract any_call (\<lambda>h. True) (loop (note_last_use w) [] imgs) (\<lambda>tmap. timed w tmap imgs)"
proof -
  have "contract any_call (timed w tmap imgs1) (note_last_use w tmap img) (\<lambda>tmap'. timed w tmap' (imgs1 @ [img]))"
    for tmap imgs1 img
    unfolding note_last_use_def
  proof (rule contract_follow [OF max_last_used grows_timed], rule contract_give)
    fix t h assume t: "last_use w (sCreated img) (sRepoTags img) t h \<and> timed w tmap imgs1 h"
    show "timed w (AList.update (sID img) t tmap) (imgs1 @ [img]) h"
      unfolding timed_def
    proof
      fix x assume x: "x \<in> set (imgs1 @ [img])"
      show "\<exists>img' \<in> set (imgs1 @ [img]). sID img' = sID x \<and>
          (\<exists>u. map_of (AList.update (sID img) t tmap) (sID x) = Some u \<and> last_use w (sCreated img') (sRepoTags img') u h)"
      proof (cases "sID x = sID img")
        case True
        with t show ?thesis by (intro bexI [of _ img]) (auto simp: map_of_update)
      next
        case False
        with x t show ?thesis unfolding timed_def by (fastforce simp: map_of_update)
      qed
    qed
  qed
  from contract_loop_inv [where I = "\<lambda>tmap imgs h. timed w tmap imgs h", OF this, where s = "[]" and done_xs = "[]" and xs = imgs]
  show ?thesis by (rule contract_weaken) (simp_all add: timed_def)
qed

lemma werfImages_sorted:
  assumes ok: "image_sorter_ok sorter" and run: "werfImages w sorter h = (Inr images, h')"
  shows "\<exists>tmap. timed w tmap images h' \<and> sorted (map (map_time tmap) images)"
proof -
  from run obtain all hx tmap h1 where "loop (note_last_use w) [] all hx = (Inr tmap, h1)"
      "give (sorter (map_time tmap) all) h1 = (Inr images, h')"
    unfolding werfImages_def Let_def by (auto elim!: plain_InrE)
  then have *: "loop (note_last_use w) [] all hx = (Inr tmap, h')" "images = sorter (map_time tmap) all"
    by (auto simp: give_def)
  from ok *(2) have set: "set images = set all" and "sorted (map (map_time tmap) images)"
    unfolding image_sorter_ok_def by (metis set_mset_mset)+
  moreover have "timed w tmap all h'"
    using contractE [OF timed_loop, where h = hx] *(1) by (metis Pair_inject)
  ultimately show ?thesis by (auto simp: timed_def)
qed

text \<open>A volume has a positive size; with a size of zero the float64 quotient of the code is not a number.\<close>

definition volumes_sized :: "host \<Rightarrow> bool" where
  "volumes_sized w \<longleftrightarrow> (\<forall>path h total_bytes free. disk_info w path h = Inr (total_bytes, free) \<longrightarrow> total_bytes \<noteq> 0)"

text \<open>C17: the images go in the order of their last use, and no more of them than needed. The run is a sequence of rounds; a round is
  started only while the usage that was measured last (the given one at first) is above the target, it tries the next images of the list sorted by the last use,
  just as many as should free the difference, and ends with a new measurement. So the removals are those of the first
  \<open>k\<close> images, in this order; a reported image had all its references
  removed (or it is a dry run); at the end either all images were tried or the measured volume is at its target;
  and the reclaimed space is the difference of the two usages.\<close>

theorem cleanupWerfImages_lru:
  assumes "image_sorter_ok sorter" "0 \<le> target" "TotalBytes vu \<noteq> 0" "volumes_sized w"
    and "cleanupWerfImages w sorter opts vu target h = (Inr report, h')"
  shows "\<exists>images tmap h1 rounds k vu'. werfImages w sorter h = (Inr images, h1) \<and> h' = h1 @ round_calls rounds \<and>
    timed w tmap images h1 \<and> sorted (map (map_time tmap) images) \<and>
    round_log w opts target images 0 vu h1 rounds \<and> rounds_reach 0 vu rounds = (k, vu') \<and> k \<le> length images \<and>
    subseq (rmi_refs (round_calls rounds)) (concat (map image_refs (take k images))) \<and>
    reported w opts (take k images) (ItemsDeleted report) h' \<and>
    (k = 0 \<and> vu' = vu \<or> measured w (StoragePath opts) vu' h') \<and>
    (k = length images \<or> at_target vu' target) \<and>
    (ItemsDeleted report = [] \<or> SpaceReclaimed report = UsedBytes vu - UsedBytes vu')"
proof -
  from assms(5) obtain images h1 e where imgs: "werfImages w sorter h = (Inr images, h1)"
      and rounds: "image_rounds w opts target images 0 vu no_report h1 = (Inr e, h')" and rep: "report = Normalize (gc_report e)"
    unfolding cleanupWerfImages_def by (auto simp: give_def elim!: plain_InrE)
  obtain tmap where tmap: "timed w tmap images h1" "sorted (map (map_time tmap) images)"
    using werfImages_sorted [OF assms(1) imgs] by blast
  obtain rs ds where e: "round_end w opts target images 0 vu no_report h1 e h' rs ds"
    using rounds_end [OF rounds _ assms(2)] by blast
  let ?k = "next_image e" and ?vu = "usage e"
  have "TotalBytes ?vu \<noteq> 0" using e assms(3,4) by (auto simp: round_end_def measured_def volumes_sized_def)
  then have k: "?k = length images \<or> at_target ?vu target"
    using e BytesToFree_zero [OF _ assms(2), of ?vu] by (auto simp: round_end_def countImagesToFree_def split: if_split_asm)
  have items: "reported w opts (take ?k images) (ItemsDeleted report) h'"
    using e by (auto simp: round_end_def rep Normalize_def no_report_def)
  have space: "ItemsDeleted report = [] \<or> SpaceReclaimed report = UsedBytes vu - UsedBytes ?vu"
    using e by (auto simp: round_end_def rep Normalize_def no_report_def algebra_simps)
  show ?thesis
    using e tmap k items space imgs
    by (intro exI [of _ images] exI [of _ tmap] exI [of _ h1] exI [of _ rs] exI [of _ ?k] exI [of _ ?vu])
      (auto simp: round_end_def)
qed

end
