(* ===== verification/Host_GC_Runs.thy ===== *)
theory Host_GC_Runs
  imports Host_GC_Exact
begin

text \<open>
  When the garbage collection of the host (\<open>src/pkg/host_cleaning/local_backend_cleaner.go\<close>) does something at all, what a
  dry run of it reports, and a host to try it on.
\<close>

subsection \<open>When it runs\<close>

text \<open>On a volume of positive size the check that decides on an automatic collection and the collection agree: the collection fails where the
  check fails, with its error; it does nothing and returns where the check says no; and where the
  check says yes it carries out its four steps, on the usage that the last call measured. On a volume of
  size zero the percentage of the code is not a number: its check says no, and the collection goes on.\<close>

theorem RunGC_follows_check:
  "(case ShouldRunAutoGC w (AllowedStorageVolumeUsagePercentage opts) (StoragePath opts) h of
      (Inl e, h') \<Rightarrow> RunGC w sorter opts h = (Inl e, h')
    | (Inr False, h') \<Rightarrow> RunGC w sorter opts h = (Inr (), h')
    | (Inr True, h') \<Rightarrow>
        (\<exists>path vu. measured w path vu h' \<and> AllowedStorageVolumeUsagePercentage opts < Percentage vu \<and>
           RunGC w sorter opts h = gc_steps w sorter (opts\<lparr>StoragePath := path\<rparr>) vu h'))"
proof (cases "backendStoragePath w (StoragePath opts) h")
  case (Pair r h1)
  show ?thesis
  proof (cases r)
    case (Inl e)
    with Pair show ?thesis by (simp add: ShouldRunAutoGC_def RunGC_def follow_def attempt_def give_up_def)
  next
    case (Inr path)
    show ?thesis
    proof (cases "GetVolumeUsageByPath w path h1")
      case u: (Pair r2 h2)
      show ?thesis
      proof (cases r2)
        case (Inl e)
        with Pair Inr u show ?thesis by (simp add: ShouldRunAutoGC_def RunGC_def follow_def attempt_def give_up_def Let_def)
      next
        case vu: (Inr vu)
        with u have "measured w path vu h2" using GetVolumeUsage_measured by blast
        with Pair Inr u vu show ?thesis
          by (cases "Percentage vu \<le> AllowedStorageVolumeUsagePercentage opts")
            (auto simp: ShouldRunAutoGC_def RunGC_def follow_def attempt_def give_up_def give_def Let_def not_le)
      qed
    qed
  qed
qed

subsection \<open>A dry run\<close>

text \<open>A dry run does not shrink the volume, so no round brings the usage to its target.\<close>

lemma dry_locked:
  assumes "\<And>n h. acquire w n h = Inr True" "\<And>n h. release w n h = Inr ()"
  shows "isLocked w n h = (Inr False, h @ [Call_Acquire n, Call_Release n])"
  using assms by (simp add: isLocked_def plain_def attempt_def ask_host_def give_def)

lemma dry_tags:
  assumes "DryRun opts" "\<And>n h. acquire w n h = Inr True" "\<And>n h. release w n h = Inr ()"
  shows "\<exists>h'. loop (remove_tag w opts) n refs h = (Inr n, h')"
  by (induction refs arbitrary: h)
    (simp_all add: give_def plain_def attempt_def remove_tag_def counted_removal_def removeImageRef_def follow_def dry_locked assms)

lemma dry_digests:
  assumes "DryRun opts"
  shows "\<exists>h'. loop (counted_removal w opts) n refs h = (Inr n, h')"
  by (induction refs arbitrary: h)
    (simp_all add: give_def plain_def attempt_def counted_removal_def removeImageRef_def assms)

lemma dry_remove_image:
  assumes "DryRun opts" "\<And>n h. acquire w n h = Inr True" "\<And>n h. release w n h = Inr ()"
  shows "\<exists>h'. remove_image w opts d img h = (Inr (if image_refs img \<noteq> [] then d @ [sID img] else d), h')"
proof -
  obtain h1 where 1: "loop (remove_tag w opts) 0 (sRepoTags img) h = (Inr 0, h1)" using dry_tags [OF assms] by blast
  obtain h2 where 2: "loop (counted_removal w opts) 0 (sRepoDigests img) h = (Inr 0, h2)" using dry_digests [OF assms(1)] by blast
  from 1 2 show ?thesis
    by (simp add: remove_image_def removeImageByRepoTags_def removeImageByRepoDigests_def image_refs_def plain_def attempt_def give_def)
qed

lemma dry_loop:
  assumes "DryRun opts" "\<And>n h. acquire w n h = Inr True" "\<And>n h. release w n h = Inr ()"
  shows "\<exists>h'. loop (remove_image w opts) d imgs h = (Inr (d @ map sID (filter (\<lambda>img. image_refs img \<noteq> []) imgs)), h')"
proof (induction imgs arbitrary: d h)
  case (Cons img imgs)
  obtain h1 where 1: "remove_image w opts d img h = (Inr (if image_refs img \<noteq> [] then d @ [sID img] else d), h1)"
    using dry_remove_image [OF assms] by blast
  obtain h2 where "loop (remove_image w opts) (if image_refs img \<noteq> [] then d @ [sID img] else d) imgs h1 =
      (Inr ((if image_refs img \<noteq> [] then d @ [sID img] else d) @ map sID (filter (\<lambda>img. image_refs img \<noteq> []) imgs)), h2)"
    using Cons.IH by blast
  with 1 show ?case by (auto simp: plain_def attempt_def)
qed (simp add: give_def)

lemma plain_run: "m h = (Inr x, h') \<Longrightarrow> plain m k h = k x h'"
  by (simp add: plain_def attempt_def)

lemma follow_run: "m h = (Inr x, h') \<Longrightarrow> follow m msg k h = k x h'"
  by (simp add: follow_def attempt_def)

lemma dry_rounds:
  assumes dry: "DryRun opts" "\<And>n h. acquire w n h = Inr True" "\<And>n h. release w n h = Inr ()"
    and disk: "\<And>h. disk_info w (StoragePath opts) h = Inr (tot, avail)" and vu: "vu = \<lparr>UsedBytes = tot - avail, TotalBytes = tot\<rparr>"
    and high: "BytesToFree vu target \<noteq> 0" and i: "i \<le> length images"
  shows "\<exists>h'. image_rounds w opts target images i vu report h =
    (Inr \<lparr>next_image = length images, usage = vu,
          gc_report = report\<lparr>ItemsDeleted := ItemsDeleted report @ map sID (filter (\<lambda>img. image_refs img \<noteq> []) (drop i images))\<rparr>\<rparr>, h')"
  using i
proof (induction "length images - i" arbitrary: i report h rule: less_induct)
  case less
  let ?n = "countImagesToFree images (int i) (BytesToFree vu target)" and ?f = "filter (\<lambda>img. image_refs img \<noteq> [])"
  show ?case
  proof (cases "i = length images")
    case True
    then have "?n = - 1" by (simp add: countImagesToFree_def)
    with True show ?thesis by (simp add: image_rounds_plain give_def)
  next
    case False
    then have "?n \<noteq> - 1" using high less.prems by (auto simp: countImagesToFree_def)
    define n where "n = nat ?n"
    have minus_one: "(int n = - 1) = False" by simp
    from countImagesToFree_range [OF \<open>?n \<noteq> - 1\<close>] have n: "i \<le> n" "n < length images" "?n = int n" by (auto simp: n_def)
    let ?imgs = "drop i (take (n + 1) images)"
    obtain h1 where del: "loop (remove_image w opts) (ItemsDeleted report) ?imgs h = (Inr (ItemsDeleted report @ map sID (?f ?imgs)), h1)"
      using dry_loop [OF dry] by blast
    have usage: "GetVolumeUsageByPath w (StoragePath opts) h1 = (Inr vu, h1 @ [Call_Disk (StoragePath opts)])"
      by (simp add: GetVolumeUsageByPath_def follow_def attempt_def ask_host_def disk give_def vu)
    have "length images - (n + 1) < length images - i" "n + 1 \<le> length images" using n by auto
    from less.hyps [OF this, of "\<lparr>ItemsDeleted = ItemsDeleted report @ map sID (?f ?imgs), SpaceReclaimed = SpaceReclaimed report\<rparr>"
        "h1 @ [Call_Disk (StoragePath opts)]"]
    obtain h' where rest: "image_rounds w opts target images (n + 1) vu
        \<lparr>ItemsDeleted = ItemsDeleted report @ map sID (?f ?imgs), SpaceReclaimed = SpaceReclaimed report\<rparr> (h1 @ [Call_Disk (StoragePath opts)]) =
      (Inr \<lparr>next_image = length images, usage = vu, gc_report = \<lparr>ItemsDeleted = (ItemsDeleted report @ map sID (?f ?imgs)) @
           map sID (?f (drop (n + 1) images)), SpaceReclaimed = SpaceReclaimed report\<rparr>\<rparr>, h')" by auto
    have "drop i images = ?imgs @ drop (n + 1) images"
      using n by (metis append_take_drop_id drop_append diff_is_0_eq' drop_0 le_SucI Suc_eq_plus1 length_take min.absorb2 Suc_leI)
    then have "map sID (?f ?imgs) @ map sID (?f (drop (n + 1) images)) = map sID (?f (drop i images))"
      by (metis filter_append map_append)
    moreover have "image_rounds w opts target images i vu report h =
        image_rounds w opts target images (n + 1) vu
          \<lparr>ItemsDeleted = ItemsDeleted report @ map sID (?f ?imgs), SpaceReclaimed = SpaceReclaimed report\<rparr> (h1 @ [Call_Disk (StoragePath opts)])"
      by (simp only: image_rounds_plain [of w opts target images i] Let_def n(3) minus_one if_False nat_int plain_run [of "loop (remove_image w opts) (ItemsDeleted report) ?imgs", OF del]
            follow_run [of "GetVolumeUsageByPath w (StoragePath opts)", OF usage])
        simp
    ultimately show ?thesis using rest by (cases report) simp
  qed
qed

text \<open>C22: a dry run does not predict what a run would remove: while the usage is above the target it reports every image of werf
  that has a tag or a digest, however few of them would be enough to free the wanted bytes.\<close>

theorem dry_run_reports_all:
  assumes "DryRun opts" "\<And>n h. acquire w n h = Inr True" "\<And>n h. release w n h = Inr ()"
    and "\<And>h. disk_info w (StoragePath opts) h = Inr (tot, avail)"
    and "BytesToFree \<lparr>UsedBytes = tot - avail, TotalBytes = tot\<rparr> target \<noteq> 0"
    and "werfImages w sorter h = (Inr images, h1)"
  shows "\<exists>report h'. cleanupWerfImages w sorter opts \<lparr>UsedBytes = tot - avail, TotalBytes = tot\<rparr> target h = (Inr report, h') \<and>
    ItemsDeleted report = map sID (filter (\<lambda>img. image_refs img \<noteq> []) images)"
proof -
  obtain h' where "image_rounds w opts target images 0 \<lparr>UsedBytes = tot - avail, TotalBytes = tot\<rparr> no_report h1 =
      (Inr \<lparr>next_image = length images, usage = \<lparr>UsedBytes = tot - avail, TotalBytes = tot\<rparr>,
        gc_report = no_report\<lparr>ItemsDeleted := ItemsDeleted no_report @ map sID (filter (\<lambda>img. image_refs img \<noteq> []) (drop 0 images))\<rparr>\<rparr>, h')"
    using dry_rounds [OF assms(1-4) refl assms(5)] by blast
  with assms(6) show ?thesis
    by (auto simp: cleanupWerfImages_def plain_def attempt_def give_def Normalize_def no_report_def)
qed

end
