(* ===== verification/Host_Purge.thy ===== *)
theory Host_Purge
  imports Host_GC_Safety
begin

text \<open>
  \<open>werf host purge\<close>: \<open>src/pkg/host_cleaning/host_purge.go\<close>, \<open>local_purger.go\<close> and the removal of images and containers in
  \<open>images.go\<close> and \<open>containers.go\<close>. The purge of the temporary files (\<open>src/pkg/tmp_manager\<close>) and of the stapel image are calls
  of the host.
\<close>

record CommonOptions =
  RmForce :: bool
  RmiForce :: bool
  SkipUsedImages :: bool
  RmContainersThatUseWerfImages :: bool
  oDryRun :: bool

definition logImageName :: "Summary \<Rightarrow> string" where
  "logImageName img = (case sRepoTags img of [] \<Rightarrow> sID img | tag # _ \<Rightarrow> tag)"

definition logContainerName :: "Container \<Rightarrow> string" where
  "logContainerName c = (case cNames c of [] \<Rightarrow> cID c | name # _ \<Rightarrow> name)"

definition remove_one_container :: "host \<Rightarrow> CommonOptions \<Rightarrow> unit \<Rightarrow> Container \<Rightarrow> unit host_action" where
  "remove_one_container w opts u c =
     (if oDryRun opts then log_lines [logContainerName c]
      else follow (ask_host (Call_Rm (cID c) (RmForce opts)) (rm w (cID c) (RmForce opts))) ''container backend rm'' give)"

definition containersRemove :: "host \<Rightarrow> CommonOptions \<Rightarrow> Container list \<Rightarrow> unit host_action" where
  "containersRemove w opts containers = loop (remove_one_container w opts) () containers"

text \<open>The images that containers use: they are skipped, or their containers are removed, or the purge stops.\<close>

type_synonym used_state = "Summary list \<times> Container list"

definition used_by :: "CommonOptions \<Rightarrow> Container \<Rightarrow> used_state \<Rightarrow> Summary \<Rightarrow> host_error + used_state" where
  "used_by opts c s img =
     (case s of (imagesToExclude, containersToRemove) \<Rightarrow>
        if sID img = cImageID c
        then if SkipUsedImages opts then Inr (imagesToExclude @ [img], containersToRemove)
             else if RmContainersThatUseWerfImages opts then Inr (imagesToExclude, containersToRemove @ [c])
             else Inl (Failed None (''cannot remove image '' @ logImageName img @ '' used by container '' @ logContainerName c))
        else Inr (imagesToExclude, containersToRemove))"

definition used_images :: "CommonOptions \<Rightarrow> Summary list \<Rightarrow> Container list \<Rightarrow> host_error + used_state" where
  "used_images opts images containers =
     fold_res (\<lambda>s c. fold_res (used_by opts c) s images) ([], []) containers"

definition three_hours :: int where "three_hours = 3 * 3600 * 1000000000"

definition exclude_fresh :: "host \<Rightarrow> Summary list \<Rightarrow> Summary \<Rightarrow> Summary list host_action" where
  "exclude_fresh w imagesToExclude img =
     plain (ask_host Call_Now (\<lambda>h. Inr (now w h)))
       (\<lambda>t. give (if t - sCreated img < three_hours then imagesToExclude @ [img] else imagesToExclude))"

definition exceptImage :: "Summary list \<Rightarrow> Summary \<Rightarrow> Summary list" where
  "exceptImage images imageToExclude = filter (\<lambda>img. imageToExclude \<noteq> img) images"

definition ancestor_filters :: "Summary list \<Rightarrow> ContainerFilter list" where
  "ancestor_filters images = map (\<lambda>img. \<lparr>fID = [], fName = [], fAncestor = sID img\<rparr>) images"

definition processUsedImages :: "host \<Rightarrow> CommonOptions \<Rightarrow> Summary list \<Rightarrow> Summary list host_action" where
  "processUsedImages w opts images =
     plain (ask_host (Call_Containers (ancestor_filters images)) (list_containers w (ancestor_filters images))) (\<lambda>containers.
       case used_images opts images containers of
         Inl e \<Rightarrow> give_up e
       | Inr (imagesToExclude, containersToRemove) \<Rightarrow>
           plain (containersRemove w opts containersToRemove) (\<lambda>_.
           plain (loop (exclude_fresh w) imagesToExclude images) (\<lambda>imagesToExclude.
             give (foldl exceptImage images imagesToExclude))))"

definition tag_reference :: "Summary \<Rightarrow> string \<Rightarrow> string" where
  "tag_reference img repoTag =
     (let isDanglingImage = (repoTag = none_tag); isTaglessImage = (\<not> isDanglingImage \<and> HasSuffix repoTag ''<none>'')
      in if isDanglingImage \<or> isTaglessImage then sID img else repoTag)"

definition image_references :: "Summary \<Rightarrow> string list" where
  "image_references img = (if length (sRepoTags img) = 0 then [sID img] else map (tag_reference img) (sRepoTags img))"

definition remove_reference :: "host \<Rightarrow> CommonOptions \<Rightarrow> unit \<Rightarrow> string \<Rightarrow> unit host_action" where
  "remove_reference w opts u ref =
     (if oDryRun opts then log_lines [ref]
      else follow (ask_host (Call_Rmi ref (RmiForce opts)) (rmi w ref (RmiForce opts))) ''container_backend rmi'' give)"

definition imageReferencesRemove :: "host \<Rightarrow> CommonOptions \<Rightarrow> string list \<Rightarrow> unit host_action" where
  "imageReferencesRemove w opts references = loop (remove_reference w opts) () references"

definition imagesRemove :: "host \<Rightarrow> CommonOptions \<Rightarrow> Summary list \<Rightarrow> unit host_action" where
  "imagesRemove w opts images = imageReferencesRemove w opts (concat (map image_references images))"

definition werfImagesFlushByFilterSet :: "host \<Rightarrow> CommonOptions \<Rightarrow> filters \<Rightarrow> unit host_action" where
  "werfImagesFlushByFilterSet w opts fs =
     plain (list_images_by w fs) (\<lambda>images.
     plain (processUsedImages w opts images) (\<lambda>images.
       imagesRemove w opts images))"

definition FlushContainers :: "host \<Rightarrow> CommonOptions \<Rightarrow> unit host_action" where
  "FlushContainers w opts =
     plain (werfContainersByContainersOptions w [name_filter ''werf.stapel.'']) (containersRemove w opts)"

definition flush_filters :: "filters list" where
  "flush_filters = [[label_werf], [(''reference'', ''werf-managed-images/*'')], [(''reference'', ''werf-images-metadata-by-commit/*'')]]"

definition FlushImages :: "host \<Rightarrow> CommonOptions \<Rightarrow> unit host_action" where
  "FlushImages w opts = loop (\<lambda>u fs. werfImagesFlushByFilterSet w opts fs) () flush_filters"

definition PurgeWerfHomeFiles :: "host \<Rightarrow> CommonOptions \<Rightarrow> unit host_action" where
  "PurgeWerfHomeFiles w opts =
     (let pathsToRemove = [serviceDir w, localCacheDir w, sharedContextDir w]
      in plain (log_lines pathsToRemove) (\<lambda>_.
           if oDryRun opts then give ()
           else if windows w
           then loop (\<lambda>u path. follow (ask_host (Call_RemoveAll path) (remove_all w path)) ''os remove_all'' give) () pathsToRemove
           else follow (ask_host (Call_RemoveHostDirs (homeDir w) pathsToRemove) (remove_host_dirs w (homeDir w) pathsToRemove))
                  ''container_backend remove host dirs'' give))"

definition PurgeStapelFiles :: "host \<Rightarrow> CommonOptions \<Rightarrow> unit host_action" where
  "PurgeStapelFiles w opts =
     (if oDryRun opts then give () else follow (ask_host Call_StapelPurge (stapel_purge w)) ''stapel purge'' give)"

definition HostPurge :: "host \<Rightarrow> bool \<Rightarrow> bool \<Rightarrow> unit host_action" where
  "HostPurge w dryRun rmContainers =
     (let opts = \<lparr>RmForce = True, RmiForce = True, SkipUsedImages = False,
                  RmContainersThatUseWerfImages = rmContainers, oDryRun = dryRun\<rparr>
      in plain (FlushContainers w opts) (\<lambda>_.
         plain (FlushImages w opts) (\<lambda>_.
         follow (ask_host (Call_TmpPurge dryRun) (tmp_purge w dryRun)) ''tmp files purge failed'' (\<lambda>_.
         plain (PurgeWerfHomeFiles w opts) (\<lambda>_.
         follow (PurgeStapelFiles w opts) ''stapel delete failed'' give)))))"


subsection \<open>What the purge may do\<close>

definition listed_container :: "host \<Rightarrow> ContainerFilter list \<Rightarrow> Container \<Rightarrow> host_calls \<Rightarrow> bool" where
  "listed_container w fs c h \<longleftrightarrow>
     (\<exists>pre post list. h = pre @ Call_Containers fs # post \<and> list_containers w fs pre = Inr list \<and> c \<in> set list)"

definition removed_container :: "host \<Rightarrow> Container \<Rightarrow> host_calls \<Rightarrow> bool" where
  "removed_container w c h \<longleftrightarrow> (\<exists>pre post. h = pre @ Call_Rm (cID c) True # post \<and> rm w (cID c) True pre = Inr ())"

definition purge_names :: "ContainerFilter list" where
  "purge_names = [name_filter ''werf.stapel.'', name_filter ''werf.build.'', name_filter ''import-server-'']"

definition flushed_image :: "host \<Rightarrow> Summary \<Rightarrow> host_calls \<Rightarrow> bool" where
  "flushed_image w img h \<longleftrightarrow> (\<exists>fs \<in> set flush_filters. listed_image w fs img h)"

text \<open>An answer of the backend about the containers of a list of images with this one, each of which was
  removed since.\<close>

definition unused_image :: "host \<Rightarrow> Summary \<Rightarrow> host_calls \<Rightarrow> bool" where
  "unused_image w img h \<longleftrightarrow>
     (\<exists>images pre post list. img \<in> set images \<and> h = pre @ Call_Containers (ancestor_filters images) # post \<and>
        list_containers w (ancestor_filters images) pre = Inr list \<and>
        (\<forall>c \<in> set list. cImageID c = sID img \<longrightarrow> removed_container w c h))"

definition old_image :: "host \<Rightarrow> Summary \<Rightarrow> host_calls \<Rightarrow> bool" where
  "old_image w img h \<longleftrightarrow> (\<exists>pre post. h = pre @ Call_Now # post \<and> sCreated img + three_hours \<le> now w pre)"

fun purge_call :: "host \<Rightarrow> bool \<Rightarrow> bool \<Rightarrow> host_calls \<Rightarrow> host_call \<Rightarrow> bool" where
  "purge_call w dryRun users h (Call_Rmi ref force) \<longleftrightarrow> \<not> dryRun \<and> force \<and>
     (\<exists>img. flushed_image w img h \<and> unused_image w img h \<and> old_image w img h \<and> ref \<in> set (image_references img))"
| "purge_call w dryRun users h (Call_Rm i force) \<longleftrightarrow> \<not> dryRun \<and> force \<and>
     (\<exists>c. cID c = i \<and> (listed_container w purge_names c h \<or>
        users \<and> (\<exists>images. listed_container w (ancestor_filters images) c h \<and>
          (\<exists>img \<in> set images. flushed_image w img h \<and> sID img = cImageID c))))"
| "purge_call w dryRun users h (Call_PruneImages fs) \<longleftrightarrow> False"
| "purge_call w dryRun users h Call_PruneVolumes \<longleftrightarrow> False"
| "purge_call w dryRun users h (Call_RemoveHostDirs d ds) \<longleftrightarrow>
     \<not> dryRun \<and> d = homeDir w \<and> ds = [serviceDir w, localCacheDir w, sharedContextDir w]"
| "purge_call w dryRun users h (Call_RemoveAll d) \<longleftrightarrow> \<not> dryRun \<and> d \<in> {serviceDir w, localCacheDir w, sharedContextDir w}"
| "purge_call w dryRun users h Call_StapelPurge \<longleftrightarrow> \<not> dryRun"
| "purge_call w dryRun users h (Call_TmpPurge d) \<longleftrightarrow> d = dryRun"
| "purge_call w dryRun users h c \<longleftrightarrow> True"

lemma grows_listed_container: "lasting (listed_container w fs c)"
  by (fastforce simp: lasting_def listed_container_def)

lemma grows_removed_container: "lasting (removed_container w c)"
  by (fastforce simp: lasting_def removed_container_def)

lemma grows_flushed_image: "lasting (flushed_image w img)"
  using grows_listed unfolding lasting_def flushed_image_def by blast

lemma grows_unused_image: "lasting (unused_image w img)"
  unfolding lasting_def
proof (intro allI impI)
  fix h t assume "unused_image w img h"
  then obtain images pre post list where "img \<in> set images" "h = pre @ Call_Containers (ancestor_filters images) # post"
      "list_containers w (ancestor_filters images) pre = Inr list" "\<forall>c \<in> set list. cImageID c = sID img \<longrightarrow> removed_container w c h"
    unfolding unused_image_def by blast
  moreover have "removed_container w c (h @ t)" if "removed_container w c h" for c
    using grows_removed_container that unfolding lasting_def by blast
  ultimately show "unused_image w img (h @ t)"
    unfolding unused_image_def by (intro exI [of _ images] exI [of _ pre] exI [of _ "post @ t"] exI [of _ list]) auto
qed

lemma grows_old_image: "lasting (old_image w img)"
  by (fastforce simp: lasting_def old_image_def)

lemma grows_ball: "(\<And>x. lasting (P x)) \<Longrightarrow> lasting (\<lambda>h. \<forall>x \<in> A. P x h)"
  unfolding lasting_def by blast

abbreviation purge_opts :: "bool \<Rightarrow> bool \<Rightarrow> CommonOptions" where
  "purge_opts dryRun users \<equiv> \<lparr>RmForce = True, RmiForce = True, SkipUsedImages = False,
     RmContainersThatUseWerfImages = users, oDryRun = dryRun\<rparr>"

abbreviation purges :: "host \<Rightarrow> bool \<Rightarrow> bool \<Rightarrow> (host_calls \<Rightarrow> bool) \<Rightarrow> 'a host_action \<Rightarrow> ('a \<Rightarrow> host_calls \<Rightarrow> bool) \<Rightarrow> bool" where
  "purges w dryRun users \<equiv> contract (purge_call w dryRun users)"

lemma purges_log: "purges w d u P (log_lines ls) (\<lambda>_ _. True)"
  unfolding log_lines_def by (rule contract_ask) auto

definition rm_allowed :: "host \<Rightarrow> bool \<Rightarrow> Container \<Rightarrow> host_calls \<Rightarrow> bool" where
  "rm_allowed w users c h \<longleftrightarrow> purge_call w False users h (Call_Rm (cID c) True)"

lemma grows_rm_allowed: "lasting (rm_allowed w users c)"
  using grows_listed_container grows_flushed_image unfolding lasting_def rm_allowed_def purge_call.simps by blast

lemma purges_containersRemove:
  "purges w d u (\<lambda>h. \<forall>c \<in> set cs. rm_allowed w u c h) (containersRemove w (purge_opts d u) cs)
     (\<lambda>_ h. \<not> d \<longrightarrow> (\<forall>c \<in> set cs. removed_container w c h))"
proof (cases d)
  case True
  then have "purges w d u (\<lambda>h. \<forall>c \<in> set cs. rm_allowed w u c h) (remove_one_container w (purge_opts d u) x c) (\<lambda>_ _. True)" for x c
    by (simp add: remove_one_container_def purges_log)
  then have "purges w d u (\<lambda>h. \<forall>c \<in> set cs. rm_allowed w u c h) (containersRemove w (purge_opts d u) cs) (\<lambda>_ _. True)"
    unfolding containersRemove_def by (rule contract_loop) (rule grows_ball, rule grows_rm_allowed)
  with True show ?thesis by simp
next
  case False
  let ?I = "\<lambda>(x::unit) cs1 h. (\<forall>c \<in> set cs1. removed_container w c h)"
  have g: "lasting (\<lambda>h. (\<forall>c \<in> set cs1. removed_container w c h) \<and> (\<forall>c \<in> set cs2. rm_allowed w u c h))" for cs1 cs2
    by (intro grows_conj grows_ball grows_removed_container grows_rm_allowed)
  have "purges w d u (\<lambda>h. (\<forall>c \<in> set cs1. removed_container w c h) \<and> (\<forall>c \<in> set cs2. rm_allowed w u c h))
      (loop (remove_one_container w (purge_opts d u)) x cs2) (\<lambda>_ h. \<forall>c \<in> set (cs1 @ cs2). removed_container w c h)" for cs1 cs2 x
  proof (induction cs2 arbitrary: cs1 x)
    case (Cons c cs2)
    have "purges w d u (rm_allowed w u c) (remove_one_container w (purge_opts d u) x c) (\<lambda>_ h. removed_container w c h)"
    proof -
      have "purges w d u (rm_allowed w u c) (ask_host (Call_Rm (cID c) True) (rm w (cID c) True)) (\<lambda>_ h. removed_container w c h)"
        by (rule contract_ask) (use False in \<open>auto simp: rm_allowed_def removed_container_def\<close>)
      then show ?thesis
        unfolding remove_one_container_def using False by (auto intro: contract_follow_seq contract_give)
    qed
    from contract_frame [OF this g [of cs1 cs2]]
    have "purges w d u (\<lambda>h. (\<forall>c \<in> set cs1. removed_container w c h) \<and> (\<forall>c \<in> set (c # cs2). rm_allowed w u c h))
        (remove_one_container w (purge_opts d u) x c)
        (\<lambda>_ h. (\<forall>c \<in> set (cs1 @ [c]). removed_container w c h) \<and> (\<forall>c \<in> set cs2. rm_allowed w u c h))"
      by (rule contract_weaken) auto
    then show ?case using Cons.IH [of "cs1 @ [c]"] by (auto intro: contract_plain_seq)
  qed (simp add: contract_give)
  from this [of "[]" cs "()"] show ?thesis unfolding containersRemove_def by (rule contract_weaken) simp_all
qed


lemma fold_res_Inr_step: "fold_res f s (x # xs) = Inr s' \<Longrightarrow> \<exists>t. f s x = Inr t \<and> fold_res f t xs = Inr s'"
  by (auto split: sum.splits)

text \<open>Without \<open>SkipUsedImages\<close> the images in use are not excluded, but their containers are to be removed.\<close>

lemma used_by_container:
  "fold_res (used_by (purge_opts d u) c) (ex, rms) images = Inr (ex', rms') \<Longrightarrow>
     ex' = ex \<and> set rms' = set rms \<union> (if \<exists>img \<in> set images. sID img = cImageID c then {c} else {}) \<and>
     ((\<exists>img \<in> set images. sID img = cImageID c) \<longrightarrow> u)"
proof (induction images arbitrary: ex rms)
  case (Cons img images)
  from fold_res_Inr_step [OF Cons.prems] obtain t where
    t: "used_by (purge_opts d u) c (ex, rms) img = Inr t" "fold_res (used_by (purge_opts d u) c) t images = Inr (ex', rms')" by blast
  show ?case
  proof (cases "sID img = cImageID c")
    case True
    with t(1) have "u" "t = (ex, rms @ [c])" by (auto simp: used_by_def split: if_splits)
    with Cons.IH [of ex "rms @ [c]"] t(2) True show ?thesis by auto
  next
    case False
    with t(1) have "t = (ex, rms)" by (simp add: used_by_def)
    with Cons.IH [of ex rms] t(2) False show ?thesis by auto
  qed
qed simp

lemma used_images_result:
  assumes "used_images (purge_opts d u) images cs = Inr (ex, rms)"
  shows "ex = []" and "set rms = {c \<in> set cs. \<exists>img \<in> set images. sID img = cImageID c}" and "rms \<noteq> [] \<longrightarrow> u"
proof -
  have "fold_res (\<lambda>s c. fold_res (used_by (purge_opts d u) c) s images) (ex0, rms0) cs = Inr (ex, rms) \<Longrightarrow>
    ex = ex0 \<and> set rms = set rms0 \<union> {c \<in> set cs. \<exists>img \<in> set images. sID img = cImageID c} \<and>
    ((\<exists>c \<in> set cs. \<exists>img \<in> set images. sID img = cImageID c) \<longrightarrow> u)" for ex0 rms0
  proof (induction cs arbitrary: ex0 rms0)
    case (Cons c cs)
    from fold_res_Inr_step [OF Cons.prems] obtain ex1 rms1 where
      t: "fold_res (used_by (purge_opts d u) c) (ex0, rms0) images = Inr (ex1, rms1)"
         "fold_res (\<lambda>s c. fold_res (used_by (purge_opts d u) c) s images) (ex1, rms1) cs = Inr (ex, rms)" by auto
    from used_by_container [OF t(1)] Cons.IH [OF t(2)] show ?case by auto
  qed simp
  from this [of "[]" "[]"] assms have *: "ex = [] \<and> set rms = {c \<in> set cs. \<exists>img \<in> set images. sID img = cImageID c} \<and>
    ((\<exists>c \<in> set cs. \<exists>img \<in> set images. sID img = cImageID c) \<longrightarrow> u)" by (simp add: used_images_def)
  then show "ex = []" "set rms = {c \<in> set cs. \<exists>img \<in> set images. sID img = cImageID c}" by auto
  from * show "rms \<noteq> [] \<longrightarrow> u" by (cases rms) auto
qed

lemma set_foldl_except: "set (foldl exceptImage images ex) = set images - set ex"
  by (induction ex arbitrary: images) (auto simp: exceptImage_def)

definition fresh_or_old :: "host \<Rightarrow> Summary list \<Rightarrow> Summary list \<Rightarrow> host_calls \<Rightarrow> bool" where
  "fresh_or_old w ex imgs h \<longleftrightarrow> (\<forall>img \<in> set imgs. img \<in> set ex \<or> old_image w img h)"

lemma grows_fresh_or_old: "lasting (fresh_or_old w ex imgs)"
  using grows_old_image unfolding lasting_def fresh_or_old_def by blast

lemma purges_exclude_fresh:
  "purges w d u (\<lambda>h. True) (loop (exclude_fresh w) ex imgs) (\<lambda>ex' h. fresh_or_old w ex' imgs h)"
proof -
  have clock: "purges w d u (\<lambda>h. True) (ask_host Call_Now (\<lambda>h. Inr (now w h)))
      (\<lambda>t h. \<forall>img. \<not> t - sCreated img < three_hours \<longrightarrow> old_image w img h)"
    by (rule contract_ask) (auto simp: old_image_def)
  have "purges w d u (fresh_or_old w ex imgs1) (exclude_fresh w ex img) (\<lambda>ex'. fresh_or_old w ex' (imgs1 @ [img]))" for ex imgs1 img
    unfolding exclude_fresh_def
    by (rule contract_plain [OF clock grows_fresh_or_old], rule contract_give) (auto simp: fresh_or_old_def)
  from contract_loop_inv [where I = "\<lambda>ex imgs h. fresh_or_old w ex imgs h", OF this, where s = ex and done_xs = "[]" and xs = imgs]
  show ?thesis by (rule contract_weaken) (simp_all add: fresh_or_old_def)
qed

lemma purges_list_containers:
  "purges w d u (\<lambda>h. True) (ask_host (Call_Containers fs) (list_containers w fs)) (\<lambda>cs h.
     (\<forall>c \<in> set cs. listed_container w fs c h) \<and>
     (\<exists>pre post. h = pre @ Call_Containers fs # post \<and> list_containers w fs pre = Inr cs))"
  by (rule contract_ask) (auto simp: listed_container_def)


definition asked :: "host \<Rightarrow> Summary list \<Rightarrow> Container list \<Rightarrow> host_calls \<Rightarrow> bool" where
  "asked w images cs h \<longleftrightarrow> (\<exists>pre post. h = pre @ Call_Containers (ancestor_filters images) # post \<and>
     list_containers w (ancestor_filters images) pre = Inr cs)"

lemma grows_asked: "lasting (asked w images cs)"
  by (fastforce simp: lasting_def asked_def)

lemma asked_listed: "asked w images cs h \<Longrightarrow> c \<in> set cs \<Longrightarrow> listed_container w (ancestor_filters images) c h"
  by (auto simp: asked_def listed_container_def)

lemma asked_unused:
  assumes "asked w images cs h" "img \<in> set images" "\<forall>c \<in> set cs. cImageID c = sID img \<longrightarrow> removed_container w c h"
  shows "unused_image w img h"
  using assms unfolding asked_def unused_image_def by blast

lemma purges_processUsedImages:
  "purges w d u (\<lambda>h. \<forall>img \<in> set images. flushed_image w img h) (processUsedImages w (purge_opts d u) images)
     (\<lambda>imgs h. \<forall>img \<in> set imgs. flushed_image w img h \<and> old_image w img h \<and> (\<not> d \<longrightarrow> unused_image w img h))"
  (is "purges _ _ _ ?P _ ?R")
proof -
  have gP: "lasting ?P" by (intro grows_ball grows_flushed_image)
  have rest: "purges w d u (\<lambda>h. asked w images cs h \<and> ?P h)
      (plain (containersRemove w (purge_opts d u) rms) (\<lambda>_.
         plain (loop (exclude_fresh w) ex images) (\<lambda>imagesToExclude. give (foldl exceptImage images imagesToExclude)))) ?R"
    if used: "used_images (purge_opts d u) images cs = Inr (ex, rms)" for cs ex rms
  proof -
    note rms = used_images_result [OF used]
    have "rm_allowed w u c h" if "asked w images cs h" "?P h" "c \<in> set rms" for c h
      using that rms asked_listed [OF that(1)] unfolding rm_allowed_def purge_call.simps by fastforce
    then have "purges w d u (\<lambda>h. (\<forall>c \<in> set rms. rm_allowed w u c h) \<and> (asked w images cs h \<and> ?P h)) (containersRemove w (purge_opts d u) rms)
        (\<lambda>_ h. (\<not> d \<longrightarrow> (\<forall>c \<in> set rms. removed_container w c h)) \<and> (asked w images cs h \<and> ?P h))"
      by (intro contract_frame [OF purges_containersRemove] grows_conj grows_asked gP)
    then have removal: "purges w d u (\<lambda>h. asked w images cs h \<and> ?P h) (containersRemove w (purge_opts d u) rms)
        (\<lambda>_ h. (\<not> d \<longrightarrow> (\<forall>c \<in> set rms. removed_container w c h)) \<and> (asked w images cs h \<and> ?P h))"
      by (rule contract_weaken) (use \<open>\<And>h c. asked w images cs h \<Longrightarrow> ?P h \<Longrightarrow> c \<in> set rms \<Longrightarrow> rm_allowed w u c h\<close> in auto)
    have gS: "lasting (\<lambda>h. (\<not> d \<longrightarrow> (\<forall>c \<in> set rms. removed_container w c h)) \<and> (asked w images cs h \<and> ?P h))"
      using grows_removed_container grows_asked gP unfolding lasting_def by blast
    have final: "?R (foldl exceptImage images ex') h"
      if "fresh_or_old w ex' images h" "\<not> d \<longrightarrow> (\<forall>c \<in> set rms. removed_container w c h)" "asked w images cs h" "?P h" for ex' h
    proof
      fix img assume "img \<in> set (foldl exceptImage images ex')"
      then have img: "img \<in> set images" "img \<notin> set ex'" by (auto simp: set_foldl_except)
      have "unused_image w img h" if "\<not> d"
      proof (rule asked_unused [OF \<open>asked w images cs h\<close> img(1)], intro ballI impI)
        fix c assume "c \<in> set cs" "cImageID c = sID img"
        then have "c \<in> set rms" using rms(2) img(1) by auto
        with \<open>\<not> d \<longrightarrow> (\<forall>c \<in> set rms. removed_container w c h)\<close> that show "removed_container w c h" by blast
      qed
      with img that show "flushed_image w img h \<and> old_image w img h \<and> (\<not> d \<longrightarrow> unused_image w img h)"
        by (auto simp: fresh_or_old_def)
    qed
    show ?thesis
      by (rule contract_plain_seq [OF removal], rule contract_plain [OF purges_exclude_fresh gS], rule contract_give) (use final in blast)
  qed
  have ask: "purges w d u (\<lambda>h. True) (ask_host (Call_Containers (ancestor_filters images)) (list_containers w (ancestor_filters images)))
      (asked w images)"
    by (rule contract_ask) (auto simp: asked_def)
  show ?thesis
    unfolding processUsedImages_def
  proof (rule contract_plain [OF ask gP])
    fix cs
    show "purges w d u (\<lambda>h. asked w images cs h \<and> ?P h)
       (case used_images (purge_opts d u) images cs of Inl e \<Rightarrow> give_up e
        | Inr (ex, rms) \<Rightarrow> plain (containersRemove w (purge_opts d u) rms) (\<lambda>_.
            plain (loop (exclude_fresh w) ex images) (\<lambda>imagesToExclude. give (foldl exceptImage images imagesToExclude)))) ?R"
      using rest [of cs] by (auto split: sum.split intro: contract_give_up)
  qed
qed

lemma purges_imagesRemove:
  "purges w d u (\<lambda>h. \<forall>img \<in> set imgs. flushed_image w img h \<and> old_image w img h \<and> (\<not> d \<longrightarrow> unused_image w img h))
     (imagesRemove w (purge_opts d u) imgs) (\<lambda>_ _. True)"
  (is "purges _ _ _ ?P _ _")
proof -
  have g: "lasting ?P"
    using grows_flushed_image grows_old_image grows_unused_image unfolding lasting_def by blast
  have "purges w d u ?P (remove_reference w (purge_opts d u) x ref) (\<lambda>_ _. True)"
    if "ref \<in> set (concat (map image_references imgs))" for x ref
  proof (cases d)
    case False
    have "purges w d u ?P (ask_host (Call_Rmi ref True) (rmi w ref True)) (\<lambda>_ _. True)"
    proof (rule contract_ask)
      fix h assume "?P h"
      with that False show "purge_call w d u h (Call_Rmi ref True)" by (simp only: purge_call.simps) auto
    qed simp
    then show ?thesis
      unfolding remove_reference_def using False by (auto intro: contract_follow_seq contract_give)
  qed (simp add: remove_reference_def purges_log)
  then show ?thesis
    unfolding imagesRemove_def imageReferencesRemove_def by (intro contract_loop g)
qed

lemma purges_flush_set:
  assumes "fs \<in> set flush_filters"
  shows "purges w d u (\<lambda>h. True) (werfImagesFlushByFilterSet w (purge_opts d u) fs) (\<lambda>_ _. True)"
proof -
  have "purges w d u (\<lambda>h. True) (list_images_by w fs) (\<lambda>imgs h. \<forall>img \<in> set imgs. flushed_image w img h)"
    unfolding list_images_by_def by (rule contract_ask) (auto simp: flushed_image_def intro!: bexI [OF _ assms] listed_now)
  then show ?thesis
    unfolding werfImagesFlushByFilterSet_def
    by (rule contract_plain_seq) (rule contract_plain_seq [OF purges_processUsedImages purges_imagesRemove])
qed

lemma purges_FlushImages: "purges w d u (\<lambda>h. True) (FlushImages w (purge_opts d u)) (\<lambda>_ _. True)"
  unfolding FlushImages_def by (rule contract_loop [OF purges_flush_set]) auto

lemma purges_FlushContainers: "purges w d u (\<lambda>h. True) (FlushContainers w (purge_opts d u)) (\<lambda>_ _. True)"
proof -
  have list: "purges w d u (\<lambda>h. True) (werfContainersByContainersOptions w [name_filter ''werf.stapel.''])
      (\<lambda>cs h. \<forall>c \<in> set cs. rm_allowed w u c h)"
    unfolding werfContainersByContainersOptions_def Let_def
  proof (rule contract_ask)
    fix h cs
    assume "list_containers w ([name_filter ''werf.stapel.''] @ [name_filter ''werf.build.'', name_filter ''import-server-'']) h = Inr cs"
    then have "listed_container w purge_names c (h @ [Call_Containers purge_names])" if "c \<in> set cs" for c
      using that by (auto simp: listed_container_def purge_names_def)
    then show "\<forall>c \<in> set cs. rm_allowed w u c
        (h @ [Call_Containers ([name_filter ''werf.stapel.''] @ [name_filter ''werf.build.'', name_filter ''import-server-''])])"
      unfolding rm_allowed_def purge_call.simps by (auto simp: purge_names_def)
  qed simp
  show ?thesis
    unfolding FlushContainers_def by (rule contract_plain_seq [OF list]) (rule contract_any [OF purges_containersRemove])
qed

lemma purges_step:
  assumes "\<And>h. purge_call w d u h c"
  shows "purges w d u (\<lambda>h. True) (follow (ask_host c f) msg give) (\<lambda>_ _. True)"
  by (rule contract_follow_seq [OF contract_ask [where Q = "\<lambda>_ _. True"] contract_give]) (simp_all add: assms)

lemma purges_home: "purges w d u (\<lambda>h. True) (PurgeWerfHomeFiles w (purge_opts d u)) (\<lambda>_ _. True)"
proof -
  have "purges w False u (\<lambda>h. True)
      (loop (\<lambda>x path. follow (ask_host (Call_RemoveAll path) (remove_all w path)) ''os remove_all'' give) ()
        [serviceDir w, localCacheDir w, sharedContextDir w]) (\<lambda>_ _. True)"
    by (rule contract_loop) (auto intro!: purges_step)
  then show ?thesis
    unfolding PurgeWerfHomeFiles_def Let_def
    by (intro contract_plain_seq [OF purges_log]) (auto intro!: contract_give purges_step)
qed

lemma purges_stapel: "purges w d u (\<lambda>h. True) (PurgeStapelFiles w (purge_opts d u)) (\<lambda>_ _. True)"
  unfolding PurgeStapelFiles_def by (auto intro!: contract_give purges_step)

lemma purges_HostPurge: "purges w d u (\<lambda>h. True) (HostPurge w d u) (\<lambda>_ _. True)"
proof -
  have tmp: "purges w d u (\<lambda>h. True) (ask_host (Call_TmpPurge d) (tmp_purge w d)) (\<lambda>_ _. True)"
    by (rule contract_ask) simp_all
  show ?thesis
    unfolding HostPurge_def Let_def
    by (rule contract_plain_seq [OF purges_FlushContainers], rule contract_plain_seq [OF purges_FlushImages],
        rule contract_follow_seq [OF tmp], rule contract_plain_seq [OF purges_home],
        rule contract_follow_seq [OF purges_stapel], rule contract_give) simp
qed

text \<open>C18: whatever the backend answers and at whatever point it fails, the purge of the host removes an image only by a reference of an image that the
  backend listed by one of the three filters of the purge, at least three hours after the image was created, and after every container that the backend
  listed for the image was removed; it removes a container only if it was listed by the names of werf's containers or, when asked to, if it uses such an
  image; it removes no directory but the three of werf's home; and in a dry run it removes nothing.\<close>

theorem HostPurge_removes_only:
  assumes "HostPurge w dryRun rmContainers h = (r, h')"
  shows "\<exists>t. h' = h @ t \<and> justified (purge_call w dryRun rmContainers) h t"
  using contractE [OF purges_HostPurge [of w dryRun rmContainers], where h = h] assms by (metis Pair_inject)

end
