(* ===== verification/Host_Examples.thy ===== *)
theory Host_Examples
  imports Host_GC_Runs Host_Purge
begin

text \<open>
  A small host: a volume of 100 bytes of which 80 are used, one container of werf, and two images, of which the older one takes
  30 bytes and the other one is locked. The properties of the garbage collection are applied to it.
\<close>

definition img_a :: Summary where
  "img_a = \<lparr>sID = ''ida'', sRepoTags = [''a:1''], sRepoDigests = [], sLabels = [(''werf'', ''p'')], sCreated = 3, sSize = 30\<rparr>"

definition img_b :: Summary where
  "img_b = \<lparr>sID = ''idb'', sRepoTags = [''b:1''], sRepoDigests = [], sLabels = [(''werf'', ''p'')], sCreated = 2, sSize = 20\<rparr>"

definition demo_host :: host where
  "demo_host = \<lparr>backendName = ''docker'', homeDir = ''/h'', serviceDir = ''/h/s'', localCacheDir = ''/h/c'', sharedContextDir = ''/h/x'',
     windows = False, info = \<lambda>h. Inr ''/d'', stat = \<lambda>p h. Inr (),
     disk_info = \<lambda>p h. Inr (100, if Call_Rmi ''a:1'' False \<in> set h then 50 else 20),
     now = \<lambda>h. 100, last_run = \<lambda>h. Inr 5, lru_record = \<lambda>ref h. Inr (if ref = ''b:1'' then Some 9 else None),
     list_images = \<lambda>fs h. Inr (if fs = [DanglingFalse, label_werf] then [img_b, img_a] else []),
     list_containers = \<lambda>fs h. Inr [\<lparr>cID = ''c1'', cImageID = ''ida'', cNames = [''/werf.build.x'']\<rparr>],
     acquire = \<lambda>n h. Inr (n \<noteq> ''image.b:1''), release = \<lambda>n h. Inr (),
     rmi = \<lambda>r f h. Inr (), rm = \<lambda>r f h. Inr (), prune_images = \<lambda>fs h. Inr no_report, prune_volumes = \<lambda>h. Inr no_report,
     remove_host_dirs = \<lambda>d ds h. Inr (), remove_all = \<lambda>p h. Inr (), stapel_purge = \<lambda>h. Inr (), tmp_purge = \<lambda>d h. Inr ()\<rparr>"

definition demo_gc :: RunGCOptions where
  "demo_gc = \<lparr>AllowedStorageVolumeUsagePercentage = 70, AllowedStorageVolumeUsageMarginPercentage = 5,
     StoragePath = [], Force = False, DryRun = False\<rparr>"

definition demo_sorter :: image_sorter where
  "demo_sorter = sort_key"

lemma demo_sorter_ok: "image_sorter_ok demo_sorter"
  by (simp add: image_sorter_ok_def demo_sorter_def)

lemma demo_run: "(case RunGC demo_host demo_sorter demo_gc [] of (r, h) \<Rightarrow> r = Inr () \<and> rmi_refs h = [''a:1''])"
  by code_simp

lemma RunGC_removes_only_witness:
  "\<exists>t. RunGC demo_host demo_sorter demo_gc [] = (Inr (), t) \<and> justified (gc_call demo_host demo_gc) [] t \<and> rmi_refs t = [''a:1'']"
proof -
  obtain r t where run: "RunGC demo_host demo_sorter demo_gc [] = (r, t)" by (cases "RunGC demo_host demo_sorter demo_gc []")
  then have "r = Inr () \<and> rmi_refs t = [''a:1'']" using demo_run by simp
  with RunGC_removes_only [OF demo_sorter_ok run] run show ?thesis by auto
qed

lemma countImagesToFree_least_witness:
  "\<exists>n < length [img_a, img_b]. countImagesToFree [img_a, img_b] (int 0) 15 = int n \<and> 0 \<le> n \<and>
    (\<forall>k. 0 \<le> k \<and> k \<le> n \<longrightarrow> size_sum [img_a, img_b] 0 k < unat (15 :: 64 word)) \<and>
    (n = length [img_a, img_b] - 1 \<or> unat (15 :: 64 word) \<le> size_sum [img_a, img_b] 0 (n + 1))"
  by (rule countImagesToFree_least) (simp_all add: size_sum_def size_of_def img_a_def img_b_def)

definition demo_usage :: VolumeUsage where
  "demo_usage = \<lparr>UsedBytes = 80, TotalBytes = 100\<rparr>"

lemma demo_cleanup:
  "(case cleanupWerfImages demo_host demo_sorter (demo_gc\<lparr>StoragePath := ''/d''\<rparr>) demo_usage 65 [] of
      (Inr report, h) \<Rightarrow> ItemsDeleted report = [''ida''] \<and> SpaceReclaimed report = 30
    | (Inl e, h) \<Rightarrow> False)"
  by code_simp

lemma cleanupWerfImages_lru_witness:
  "\<exists>report h' k vu'. cleanupWerfImages demo_host demo_sorter (demo_gc\<lparr>StoragePath := ''/d''\<rparr>) demo_usage 65 [] = (Inr report, h') \<and>
     ItemsDeleted report = [''ida''] \<and> measured demo_host ''/d'' vu' h' \<and> UsedBytes vu' = 50 \<and> 0 < (k::nat)"
proof -
  let ?run = "cleanupWerfImages demo_host demo_sorter (demo_gc\<lparr>StoragePath := ''/d''\<rparr>) demo_usage 65 []"
  obtain report h' where run: "?run = (Inr report, h')" and items: "ItemsDeleted report = [''ida'']" "SpaceReclaimed report = 30"
    using demo_cleanup by (cases ?run) (auto split: sum.splits)
  have sized: "TotalBytes demo_usage \<noteq> 0" "volumes_sized demo_host" by (auto simp: demo_usage_def volumes_sized_def demo_host_def)
  obtain images k vu' where res:
      "reported demo_host (demo_gc\<lparr>StoragePath := ''/d''\<rparr>) (take k images) (ItemsDeleted report) h'"
      "k = 0 \<and> vu' = demo_usage \<or> measured demo_host ''/d'' vu' h'"
      "ItemsDeleted report = [] \<or> SpaceReclaimed report = UsedBytes demo_usage - UsedBytes vu'"
    using cleanupWerfImages_lru [OF demo_sorter_ok _ sized run] by auto
  have "k \<noteq> 0" using res(1) items(1) by (intro notI) (simp add: reported_def)
  moreover have "UsedBytes vu' = 50" using res(3) items by (simp add: demo_usage_def algebra_simps)
  ultimately show ?thesis using run items res(2) by auto
qed

definition dry_host :: host where
  "dry_host = demo_host\<lparr>disk_info := \<lambda>p h. Inr (100, 20), acquire := \<lambda>n h. Inr True\<rparr>"

lemma dry_images: "(case werfImages dry_host demo_sorter [] of (Inr images, h) \<Rightarrow> images = [img_a, img_b] | (Inl e, h) \<Rightarrow> False)"
  by code_simp

lemma dry_bytes: "BytesToFree \<lparr>UsedBytes = 100 - 20, TotalBytes = 100\<rparr> 65 = 15"
  by code_simp

text \<open>15 bytes are wanted and the first image has 30, but the dry run reports both images.\<close>

lemma dry_run_reports_all_witness:
  "\<exists>report h'. cleanupWerfImages dry_host demo_sorter (demo_gc\<lparr>DryRun := True\<rparr>) \<lparr>UsedBytes = 100 - 20, TotalBytes = 100\<rparr> 65 [] = (Inr report, h') \<and>
     ItemsDeleted report = [''ida'', ''idb'']"
proof -
  obtain h1 where imgs: "werfImages dry_host demo_sorter [] = (Inr [img_a, img_b], h1)"
    using dry_images by (cases "werfImages dry_host demo_sorter []") (auto split: sum.splits)
  have "BytesToFree \<lparr>UsedBytes = 100 - 20, TotalBytes = 100\<rparr> 65 \<noteq> 0" unfolding dry_bytes by simp
  from dry_run_reports_all [OF _ _ _ _ this imgs, of "demo_gc\<lparr>DryRun := True\<rparr>"] show ?thesis
    by (simp add: dry_host_def demo_host_def image_refs_def img_a_def img_b_def)
qed


definition four_hours :: int where "four_hours = 4 * 3600 * 1000000000"

definition purge_host :: host where
  "purge_host = demo_host\<lparr>list_images := \<lambda>fs h. Inr (if fs = [label_werf] then [img_a] else []),
     list_containers := \<lambda>fs h. Inr (if fs = ancestor_filters [img_a] then [\<lparr>cID = ''c1'', cImageID = ''ida'', cNames = [''/app'']\<rparr>] else []),
     now := \<lambda>h. four_hours\<rparr>"

lemma purge_run:
  "(case HostPurge purge_host False True [] of (r, h) \<Rightarrow> r = Inr () \<and> rmi_refs h = [''a:1''] \<and> Call_Rm ''c1'' True \<in> set h)"
  by code_simp

lemma HostPurge_removes_only_witness:
  "\<exists>t. HostPurge purge_host False True [] = (Inr (), t) \<and> justified (purge_call purge_host False True) [] t \<and>
     rmi_refs t = [''a:1''] \<and> Call_Rm ''c1'' True \<in> set t"
proof -
  obtain r t where run: "HostPurge purge_host False True [] = (r, t)" by (cases "HostPurge purge_host False True []")
  then have "r = Inr () \<and> rmi_refs t = [''a:1''] \<and> Call_Rm ''c1'' True \<in> set t" using purge_run by simp
  with HostPurge_removes_only [OF run] run show ?thesis by auto
qed

text \<open>The containers of an image go before its age is looked at: those of a fresh image are removed, and the image is kept.\<close>

lemma fresh_image_loses_containers:
  "(case HostPurge (purge_host\<lparr>now := \<lambda>h. 5\<rparr>) False True [] of (r, h) \<Rightarrow> r = Inr () \<and> rmi_refs h = [] \<and> Call_Rm ''c1'' True \<in> set h)"
  by code_simp

end
