(* ===== verification/Stage_Selection.thy ===== *)
theory Stage_Selection
  imports Registry
begin

text \<open>
  How a stage is identified and found again: the digest of a stage (\<open>calculateDigest\<close> of \<open>src/pkg/build/build_phase.go\<close>), the
  commits recorded in the labels of a stage (\<open>src/pkg/build/stage/git_mapping.go\<close>), and the selection of a suitable stage among those with
  the digest (\<open>src/pkg/build/stage/base.go\<close>, \<open>git.go\<close>, \<open>user_with_git_patch.go\<close> and \<open>SelectSuitableStageDesc\<close> of
  \<open>src/pkg/storage/manager/storage_manager.go\<close>).

  The hash functions of another repository, the answers of Git and \<open>sort.Slice\<close>, which need not be stable, are
  parameters. A set of descriptions is a list without repetition.
\<close>

subsection \<open>The digest of a stage\<close>

record digest_options =
  TargetPlatform :: string
  BaseImage :: string

record prev_stage =
  prev_name :: string
  prev_digest :: string
  prev_dependencies :: "go_error + string"

definition BuildCacheVersion :: string where "BuildCacheVersion = ''1.2''"

definition platform_args :: "string \<Rightarrow> string list" where
  "platform_args platform = (if platform \<noteq> [] \<and> platform \<noteq> ''linux/amd64'' then [platform] else [])"

definition base_args :: "string \<Rightarrow> string list" where
  "base_args baseImage = (if baseImage \<noteq> [] then [baseImage] else [])"

definition checksum_args :: "string \<Rightarrow> string \<Rightarrow> prev_stage option \<Rightarrow> digest_options \<Rightarrow> go_error + string list" where
  "checksum_args stageName stageDependencies prevNonEmptyStage opts =
     (let args = platform_args (TargetPlatform opts) @ [BuildCacheVersion, stageName, stageDependencies]
      in case prevNonEmptyStage of
           None \<Rightarrow> Inr (args @ base_args (BaseImage opts))
         | Some prev \<Rightarrow>
             (case prev_dependencies prev of
                Inl e \<Rightarrow> Inl (wrap (''unable to get prev stage '' @ prev_name prev @ '' dependencies for the stage '' @ stageName) e)
              | Inr prevStageDependencies \<Rightarrow>
                  Inr (args @ [prev_digest prev, prevStageDependencies] @ base_args (BaseImage opts))))"

definition calculateDigest ::
  "(string list \<Rightarrow> string) \<Rightarrow> string \<Rightarrow> string \<Rightarrow> prev_stage option \<Rightarrow> digest_options \<Rightarrow> go_error + string" where
  "calculateDigest Sha3_224Hash stageName stageDependencies prevNonEmptyStage opts =
     map_sum id Sha3_224Hash (checksum_args stageName stageDependencies prevNonEmptyStage opts)"

text \<open>What a digest is made of; the platform \<open>linux/amd64\<close> and no platform are the same.\<close>

definition digest_source ::
  "string \<Rightarrow> string \<Rightarrow> prev_stage option \<Rightarrow> digest_options \<Rightarrow> string list \<times> string \<times> string \<times> (string \<times> (go_error + string)) option \<times> string" where
  "digest_source stageName stageDependencies prev opts =
     (platform_args (TargetPlatform opts), stageName, stageDependencies,
      map_option (\<lambda>p. (prev_digest p, prev_dependencies p)) prev, BaseImage opts)"

lemma checksum_args_inj:
  assumes a: "checksum_args n d prev opts = Inr xs" "checksum_args n' d' prev' opts' = Inr xs"
    and platforms: "TargetPlatform opts \<noteq> BuildCacheVersion" "TargetPlatform opts' \<noteq> BuildCacheVersion"
  shows "digest_source n d prev opts = digest_source n' d' prev' opts'"
proof -
  obtain t where t: "xs = platform_args (TargetPlatform opts) @ BuildCacheVersion # n # d # t"
      "t = (case prev of None \<Rightarrow> [] | Some p \<Rightarrow> [prev_digest p, projr (prev_dependencies p)]) @ base_args (BaseImage opts)"
      "\<forall>p. prev = Some p \<longrightarrow> (\<exists>s. prev_dependencies p = Inr s)"
    using a(1) by (auto simp: checksum_args_def Let_def split: option.splits sum.splits)
  obtain t' where t': "xs = platform_args (TargetPlatform opts') @ BuildCacheVersion # n' # d' # t'"
      "t' = (case prev' of None \<Rightarrow> [] | Some p \<Rightarrow> [prev_digest p, projr (prev_dependencies p)]) @ base_args (BaseImage opts')"
      "\<forall>p. prev' = Some p \<longrightarrow> (\<exists>s. prev_dependencies p = Inr s)"
    using a(2) by (auto simp: checksum_args_def Let_def split: option.splits sum.splits)
  have head: "platform_args (TargetPlatform opts) = platform_args (TargetPlatform opts')" "n = n'" "d = d'" "t = t'"
    using t(1) t'(1) platforms by (auto simp: platform_args_def split: if_splits)
  then have "(case prev of None \<Rightarrow> [] | Some p \<Rightarrow> [prev_digest p, projr (prev_dependencies p)]) @ base_args (BaseImage opts) =
      (case prev' of None \<Rightarrow> [] | Some p \<Rightarrow> [prev_digest p, projr (prev_dependencies p)]) @ base_args (BaseImage opts')"
    using t(2) t'(2) by simp
  then have "BaseImage opts = BaseImage opts' \<and>
      map_option (\<lambda>p. (prev_digest p, prev_dependencies p)) prev = map_option (\<lambda>p. (prev_digest p, prev_dependencies p)) prev'"
    using t(3) t'(3) by (auto simp: base_args_def split: option.splits if_splits)
  with head show ?thesis by (simp add: digest_source_def)
qed

text \<open>C5: the digest of a stage identifies what the stage is made from. Two stages have the same digest
  only if they have the same platform, name and dependencies, the same previous stage with the same dependencies for the next one (or
  both have none), and the same base image, or else their two lists of arguments are a collision of the hash; the optional parts of the
  hashed list cannot be taken for one another.\<close>

theorem calculateDigest_identifies:
  assumes "TargetPlatform opts \<noteq> BuildCacheVersion" "TargetPlatform opts' \<noteq> BuildCacheVersion"
    and "calculateDigest Sha3_224Hash n d prev opts = Inr digest" "calculateDigest Sha3_224Hash n' d' prev' opts' = Inr digest"
  shows "digest_source n d prev opts = digest_source n' d' prev' opts' \<or>
    (\<exists>xs ys. checksum_args n d prev opts = Inr xs \<and> checksum_args n' d' prev' opts' = Inr ys \<and> xs \<noteq> ys \<and> Sha3_224Hash xs = Sha3_224Hash ys)"
proof -
  from assms(3) obtain xs where xs: "checksum_args n d prev opts = Inr xs" "digest = Sha3_224Hash xs"
    unfolding calculateDigest_def by (cases "checksum_args n d prev opts") auto
  from assms(4) obtain ys where ys: "checksum_args n' d' prev' opts' = Inr ys" "digest = Sha3_224Hash ys"
    unfolding calculateDigest_def by (cases "checksum_args n' d' prev' opts'") auto
  show ?thesis
  proof (cases "xs = ys")
    case True
    with xs ys checksum_args_inj assms(1,2) show ?thesis by blast
  qed (use xs ys in auto)
qed

text \<open>A hash without collisions, for an example.\<close>

definition plain_hash :: "string list \<Rightarrow> string" where
  "plain_hash xs = concat (map (\<lambda>x. concat (map (\<lambda>c. [CHR ''.'', c]) x) @ ''|'') xs)"

lemma plain_hash_inj: "plain_hash xs = plain_hash ys \<Longrightarrow> xs = ys"
proof (induction xs arbitrary: ys)
  case Nil
  then show ?case by (cases ys) (auto simp: plain_hash_def)
next
  case (Cons x xs)
  have split: "concat (map (\<lambda>c. [CHR ''.'', c]) x) @ CHR ''|'' # r = concat (map (\<lambda>c. [CHR ''.'', c]) y) @ CHR ''|'' # s \<Longrightarrow> x = y \<and> r = s" for y r s
    by (induction x arbitrary: y) (case_tac [!] y, auto)
  from Cons.prems obtain y ys' where ys: "ys = y # ys'" by (cases ys) (auto simp: plain_hash_def)
  with Cons.prems split [of "plain_hash xs" y "plain_hash ys'"] have "x = y" "plain_hash xs = plain_hash ys'" by (simp_all add: plain_hash_def)
  with Cons.IH ys show ?case by simp
qed

definition amd_options :: digest_options where
  "amd_options = \<lparr>TargetPlatform = ''linux/amd64'', BaseImage = ''alpine''\<rparr>"

lemma calculateDigest_identifies_witness:
  "digest_source ''from'' ''x'' None amd_options = digest_source ''from'' ''x'' None (amd_options\<lparr>TargetPlatform := []\<rparr>)"
  using calculateDigest_identifies [where Sha3_224Hash = plain_hash and n = "''from''" and d = "''x''" and prev = None and opts = amd_options
    and n' = "''from''" and d' = "''x''" and prev' = None and opts' = "amd_options\<lparr>TargetPlatform := []\<rparr>"
    and digest = "plain_hash [BuildCacheVersion, ''from'', ''x'', ''alpine'']"] plain_hash_inj
  by (auto simp: amd_options_def calculateDigest_def checksum_args_def platform_args_def base_args_def BuildCacheVersion_def)

subsection \<open>Commits in the labels\<close>

record ImageCommitInfo =
  Commit :: string
  VirtualMerge :: bool
  VirtualMergeFromCommit :: string
  VirtualMergeIntoCommit :: string

record git_mapping =
  gmName :: string
  Paramshash :: string
  GitRepo :: string
  LatestCommitInfo :: "go_error + ImageCommitInfo"
  commit_exists :: "string \<Rightarrow> go_error + bool"
  is_ancestor :: "string \<Rightarrow> string \<Rightarrow> go_error + bool"

definition ImageGitCommitLabel :: "git_mapping \<Rightarrow> string" where
  "ImageGitCommitLabel gm = ''werf-git-'' @ Paramshash gm @ ''-commit''"

definition VirtualMergeLabel :: "git_mapping \<Rightarrow> string" where
  "VirtualMergeLabel gm = ''werf-git-'' @ Paramshash gm @ ''-virtual-merge''"

definition VirtualMergeFromCommitLabel :: "git_mapping \<Rightarrow> string" where
  "VirtualMergeFromCommitLabel gm = ''werf-git-'' @ Paramshash gm @ ''-virtual-merge-from-commit''"

definition VirtualMergeIntoCommitLabel :: "git_mapping \<Rightarrow> string" where
  "VirtualMergeIntoCommitLabel gm = ''werf-git-'' @ Paramshash gm @ ''-virtual-merge-into-commit''"

definition need_label :: "labels \<Rightarrow> string \<Rightarrow> go_error + string" where
  "need_label ls label =
     (case map_of ls label of
        None \<Rightarrow> Inl (Err (''invalid image: not found commit id by label \"'' @ label @ ''\"''))
      | Some commit \<Rightarrow> Inr commit)"

definition GetBuiltImageCommitInfo :: "git_mapping \<Rightarrow> labels \<Rightarrow> go_error + ImageCommitInfo" where
  "GetBuiltImageCommitInfo gm ls =
     (let virtualMerge = (map_of ls (VirtualMergeLabel gm) = Some ''true'')
      in case (if virtualMerge then need_label ls (VirtualMergeFromCommitLabel gm) else Inr []) of
           Inl e \<Rightarrow> Inl e
         | Inr fromCommit \<Rightarrow>
             (case (if virtualMerge then need_label ls (VirtualMergeIntoCommitLabel gm) else Inr []) of
                Inl e \<Rightarrow> Inl e
              | Inr intoCommit \<Rightarrow>
                  map_sum id (\<lambda>commit. \<lparr>Commit = commit, VirtualMerge = virtualMerge,
                      VirtualMergeFromCommit = fromCommit, VirtualMergeIntoCommit = intoCommit\<rparr>)
                    (need_label ls (ImageGitCommitLabel gm))))"

subsection \<open>The selection of a stage\<close>

type_synonym desc_sorter = "(StageDesc \<Rightarrow> int) \<Rightarrow> StageDesc list \<Rightarrow> StageDesc list"

definition desc_sorter_ok :: "desc_sorter \<Rightarrow> bool" where
  "desc_sorter_ok srt \<longleftrightarrow> (\<forall>key xs. mset (srt key xs) = mset xs \<and> sorted (map key (srt key xs)))"

definition sortStageDescSetByOldestCreationTs :: "desc_sorter \<Rightarrow> StageDesc list \<Rightarrow> StageDesc list" where
  "sortStageDescSetByOldestCreationTs srt descs = srt (\<lambda>d. CreationTsToTime (desc_id d)) descs"

definition selectStageDescByOldestCreationTs :: "desc_sorter \<Rightarrow> StageDesc list \<Rightarrow> StageDesc option" where
  "selectStageDescByOldestCreationTs srt descs =
     (case sortStageDescSetByOldestCreationTs srt descs of [] \<Rightarrow> None | d # _ \<Rightarrow> Some d)"

definition commit_to_check :: "ImageCommitInfo \<Rightarrow> string" where
  "commit_to_check info = (if VirtualMerge info then VirtualMergeFromCommit info else Commit info)"

fun current_commits :: "git_mapping list \<Rightarrow> go_error + string list" where
  "current_commits [] = Inr []"
| "current_commits (gm # gms) =
     (case LatestCommitInfo gm of
        Inl e \<Rightarrow> Inl (wrap (''error getting latest commit of git mapping '' @ gmName gm) e)
      | Inr info \<Rightarrow> map_sum id ((#) (commit_to_check info)) (current_commits gms))"

definition is_built_from_ancestor :: "labels \<Rightarrow> git_mapping \<Rightarrow> string \<Rightarrow> go_error + bool" where
  "is_built_from_ancestor ls gm currentCommit =
     (case GetBuiltImageCommitInfo gm ls of
        Inl e \<Rightarrow> Inr False
      | Inr imageCommitInfo \<Rightarrow>
          (let commit = commit_to_check imageCommitInfo
           in case commit_exists gm commit of
                Inl e \<Rightarrow> Inl (wrap (''error checking if commit '' @ commit @ '' exists'') e)
              | Inr False \<Rightarrow> Inr False
              | Inr True \<Rightarrow>
                  (case is_ancestor gm commit currentCommit of
                     Inl e \<Rightarrow> Inl (wrap (''error checking commits ancestry '' @ commit @ ''<-'' @ currentCommit) e)
                   | Inr isOurAncestor \<Rightarrow> Inr isOurAncestor)))"

fun built_from_ancestors :: "labels \<Rightarrow> (git_mapping \<times> string) list \<Rightarrow> go_error + bool" where
  "built_from_ancestors ls [] = Inr True"
| "built_from_ancestors ls ((gm, currentCommit) # rest) =
     (case is_built_from_ancestor ls gm currentCommit of
        Inl e \<Rightarrow> Inl e
      | Inr False \<Rightarrow> Inr False
      | Inr True \<Rightarrow> built_from_ancestors ls rest)"

fun scan_stages :: "(git_mapping \<times> string) list \<Rightarrow> StageDesc list \<Rightarrow> go_error + StageDesc option" where
  "scan_stages gms [] = Inr None"
| "scan_stages gms (d # ds) =
     (case built_from_ancestors (iLabels (desc_info d)) gms of
        Inl e \<Rightarrow> Inl e
      | Inr True \<Rightarrow> Inr (Some d)
      | Inr False \<Rightarrow> scan_stages gms ds)"

definition selectAncestorStageDescByGitMappings :: "desc_sorter \<Rightarrow> git_mapping list \<Rightarrow> StageDesc list \<Rightarrow> go_error + StageDesc option" where
  "selectAncestorStageDescByGitMappings srt gitMappings descs =
     (case current_commits gitMappings of
        Inl e \<Rightarrow> Inl e
      | Inr commits \<Rightarrow> scan_stages (zip gitMappings commits) (sortStageDescSetByOldestCreationTs srt descs))"

text \<open>A stage of Git and a user stage with a patch select by their git mappings, the others take the oldest stage.\<close>

datatype stage_kind = Base_stage | Git_stage | User_with_git_patch

definition stage_SelectSuitableStageDesc ::
  "desc_sorter \<Rightarrow> stage_kind \<Rightarrow> git_mapping list \<Rightarrow> StageDesc list \<Rightarrow> go_error + StageDesc option" where
  "stage_SelectSuitableStageDesc srt kind gitMappings descs =
     (case kind of
        Base_stage \<Rightarrow> Inr (selectStageDescByOldestCreationTs srt descs)
      | Git_stage \<Rightarrow> selectAncestorStageDescByGitMappings srt gitMappings descs
      | User_with_git_patch \<Rightarrow>
          if length gitMappings \<noteq> 0 then selectAncestorStageDescByGitMappings srt gitMappings descs
          else Inr (selectStageDescByOldestCreationTs srt descs))"

definition SelectSuitableStageDesc ::
  "desc_sorter \<Rightarrow> stage_kind \<Rightarrow> git_mapping list \<Rightarrow> StageDesc list \<Rightarrow> go_error + StageDesc option" where
  "SelectSuitableStageDesc srt kind gitMappings descs =
     (if descs = [] then Inr None else stage_SelectSuitableStageDesc srt kind gitMappings descs)"


subsection \<open>What is selected\<close>

text \<open>The stage was built from a commit that exists and is an ancestor of the current one.\<close>

definition from_ancestor :: "labels \<Rightarrow> git_mapping \<Rightarrow> string \<Rightarrow> bool" where
  "from_ancestor ls gm currentCommit \<longleftrightarrow>
     (\<exists>info. GetBuiltImageCommitInfo gm ls = Inr info \<and> commit_exists gm (commit_to_check info) = Inr True \<and>
        is_ancestor gm (commit_to_check info) currentCommit = Inr True)"

lemma is_built_from_ancestor_True: "is_built_from_ancestor ls gm c = Inr True \<longleftrightarrow> from_ancestor ls gm c"
  by (auto simp: is_built_from_ancestor_def from_ancestor_def Let_def split: sum.splits bool.splits)

definition all_ancestors :: "(git_mapping \<times> string) list \<Rightarrow> labels \<Rightarrow> bool" where
  "all_ancestors gcs ls \<longleftrightarrow> (\<forall>(gm, c) \<in> set gcs. from_ancestor ls gm c)"

lemma built_from_ancestors_True:
  "built_from_ancestors ls gcs = Inr True \<Longrightarrow> all_ancestors gcs ls"
  by (induction ls gcs rule: built_from_ancestors.induct)
    (auto split: sum.splits bool.splits simp: is_built_from_ancestor_True all_ancestors_def)

lemma built_from_ancestors_False:
  "built_from_ancestors ls gcs = Inr False \<Longrightarrow> \<not> all_ancestors gcs ls"
proof (induction ls gcs rule: built_from_ancestors.induct)
  case (2 ls gm c rest)
  show ?case
  proof (cases "from_ancestor ls gm c")
    case True
    then have "is_built_from_ancestor ls gm c = Inr True" by (simp add: is_built_from_ancestor_True)
    with 2 show ?thesis by (auto simp: all_ancestors_def)
  qed (auto simp: all_ancestors_def)
qed simp

lemma scan_stages_result:
  assumes "scan_stages gcs ds = Inr r"
  shows "case r of
      None \<Rightarrow> \<forall>d \<in> set ds. \<not> all_ancestors gcs (iLabels (desc_info d))
    | Some d \<Rightarrow> all_ancestors gcs (iLabels (desc_info d)) \<and>
        (\<exists>us vs. ds = us @ d # vs \<and> (\<forall>d' \<in> set us. \<not> all_ancestors gcs (iLabels (desc_info d'))))"
  using assms
proof (induction ds)
  case (Cons d ds)
  show ?case
  proof (cases "built_from_ancestors (iLabels (desc_info d)) gcs")
    case (Inr b)
    show ?thesis
    proof (cases b)
      case True
      with Cons.prems Inr have "r = Some d" by simp
      moreover have "all_ancestors gcs (iLabels (desc_info d))"
        using built_from_ancestors_True [of "iLabels (desc_info d)" gcs] Inr True by auto
      moreover have "d # ds = [] @ d # ds" by simp
      ultimately show ?thesis by (simp only: option.case) (metis empty_iff empty_set)
    next
      case False
      with Cons.prems Inr have "scan_stages gcs ds = Inr r" by simp
      note IH = Cons.IH [OF this]
      have d: "\<not> all_ancestors gcs (iLabels (desc_info d))"
        using built_from_ancestors_False [of "iLabels (desc_info d)" gcs] Inr False by auto
      show ?thesis
      proof (cases r)
        case (Some x)
        with IH obtain us vs where "ds = us @ x # vs" "\<forall>d' \<in> set us. \<not> all_ancestors gcs (iLabels (desc_info d'))"
            "all_ancestors gcs (iLabels (desc_info x))" by auto
        then have "d # ds = (d # us) @ x # vs \<and> (\<forall>d' \<in> set (d # us). \<not> all_ancestors gcs (iLabels (desc_info d')))"
          using d by simp
        then show ?thesis using Some \<open>all_ancestors gcs (iLabels (desc_info x))\<close> by (simp only: option.case) blast
      qed (use IH d in auto)
    qed
  qed (use Cons.prems in simp)
qed simp

lemma sorted_oldest:
  assumes "desc_sorter_ok srt" "sortStageDescSetByOldestCreationTs srt ds = us @ d # vs"
  shows "d \<in> set ds" and "set us \<union> insert d (set vs) = set ds"
    and "d' \<in> set ds \<Longrightarrow> CreationTs (desc_id d') < CreationTs (desc_id d) \<Longrightarrow> d' \<in> set us"
proof -
  let ?key = "\<lambda>d. CreationTsToTime (desc_id d)"
  have "mset (us @ d # vs) = mset ds" "sorted (map ?key (us @ d # vs))"
    using assms unfolding desc_sorter_ok_def sortStageDescSetByOldestCreationTs_def by metis+
  note ms = this
  from ms(1) have set: "set (us @ d # vs) = set ds" by (metis set_mset_mset)
  from ms(2) have later: "\<forall>x \<in> set vs. ?key d \<le> ?key x" by (simp add: sorted_append)
  from set show "d \<in> set ds" "set us \<union> insert d (set vs) = set ds" by auto
  assume "d' \<in> set ds" "CreationTs (desc_id d') < CreationTs (desc_id d)"
  then have "?key d' < ?key d" by (simp add: CreationTsToTime_order)
  moreover have "d' \<in> set us \<union> insert d (set vs)" using \<open>d' \<in> set ds\<close> set by auto
  ultimately show "d' \<in> set us" using later by fastforce
qed

text \<open>C14: the selection by git mappings takes the oldest stage that was built, in every mapping, from an existing ancestor of the current
  commit (for a virtual merge, of the merged one): it only takes such a stage, it passes over an older one only if that is not such a stage, and it takes none
  only if there is none.\<close>

theorem selectAncestor_oldest:
  assumes "desc_sorter_ok srt" "selectAncestorStageDescByGitMappings srt gms ds = Inr r"
  shows "\<exists>commits. current_commits gms = Inr commits \<and>
    (case r of
       None \<Rightarrow> \<forall>d \<in> set ds. \<not> all_ancestors (zip gms commits) (iLabels (desc_info d))
     | Some d \<Rightarrow> d \<in> set ds \<and> all_ancestors (zip gms commits) (iLabels (desc_info d)) \<and>
         (\<forall>d' \<in> set ds. CreationTs (desc_id d') < CreationTs (desc_id d) \<longrightarrow>
            (\<not> all_ancestors (zip gms commits) (iLabels (desc_info d')))))"
proof -
  from assms(2) obtain commits where c: "current_commits gms = Inr commits"
      and scan: "scan_stages (zip gms commits) (sortStageDescSetByOldestCreationTs srt ds) = Inr r"
    by (auto simp: selectAncestorStageDescByGitMappings_def split: sum.splits)
  note res = scan_stages_result [OF scan]
  show ?thesis
  proof (cases r)
    case None
    have "set (sortStageDescSetByOldestCreationTs srt ds) = set ds"
      using assms(1) unfolding desc_sorter_ok_def sortStageDescSetByOldestCreationTs_def by (metis set_mset_mset)
    with None c res show ?thesis by auto
  next
    case (Some d)
    with res obtain us vs where uv: "sortStageDescSetByOldestCreationTs srt ds = us @ d # vs"
        "\<forall>d' \<in> set us. \<not> all_ancestors (zip gms commits) (iLabels (desc_info d'))" by auto
    note old = sorted_oldest [OF assms(1) uv(1)]
    from Some c res old(1) old(3) uv(2) show ?thesis by auto
  qed
qed

lemma selectOldest_min:
  assumes "desc_sorter_ok srt" "selectStageDescByOldestCreationTs srt ds = Some d"
  shows "d \<in> set ds \<and> (\<forall>d' \<in> set ds. CreationTs (desc_id d) \<le> CreationTs (desc_id d'))"
proof -
  from assms(2) obtain vs where "sortStageDescSetByOldestCreationTs srt ds = [] @ d # vs"
    by (auto simp: selectStageDescByOldestCreationTs_def split: list.splits)
  note old = sorted_oldest [OF assms(1) this]
  have "CreationTs (desc_id d) \<le> CreationTs (desc_id d')" if "d' \<in> set ds" for d'
    using old(3) [OF that] by (cases "CreationTs (desc_id d') < CreationTs (desc_id d)") simp_all
  with old(1) show ?thesis by blast
qed


subsection \<open>Example\<close>

text \<open>Of three stages the oldest was built from a commit of another branch; the second one is taken.\<close>

definition master_mapping :: git_mapping where
  "master_mapping = \<lparr>gmName = ''app'', Paramshash = ''ab'', GitRepo = ''own'',
     LatestCommitInfo = Inr \<lparr>Commit = ''c3'', VirtualMerge = False, VirtualMergeFromCommit = [], VirtualMergeIntoCommit = []\<rparr>,
     commit_exists = \<lambda>c. Inr True, is_ancestor = \<lambda>c d. Inr (c \<in> {''c1'', ''c2''} \<and> d = ''c3'')\<rparr>"

definition stage_from :: "nat \<Rightarrow> int \<Rightarrow> string \<Rightarrow> StageDesc" where
  "stage_from n ts commit = \<lparr>desc_addr = n, desc_id = NewStageID ''dg'' ts,
     desc_info = Info [] [] [] [] [] [] [] [] [(''werf-git-ab-commit'', commit)] 0 0 [] False []\<rparr>"

lemma sort_key_desc_ok: "desc_sorter_ok sort_key"
  by (simp add: desc_sorter_ok_def)

lemma select_demo:
  "selectAncestorStageDescByGitMappings sort_key [master_mapping] [stage_from 1 9 ''c2'', stage_from 2 5 ''x'', stage_from 3 7 ''c1''] =
     Inr (Some (stage_from 3 7 ''c1''))"
  by code_simp

lemma selectAncestor_oldest_witness:
  "all_ancestors [(master_mapping, ''c3'')] (iLabels (desc_info (stage_from 3 7 ''c1''))) \<and>
   \<not> all_ancestors [(master_mapping, ''c3'')] (iLabels (desc_info (stage_from 2 5 ''x'')))"
  using selectAncestor_oldest [OF sort_key_desc_ok select_demo]
  by (auto simp: master_mapping_def commit_to_check_def stage_from_def NewStageID_def)

end
