(* ===== verification/Build_Publish.thy ===== *)
theory Build_Publish
  imports Stage_Selection Stage_Tags
begin

text \<open>
  The publishing of a built stage by concurrent builders: \<open>calculateStage\<close>, \<open>onImageStage\<close> and \<open>atomicBuildStageImage\<close> of
  \<open>src/pkg/build/build_phase.go\<close> as far as the shared storage is concerned, with the lookups \<open>GetStageDescSetByDigest\<close> and
  \<open>GetStageDescSetByDigestWithCache\<close> and \<open>GenerateStageDescCreationTs\<close> of \<open>src/pkg/storage/manager/storage_manager.go\<close> and the lock of
  \<open>src/pkg/storage/synchronization/lock_manager/generic.go\<close>.

  Several processes build the stage of one digest on the same parent stage. The shared state is the list of the tags
  of the repo and the lock of the digest. Each builder first looks for a stage, in the cached tags and
  then in the repo; if there is none it builds one, takes the lock, looks again, and either discards what it has built or stores it
  under a new timestamp. Every step that reads or writes the shared state is one step of the
  relation, so the theorems hold for every interleaving. Other processes add tags of other digests and other
  records at any time; the cleanup and the rejection of stages are not running. A description is available for every stage with a tag.

  The set \<open>unsynced\<close> has the builders that run with \<open>WERF_DISABLE_PUBLISH_TAG_CACHE_SYNC=1\<close>: they do not look again under the lock and always
  store what they have built.

  Which stages a builder takes is the parameter \<open>accepts\<close> (all of them for most stages, those from an ancestor of the current commit for
  the stages of Git); a builder accepts what it has built itself. The clock of a builder may be wrong, but it is not behind the timestamp of the parent stage.
\<close>

subsection \<open>Lookup\<close>

text \<open>\<open>GetStageDescSetByDigest\<close> and \<open>SelectSuitableStageDesc\<close>: the oldest of the suitable stages.\<close>

fun oldest :: "StageID list \<Rightarrow> StageID option" where
  "oldest [] = None"
| "oldest (i # ids) =
     (case oldest ids of None \<Rightarrow> Some i | Some j \<Rightarrow> if CreationTs j < CreationTs i then Some j else Some i)"

definition GetStageDescSetByDigest :: "string \<Rightarrow> int \<Rightarrow> string list \<Rightarrow> StageID list" where
  "GetStageDescSetByDigest digest parentStageCreationTs repo_tags =
     (case ids_by_digest digest parentStageCreationTs repo_tags of Inl e \<Rightarrow> [] | Inr ids \<Rightarrow> ids)"

text \<open>The identifiers of the tags that were listed never fail (\<open>ids_by_digest_result\<close>), so no error is lost here; a failing listing ends the builder, by
  the steps \<open>build_error\<close> and \<open>store_error\<close>.\<close>

definition GetStageDescSetByDigestWithCache :: "string \<Rightarrow> int \<Rightarrow> string list \<Rightarrow> string list \<Rightarrow> StageID list" where
  "GetStageDescSetByDigestWithCache digest parentStageCreationTs cachedTags tags =
     (let cachedStageDescSet = GetStageDescSetByDigest digest parentStageCreationTs cachedTags
      in if cachedStageDescSet \<noteq> [] then cachedStageDescSet
         else GetStageDescSetByDigest digest parentStageCreationTs tags)"

text \<open>The lookup under the lock; a builder that does not synchronize takes an empty set.\<close>

definition publish_set :: "bool \<Rightarrow> string \<Rightarrow> int \<Rightarrow> string list \<Rightarrow> StageID list" where
  "publish_set sync_disabled digest parentStageCreationTs repo_tags =
     (if sync_disabled then [] else GetStageDescSetByDigest digest parentStageCreationTs repo_tags)"

definition suitable :: "(StageID \<Rightarrow> bool) \<Rightarrow> StageID list \<Rightarrow> StageID option" where
  "suitable accepts ids = oldest (filter accepts ids)"

subsection \<open>Builders\<close>

datatype builder =
    Starting
  | Not_found
  | Image_built
  | Lock_held
  | Nothing_there int
  | Stored int
  | Finished StageID
  | Failed_build

record publishing =
  tags :: "string list"
  stage_lock :: "nat option"
  builders :: "nat \<Rightarrow> builder"

abbreviation goto :: "nat \<Rightarrow> builder \<Rightarrow> publishing \<Rightarrow> publishing" where
  "goto b pc s \<equiv> s\<lparr>builders := (builders s)(b := pc)\<rparr>"

abbreviation unlocked_by :: "nat \<Rightarrow> builder \<Rightarrow> publishing \<Rightarrow> publishing" where
  "unlocked_by b pc s \<equiv> (goto b pc s)\<lparr>stage_lock := None\<rparr>"

text \<open>A tag that says nothing about the stages of the digest and rejects no stage.\<close>

definition foreign_tag :: "string \<Rightarrow> string \<Rightarrow> bool" where
  "foreign_tag digest tag \<longleftrightarrow> digest_ts digest [tag] = {} \<and> rejected_ts [tag] = {}"

inductive build_step :: "string \<Rightarrow> int \<Rightarrow> (StageID \<Rightarrow> bool) \<Rightarrow> nat set \<Rightarrow> publishing \<Rightarrow> publishing \<Rightarrow> bool"
  for digest parentTs accepts unsynced where
  found: "builders s b = Starting \<Longrightarrow> set cached \<subseteq> set (tags s) \<Longrightarrow> rejected_ts cached = rejected_ts (tags s) \<Longrightarrow>
    suitable accepts (GetStageDescSetByDigestWithCache digest parentTs cached (tags s)) = Some i \<Longrightarrow>
    build_step digest parentTs accepts unsynced s (goto b (Finished i) s)"
| missing: "builders s b = Starting \<Longrightarrow> set cached \<subseteq> set (tags s) \<Longrightarrow> rejected_ts cached = rejected_ts (tags s) \<Longrightarrow>
    suitable accepts (GetStageDescSetByDigestWithCache digest parentTs cached (tags s)) = None \<Longrightarrow>
    build_step digest parentTs accepts unsynced s (goto b Not_found s)"
| build: "builders s b = Not_found \<Longrightarrow> build_step digest parentTs accepts unsynced s (goto b Image_built s)"
| build_error: "builders s b = Not_found \<or> builders s b = Starting \<or> builders s b = Image_built \<Longrightarrow>
    build_step digest parentTs accepts unsynced s (goto b Failed_build s)"
| lock: "builders s b = Image_built \<Longrightarrow> stage_lock s = None \<Longrightarrow>
    build_step digest parentTs accepts unsynced s ((goto b Lock_held s)\<lparr>stage_lock := Some b\<rparr>)"
| discard: "builders s b = Lock_held \<Longrightarrow> suitable accepts (publish_set (b \<in> unsynced) digest parentTs (tags s)) = Some i \<Longrightarrow>
    build_step digest parentTs accepts unsynced s (unlocked_by b (Finished i) s)"
| generate: "builders s b = Lock_held \<Longrightarrow> suitable accepts (publish_set (b \<in> unsynced) digest parentTs (tags s)) = None \<Longrightarrow>
    stage_ok digest ts \<Longrightarrow> parentTs \<le> ts \<Longrightarrow> ts \<notin> rejected_ts (tags s) \<Longrightarrow> accepts (NewStageID digest ts) \<Longrightarrow>
    build_step digest parentTs accepts unsynced s (goto b (Nothing_there ts) s)"
| store: "builders s b = Nothing_there ts \<Longrightarrow>
    build_step digest parentTs accepts unsynced s ((goto b (Stored ts) s)\<lparr>tags := tags s @ [stage_tag digest ts]\<rparr>)"
| finish: "builders s b = Stored ts \<Longrightarrow>
    build_step digest parentTs accepts unsynced s (unlocked_by b (Finished (NewStageID digest ts)) s)"
| store_error: "builders s b = Lock_held \<or> builders s b = Nothing_there ts \<or> builders s b = Stored ts \<Longrightarrow>
    build_step digest parentTs accepts unsynced s (unlocked_by b Failed_build s)"
| others: "foreign_tag digest tag \<Longrightarrow> build_step digest parentTs accepts unsynced s (s\<lparr>tags := tags s @ [tag]\<rparr>)"

inductive_cases build_stepE: "build_step digest parentTs accepts unsynced s s'"

definition start :: "string list \<Rightarrow> publishing" where
  "start repo_tags = \<lparr>tags = repo_tags, stage_lock = None, builders = (\<lambda>_. Starting)\<rparr>"

abbreviation build_run :: "string \<Rightarrow> int \<Rightarrow> (StageID \<Rightarrow> bool) \<Rightarrow> nat set \<Rightarrow> string list \<Rightarrow> publishing \<Rightarrow> bool" where
  "build_run digest parentTs accepts unsynced repo_tags s \<equiv> (build_step digest parentTs accepts unsynced)\<^sup>*\<^sup>* (start repo_tags) s"

text \<open>The timestamps of the stages that are suitable for the builders.\<close>

definition suitable_ts :: "string \<Rightarrow> int \<Rightarrow> (StageID \<Rightarrow> bool) \<Rightarrow> string list \<Rightarrow> int set" where
  "suitable_ts digest parentTs accepts repo =
     {ts \<in> digest_ts digest repo. parentTs \<le> ts \<and> ts \<notin> rejected_ts repo \<and> accepts (NewStageID digest ts)}"

lemma oldest_None: "oldest ids = None \<longleftrightarrow> ids = []"
  by (cases ids) (auto split: option.splits)

lemma oldest_Some: "oldest ids = Some i \<Longrightarrow> i \<in> set ids \<and> (\<forall>j \<in> set ids. CreationTs i \<le> CreationTs j)"
proof (induction ids arbitrary: i)
  case (Cons x ids)
  then show ?case by (cases "oldest ids") (fastforce simp: oldest_None split: if_splits)+
qed simp

lemma lookup_set:
  "set (filter accepts (GetStageDescSetByDigest digest p repo)) = NewStageID digest ` suitable_ts digest p accepts repo"
  using ids_by_digest_result [of digest p repo] by (auto simp: GetStageDescSetByDigest_def suitable_ts_def)

lemma lookup_missing:
  "suitable accepts (GetStageDescSetByDigest digest p repo) = None \<longleftrightarrow> suitable_ts digest p accepts repo = {}"
  using lookup_set [of accepts digest p repo] by (metis image_is_empty oldest_None set_empty suitable_def)

lemma lookup_found:
  assumes "suitable accepts (GetStageDescSetByDigest digest p repo) = Some i"
  shows "i \<in> NewStageID digest ` suitable_ts digest p accepts repo"
  using oldest_Some [OF assms [unfolded suitable_def]] lookup_set [of accepts digest p repo] by blast


subsection \<open>The invariant\<close>

definition critical :: "builder \<Rightarrow> bool" where
  "critical pc \<longleftrightarrow> (case pc of Lock_held \<Rightarrow> True | Nothing_there _ \<Rightarrow> True | Stored _ \<Rightarrow> True | _ \<Rightarrow> False)"

lemma critical_simps [simp]:
  "\<not> critical Starting" "\<not> critical Not_found" "\<not> critical Image_built" "critical Lock_held" "critical (Nothing_there ts)"
  "critical (Stored ts)" "\<not> critical (Finished i)" "\<not> critical Failed_build"
  by (simp_all add: critical_def)

text \<open>What a builder knows at each of its steps.\<close>

fun knows :: "bool \<Rightarrow> string \<Rightarrow> int \<Rightarrow> (StageID \<Rightarrow> bool) \<Rightarrow> string list \<Rightarrow> builder \<Rightarrow> bool" where
  "knows sync digest p accepts repo (Nothing_there ts) \<longleftrightarrow> (sync \<longrightarrow> suitable_ts digest p accepts repo = {}) \<and>
     stage_ok digest ts \<and> p \<le> ts \<and> ts \<notin> rejected_ts repo \<and> accepts (NewStageID digest ts)"
| "knows sync digest p accepts repo (Stored ts) \<longleftrightarrow> ts \<in> suitable_ts digest p accepts repo"
| "knows sync digest p accepts repo (Finished i) \<longleftrightarrow> i \<in> NewStageID digest ` suitable_ts digest p accepts repo"
| "knows sync digest p accepts repo _ \<longleftrightarrow> True"

definition publish_inv :: "bool \<Rightarrow> string \<Rightarrow> int \<Rightarrow> (StageID \<Rightarrow> bool) \<Rightarrow> string list \<Rightarrow> publishing \<Rightarrow> bool" where
  "publish_inv sync digest p accepts repo s \<longleftrightarrow>
     (\<forall>b. critical (builders s b) \<longleftrightarrow> stage_lock s = Some b) \<and>
     rejected_ts (tags s) = rejected_ts repo \<and>
     suitable_ts digest p accepts repo \<subseteq> suitable_ts digest p accepts (tags s) \<and>
     (sync \<longrightarrow> (if suitable_ts digest p accepts repo \<noteq> {} then suitable_ts digest p accepts (tags s) = suitable_ts digest p accepts repo
      else \<exists>ts. suitable_ts digest p accepts (tags s) \<subseteq> {ts})) \<and>
     (\<forall>b. knows sync digest p accepts (tags s) (builders s b))"

lemma suitable_foreign: "foreign_tag digest tag \<Longrightarrow> suitable_ts digest p accepts (repo @ [tag]) = suitable_ts digest p accepts repo"
  by (auto simp: suitable_ts_def foreign_tag_def)

lemma suitable_store:
  "stage_ok digest ts \<Longrightarrow> p \<le> ts \<Longrightarrow> ts \<notin> rejected_ts repo \<Longrightarrow> accepts (NewStageID digest ts) \<Longrightarrow>
   suitable_ts digest p accepts (repo @ [stage_tag digest ts]) = insert ts (suitable_ts digest p accepts repo)"
  by (auto simp: suitable_ts_def stage_tag_ts)

lemma suitable_subset:
  "set cached \<subseteq> set repo \<Longrightarrow> rejected_ts cached = rejected_ts repo \<Longrightarrow>
   suitable_ts digest p accepts cached \<subseteq> suitable_ts digest p accepts repo"
  by (auto simp: suitable_ts_def digest_ts_def)

lemma cached_lookup_found:
  assumes "suitable accepts (GetStageDescSetByDigestWithCache digest p cached repo) = Some i"
    and "set cached \<subseteq> set repo" "rejected_ts cached = rejected_ts repo"
  shows "i \<in> NewStageID digest ` suitable_ts digest p accepts repo"
  using assms(1) lookup_found [of accepts digest p cached i] lookup_found [of accepts digest p repo i]
    suitable_subset [OF assms(2,3), of digest p accepts]
  by (auto simp: GetStageDescSetByDigestWithCache_def Let_def split: if_split_asm)

lemma publish_lookup_found:
  assumes "suitable accepts (publish_set d digest p repo) = Some i"
  shows "i \<in> NewStageID digest ` suitable_ts digest p accepts repo" and "\<not> d"
  using assms lookup_found [of accepts digest p repo i]
  by (cases d, auto simp: publish_set_def suitable_def oldest_None)

lemma publish_lookup_missing:
  "suitable accepts (publish_set d digest p repo) = None \<longleftrightarrow> d \<or> suitable_ts digest p accepts repo = {}"
  using lookup_missing [of accepts digest p repo] by (auto simp: publish_set_def suitable_def)

lemma publish_inv_start: "publish_inv sync digest p accepts repo (start repo)"
  by (auto simp: publish_inv_def start_def)

lemma inv_goto:
  assumes "publish_inv sync digest p accepts repo s" "critical pc \<longleftrightarrow> critical (builders s b)" "knows sync digest p accepts (tags s) pc"
  shows "publish_inv sync digest p accepts repo (goto b pc s)"
  using assms by (auto simp: publish_inv_def)

lemma inv_unlock:
  assumes "publish_inv sync digest p accepts repo s" "critical (builders s b)" "\<not> critical pc" "knows sync digest p accepts (tags s) pc"
  shows "publish_inv sync digest p accepts repo (unlocked_by b pc s)"
  using assms by (auto simp: publish_inv_def)

lemma inv_store:
  assumes inv: "publish_inv sync digest p accepts repo s" and pc: "builders s b = Nothing_there ts"
  shows "publish_inv sync digest p accepts repo ((goto b (Stored ts) s)\<lparr>tags := tags s @ [stage_tag digest ts]\<rparr>)"
proof -
  let ?T = "suitable_ts digest p accepts"
  have lock: "critical (builders s c) \<longleftrightarrow> stage_lock s = Some c" for c using inv by (simp add: publish_inv_def)
  have knows: "knows sync digest p accepts (tags s) (builders s c)" for c using inv by (simp add: publish_inv_def)
  from knows [of b] pc have new: "sync \<longrightarrow> ?T (tags s) = {}" "stage_ok digest ts" "p \<le> ts" "ts \<notin> rejected_ts (tags s)"
    "accepts (NewStageID digest ts)" by auto
  have T: "?T (tags s @ [stage_tag digest ts]) = insert ts (?T (tags s))" using suitable_store [of digest ts p "tags s" accepts] new by simp
  have rej: "rejected_ts (tags s @ [stage_tag digest ts]) = rejected_ts (tags s)" using stage_tag_ts(2) [OF new(2)] by simp
  have other: "knows sync digest p accepts (tags s @ [stage_tag digest ts]) (builders s c)" if "c \<noteq> b" for c
  proof -
    have "\<not> critical (builders s c)" using that lock [of b] lock [of c] pc by auto
    then show ?thesis using knows [of c] by (cases "builders s c") (auto simp: T)
  qed
  have empty: "sync \<longrightarrow> ?T repo = {}" using inv new(1) by (auto simp: publish_inv_def)
  show ?thesis
    unfolding publish_inv_def
    using inv T rej other lock lock [of b] pc empty new(1) by (auto simp: publish_inv_def)
qed

lemma publish_inv_step:
  assumes "build_step digest p accepts unsynced s s'" "publish_inv (unsynced = {}) digest p accepts repo s"
  shows "publish_inv (unsynced = {}) digest p accepts repo s'"
  using assms
proof (induction rule: build_step.induct)
  case (found s b cached i)
  then show ?case using cached_lookup_found [OF found(4,2,3)] by (auto intro: inv_goto)
next
  case (lock s b)
  then show ?case by (auto simp: publish_inv_def)
next
  case (discard s b i)
  then show ?case using publish_lookup_found(1) [OF discard(2)] by (auto intro: inv_unlock)
next
  case (generate s b ts)
  then show ?case using publish_lookup_missing [of accepts "b \<in> unsynced" digest p "tags s"] by (auto intro: inv_goto)
next
  case (store s b ts)
  then show ?case by (auto intro: inv_store)
next
  case (finish s b ts)
  moreover have "knows (unsynced = {}) digest p accepts (tags s) (Stored ts)" using finish by (metis publish_inv_def)
  ultimately show ?case by (auto intro: inv_unlock)
next
  case (others tag s)
  have T: "suitable_ts digest p accepts (tags s @ [tag]) = suitable_ts digest p accepts (tags s)" using suitable_foreign [OF others(1)] .
  have rej: "rejected_ts (tags s @ [tag]) = rejected_ts (tags s)" using others(1) by (simp add: foreign_tag_def)
  have "knows sync digest p accepts (tags s @ [tag]) pc = knows sync digest p accepts (tags s) pc" for sync pc
    by (cases pc) (simp_all only: knows.simps T rej)
  with others T rej show ?case by (simp add: publish_inv_def)
qed (auto intro: inv_goto inv_unlock)

lemma publish_inv_run: "build_run digest p accepts unsynced repo s \<Longrightarrow> publish_inv (unsynced = {}) digest p accepts repo s"
  by (induction rule: rtranclp_induct) (auto intro: publish_inv_start publish_inv_step)

text \<open>C4: however the builders of a digest interleave, and whatever else is pushed to the repo, at most one of them is between its check
  under the lock and the end of its publishing, no suitable stage is lost, and every builder that has finished holds a suitable stage of the repo.
  When no builder disables the synchronization, they store at most one new stage, and none when the repo already has a suitable one; if
  moreover the repo had at most one suitable stage at the start, all finished builders hold the same one, so an image is the same whoever built it.
  (With two suitable stages at the start the builders may take different ones, since the cached tags of a builder may lack one of them.)\<close>

theorem one_stage_per_digest:
  assumes "build_run digest parentTs accepts unsynced repo_tags s"
  shows "(\<forall>b b'. critical (builders s b) \<and> critical (builders s b') \<longrightarrow> b = b') \<and>
    suitable_ts digest parentTs accepts repo_tags \<subseteq> suitable_ts digest parentTs accepts (tags s) \<and>
    (\<forall>b i. builders s b = Finished i \<longrightarrow> i \<in> NewStageID digest ` suitable_ts digest parentTs accepts (tags s)) \<and>
    (unsynced = {} \<longrightarrow>
      (suitable_ts digest parentTs accepts repo_tags \<noteq> {} \<longrightarrow>
         suitable_ts digest parentTs accepts (tags s) = suitable_ts digest parentTs accepts repo_tags) \<and>
      (suitable_ts digest parentTs accepts repo_tags = {} \<longrightarrow> (\<exists>ts. suitable_ts digest parentTs accepts (tags s) \<subseteq> {ts})) \<and>
      ((\<exists>ts. suitable_ts digest parentTs accepts repo_tags \<subseteq> {ts}) \<longrightarrow>
         (\<forall>b b' i j. builders s b = Finished i \<and> builders s b' = Finished j \<longrightarrow> i = j)))"
proof -
  let ?T = "suitable_ts digest parentTs accepts"
  note inv = publish_inv_run [OF assms]
  have lock: "b = b'" if "critical (builders s b)" "critical (builders s b')" for b b'
    using inv that by (auto simp: publish_inv_def)
  have keep: "?T repo_tags \<subseteq> ?T (tags s)" using inv by (simp add: publish_inv_def)
  have fin: "i \<in> NewStageID digest ` ?T (tags s)" if "builders s b = Finished i" for b i
    using inv that unfolding publish_inv_def by (metis knows.simps(3))
  have none: "?T (tags s) = ?T repo_tags" if "unsynced = {}" "?T repo_tags \<noteq> {}" using inv that by (simp add: publish_inv_def)
  have one: "\<exists>ts. ?T (tags s) \<subseteq> {ts}" if "unsynced = {}" "?T repo_tags = {}" using inv that by (simp add: publish_inv_def)
  have same: "i = j" if "unsynced = {}" "\<exists>ts. ?T repo_tags \<subseteq> {ts}" "builders s b = Finished i" "builders s b' = Finished j" for b b' i j
  proof -
    have "\<exists>ts. ?T (tags s) \<subseteq> {ts}" using none one that(1,2) by metis
    with fin [OF that(3)] fin [OF that(4)] show ?thesis by auto
  qed
  show ?thesis using lock keep fin none one same by blast
qed


subsection \<open>Progress\<close>

fun steps_left :: "builder \<Rightarrow> nat" where
  "steps_left Starting = 6"
| "steps_left Not_found = 5"
| "steps_left Image_built = 4"
| "steps_left Lock_held = 3"
| "steps_left (Nothing_there ts) = 2"
| "steps_left (Stored ts) = 1"
| "steps_left (Finished i) = 0"
| "steps_left Failed_build = 0"

text \<open>A step of the builder \<open>c\<close> towards its end, which no other builder takes part in.\<close>

definition advances :: "nat \<Rightarrow> publishing \<Rightarrow> publishing \<Rightarrow> bool" where
  "advances c s s' \<longleftrightarrow> steps_left (builders s' c) < steps_left (builders s c) \<and> builders s' c \<noteq> Failed_build \<and>
     (\<forall>c'. c' \<noteq> c \<longrightarrow> builders s' c' = builders s c')"

lemma critical_advances:
  assumes "critical (builders s c)" and clock: "stage_ok digest ts" "p \<le> ts" "ts \<notin> rejected_ts (tags s)" "accepts (NewStageID digest ts)"
  shows "\<exists>s'. build_step digest p accepts unsynced s s' \<and> advances c s s'"
proof (cases "builders s c")
  case Lock_held
  show ?thesis
  proof (cases "suitable accepts (publish_set (c \<in> unsynced) digest p (tags s))")
    case None
    show ?thesis
      by (intro exI conjI, rule build_step.generate [OF Lock_held None clock]) (simp add: advances_def Lock_held)
  next
    case (Some i)
    show ?thesis
      by (intro exI conjI, rule build_step.discard [OF Lock_held Some]) (simp add: advances_def Lock_held)
  qed
next
  case (Nothing_there u)
  show ?thesis by (intro exI conjI, rule build_step.store [OF Nothing_there]) (simp add: advances_def Nothing_there)
next
  case (Stored u)
  show ?thesis by (intro exI conjI, rule build_step.finish [OF Stored]) (simp add: advances_def Stored)
qed (use assms(1) in simp_all)

lemma free_advances:
  assumes "\<not> critical (builders s b)" "steps_left (builders s b) > 0" and free: "stage_lock s = None"
  shows "\<exists>s'. build_step digest p accepts unsynced s s' \<and> advances b s s'"
proof (cases "builders s b")
  case Starting
  show ?thesis
  proof (cases "suitable accepts (GetStageDescSetByDigestWithCache digest p (tags s) (tags s))")
    case None
    show ?thesis
      by (intro exI conjI, rule build_step.missing [OF Starting subset_refl refl None]) (simp add: advances_def Starting)
  next
    case (Some i)
    show ?thesis
      by (intro exI conjI, rule build_step.found [OF Starting subset_refl refl Some]) (simp add: advances_def Starting)
  qed
next
  case Not_found
  show ?thesis by (intro exI conjI, rule build_step.build [OF Not_found]) (simp add: advances_def Not_found)
next
  case Image_built
  show ?thesis by (intro exI conjI, rule build_step.lock [OF Image_built free]) (simp add: advances_def Image_built)
qed (use assms(1,2) in simp_all)

text \<open>A builder that the lock does not keep out runs to its end, and leaves the lock free when it held it.\<close>

lemma runs_to_end:
  assumes "publish_inv (unsynced = {}) digest p accepts repo s" and "stage_lock s = None \<or> stage_lock s = Some b"
    and "builders s b \<noteq> Failed_build"
    and clock: "stage_ok digest ts" "p \<le> ts" "ts \<notin> rejected_ts repo" "accepts (NewStageID digest ts)"
  shows "\<exists>n \<le> steps_left (builders s b). \<exists>s' i. (build_step digest p accepts unsynced ^^ n) s s' \<and> builders s' b = Finished i \<and>
    stage_lock s' = None \<and> (\<forall>c. c \<noteq> b \<longrightarrow> builders s' c = builders s c)"
  using assms(1-3)
proof (induction "steps_left (builders s b)" arbitrary: s rule: less_induct)
  case less
  note inv = less.prems(1)
  have lock: "critical (builders s c) \<longleftrightarrow> stage_lock s = Some c" for c using inv by (simp add: publish_inv_def)
  show ?case
  proof (cases "steps_left (builders s b) = 0")
    case True
    with less.prems(3) obtain i where i: "builders s b = Finished i" by (cases "builders s b") auto
    with lock [of b] less.prems(2) have "stage_lock s = None" by auto
    with i show ?thesis by (intro exI [of _ 0] conjI exI [of _ s] exI [of _ i]) auto
  next
    case False
    have rej: "ts \<notin> rejected_ts (tags s)" using inv clock(3) by (simp add: publish_inv_def)
    obtain s' where step: "build_step digest p accepts unsynced s s'" and adv: "advances b s s'"
    proof (cases "critical (builders s b)")
      case True
      show thesis using critical_advances [where unsynced = unsynced and accepts = accepts, OF True clock(1,2) rej clock(4)] that by blast
    next
      case no: False
      with lock [of b] less.prems(2) have "stage_lock s = None" by auto
      from free_advances [OF no _ this, of digest p accepts unsynced] False that show thesis by auto
    qed
    from adv have smaller: "steps_left (builders s' b) < steps_left (builders s b)" and ok: "builders s' b \<noteq> Failed_build"
      and same: "\<forall>c. c \<noteq> b \<longrightarrow> builders s' c = builders s c" by (auto simp: advances_def)
    note inv' = publish_inv_step [OF step inv]
    have "stage_lock s' \<noteq> Some c" if "c \<noteq> b" for c
    proof -
      have "critical (builders s' c) \<longleftrightarrow> stage_lock s' = Some c" using inv' by (simp add: publish_inv_def)
      with same that lock [of c] less.prems(2) show ?thesis by auto
    qed
    then have lock': "stage_lock s' = None \<or> stage_lock s' = Some b" by (cases "stage_lock s'") auto
    obtain n s'' i where n: "n \<le> steps_left (builders s' b)" "(build_step digest p accepts unsynced ^^ n) s' s''"
      "builders s'' b = Finished i" "stage_lock s'' = None" "\<forall>c. c \<noteq> b \<longrightarrow> builders s'' c = builders s' c"
      using less.hyps [OF smaller inv' lock' ok] by blast
    have "(build_step digest p accepts unsynced ^^ Suc n) s s''" using step n(2) by (rule relpowp_Suc_I2)
    with n smaller same show ?thesis by (intro exI [of _ "Suc n"] conjI exI [of _ s''] exI [of _ i]) auto
  qed
qed

text \<open>C15: the builders do not block one another. From every reachable state, each builder that has not failed can be run to its end in at most nine
  steps: three of the builder that holds the lock, if it is another one, and six of its own; no third builder takes part. This needs no step of
  a builder to fail and a clock that gives a timestamp which is not behind the parent stage nor rejected and which the builders accept.\<close>

theorem publishing_progress:
  assumes run: "build_run digest parentTs accepts unsynced repo_tags s"
    and b: "builders s b \<noteq> Failed_build"
    and clock: "stage_ok digest ts" "parentTs \<le> ts" "ts \<notin> rejected_ts repo_tags" "accepts (NewStageID digest ts)"
  shows "\<exists>n \<le> 9. \<exists>s' i. (build_step digest parentTs accepts unsynced ^^ n) s s' \<and> builders s' b = Finished i \<and>
    (\<forall>c. c \<noteq> b \<and> stage_lock s \<noteq> Some c \<longrightarrow> builders s' c = builders s c)"
proof -
  let ?S = "build_step digest parentTs accepts unsynced"
  note inv = publish_inv_run [OF run]
  have at_most: "steps_left pc \<le> 6" for pc by (cases pc) auto
  show ?thesis
  proof (cases "stage_lock s = None \<or> stage_lock s = Some b")
    case True
    from runs_to_end [OF inv this b clock] obtain n s' i where
      "n \<le> steps_left (builders s b)" "(?S ^^ n) s s'" "builders s' b = Finished i" "\<forall>c. c \<noteq> b \<longrightarrow> builders s' c = builders s c" by blast
    with at_most [of "builders s b"] show ?thesis by (intro exI [of _ n] conjI exI [of _ s'] exI [of _ i]) auto
  next
    case False
    then obtain h where h: "stage_lock s = Some h" "h \<noteq> b" by auto
    with inv have crit: "critical (builders s h)" by (simp add: publish_inv_def)
    then have hok: "builders s h \<noteq> Failed_build" and h3: "steps_left (builders s h) \<le> 3" by (cases "builders s h"; simp)+
    from h(1) have "stage_lock s = None \<or> stage_lock s = Some h" by simp
    from runs_to_end [OF inv this hok clock] obtain m s1 where
      m: "m \<le> steps_left (builders s h)" "(?S ^^ m) s s1" "stage_lock s1 = None" "\<forall>c. c \<noteq> h \<longrightarrow> builders s1 c = builders s c" by blast
    have inv1: "publish_inv (unsynced = {}) digest parentTs accepts repo_tags s1"
      using run relpowp_imp_rtranclp [OF m(2)] by (intro publish_inv_run) auto
    have b1: "builders s1 b \<noteq> Failed_build" using m(4) h(2) b by auto
    have "stage_lock s1 = None \<or> stage_lock s1 = Some b" using m(3) by simp
    from runs_to_end [OF inv1 this b1 clock] obtain n s' i where
      n: "n \<le> steps_left (builders s1 b)" "(?S ^^ n) s1 s'" "builders s' b = Finished i" "\<forall>c. c \<noteq> b \<longrightarrow> builders s' c = builders s1 c" by blast
    have "(?S ^^ (m + n)) s s'" using m(2) n(2) by (auto simp: relpowp_add)
    moreover have "m + n \<le> 9" using m(1) h3 n(1) at_most [of "builders s1 b"] by simp
    ultimately show ?thesis using n(3,4) m(4) h(1) by (intro exI [of _ "m + n"] conjI exI [of _ s'] exI [of _ i]) auto
  qed
qed

subsection \<open>Two builders\<close>

text \<open>Both find nothing and build; the first one stores its stage, the second one discards its own.\<close>

abbreviation all_ok :: "StageID \<Rightarrow> bool" where "all_ok \<equiv> \<lambda>_. True"

definition both_built :: publishing where
  "both_built = goto 1 Image_built (goto 0 Image_built (goto 1 Not_found (goto 0 Not_found (start []))))"

definition one_stored :: publishing where
  "one_stored = \<lparr>tags = [''dg-7''], stage_lock = None,
     builders = (\<lambda>_. Starting)(0 := Finished (NewStageID ''dg'' 7), 1 := Image_built)\<rparr>"

definition both_finished :: publishing where
  "both_finished = \<lparr>tags = [''dg-7''], stage_lock = None,
     builders = (\<lambda>_. Starting)(0 := Finished (NewStageID ''dg'' 7), 1 := Finished (NewStageID ''dg'' 7))\<rparr>"

lemma nothing_found: "suitable all_ok (GetStageDescSetByDigestWithCache ''dg'' 0 [] []) = None"
  "suitable all_ok (publish_set False ''dg'' 0 []) = None" "suitable all_ok (publish_set True ''dg'' 0 [''dg-7'']) = None"
  by code_simp+

lemma one_found: "suitable all_ok (publish_set False ''dg'' 0 [''dg-7'']) = Some (NewStageID ''dg'' 7)"
  by code_simp

lemma dg_ok: "stage_ok ''dg'' 7" "stage_tag ''dg'' 7 = ''dg-7''"
  by code_simp+

lemma dg_8: "stage_ok ''dg'' 8" "stage_tag ''dg'' 8 = ''dg-8''"
  by code_simp+

lemma run_both_built: "build_run ''dg'' 0 all_ok {} [] both_built"
proof -
  let ?S = "build_step ''dg'' 0 all_ok {}"
  let ?s1 = "goto 0 Not_found (start [])" let ?s2 = "goto 1 Not_found ?s1" let ?s3 = "goto 0 Image_built ?s2"
  have "?S (start []) ?s1" by (rule build_step.missing [where cached = "[]"]) (simp_all add: start_def nothing_found)
  moreover have "?S ?s1 ?s2" by (rule build_step.missing [where cached = "[]"]) (simp_all add: start_def nothing_found)
  moreover have "?S ?s2 ?s3" by (rule build_step.build) simp
  moreover have "?S ?s3 both_built" unfolding both_built_def by (rule build_step.build) simp
  ultimately show ?thesis by (meson rtranclp.rtrancl_into_rtrancl rtranclp.rtrancl_refl)
qed

lemma run_one_stored: "build_run ''dg'' 0 all_ok {} [] one_stored"
proof -
  let ?S = "build_step ''dg'' 0 all_ok {}"
  define s1 where "s1 = (goto 0 Lock_held both_built)\<lparr>stage_lock := Some 0\<rparr>"
  define s2 where "s2 = goto 0 (Nothing_there 7) s1"
  define s3 where "s3 = (goto 0 (Stored 7) s2)\<lparr>tags := tags s2 @ [stage_tag ''dg'' 7]\<rparr>"
  have t: "tags both_built = []" "stage_lock both_built = None" "builders both_built 0 = Image_built"
    by (simp_all add: both_built_def start_def)
  have e: "unlocked_by 0 (Finished (NewStageID ''dg'' 7)) s3 = one_stored"
    by (auto simp: one_stored_def both_built_def start_def dg_ok s1_def s2_def s3_def)
  have "?S both_built s1" unfolding s1_def by (rule build_step.lock) (simp_all add: t)
  with run_both_built have "?S\<^sup>*\<^sup>* (start []) s1" by (rule rtranclp.rtrancl_into_rtrancl)
  moreover have "?S s1 s2" unfolding s2_def by (rule build_step.generate) (simp_all add: s1_def t nothing_found dg_ok rejected_ts_def)
  ultimately have "?S\<^sup>*\<^sup>* (start []) s2" by (rule rtranclp.rtrancl_into_rtrancl)
  moreover have "?S s2 s3" unfolding s3_def by (rule build_step.store) (simp add: s2_def)
  ultimately have "?S\<^sup>*\<^sup>* (start []) s3" by (rule rtranclp.rtrancl_into_rtrancl)
  moreover have "?S s3 one_stored" unfolding e [symmetric] by (rule build_step.finish) (simp add: s3_def)
  ultimately show ?thesis by (rule rtranclp.rtrancl_into_rtrancl)
qed

lemma run_both_finished: "build_run ''dg'' 0 all_ok {} [] both_finished"
proof -
  let ?S = "build_step ''dg'' 0 all_ok {}"
  define s1 where "s1 = (goto 1 Lock_held one_stored)\<lparr>stage_lock := Some 1\<rparr>"
  have e: "unlocked_by 1 (Finished (NewStageID ''dg'' 7)) s1 = both_finished"
    by (auto simp: one_stored_def both_finished_def s1_def)
  have "?S one_stored s1" unfolding s1_def by (rule build_step.lock) (simp_all add: one_stored_def)
  with run_one_stored have "?S\<^sup>*\<^sup>* (start []) s1" by (rule rtranclp.rtrancl_into_rtrancl)
  moreover have "?S s1 both_finished" unfolding e [symmetric] by (rule build_step.discard) (simp_all add: s1_def one_stored_def one_found)
  ultimately show ?thesis by (rule rtranclp.rtrancl_into_rtrancl)
qed

text \<open>With the synchronization disabled the second builder stores a second stage.\<close>

definition two_stored :: publishing where
  "two_stored = \<lparr>tags = [''dg-7'', ''dg-8''], stage_lock = None,
     builders = (\<lambda>_. Starting)(0 := Finished (NewStageID ''dg'' 7), 1 := Finished (NewStageID ''dg'' 8))\<rparr>"

lemma two_stages_unsynced: "(build_step ''dg'' 0 all_ok {1})\<^sup>*\<^sup>* one_stored two_stored"
proof -
  let ?S = "build_step ''dg'' 0 all_ok {1}"
  define s1 where "s1 = (goto 1 Lock_held one_stored)\<lparr>stage_lock := Some 1\<rparr>"
  define s2 where "s2 = goto 1 (Nothing_there 8) s1"
  define s3 where "s3 = (goto 1 (Stored 8) s2)\<lparr>tags := tags s2 @ [stage_tag ''dg'' 8]\<rparr>"
  have rej: "rejected_ts [''dg-7''] = {}" using stage_tag_ts(2) [OF dg_ok(1)] by (simp add: dg_ok)
  have e: "unlocked_by 1 (Finished (NewStageID ''dg'' 8)) s3 = two_stored"
    by (auto simp: two_stored_def one_stored_def s1_def s2_def s3_def dg_8)
  have "?S one_stored s1" unfolding s1_def by (rule build_step.lock) (simp_all add: one_stored_def)
  moreover have "?S s1 s2" unfolding s2_def by (rule build_step.generate) (simp_all add: s1_def one_stored_def nothing_found dg_8 rej)
  moreover have "?S s2 s3" unfolding s3_def by (rule build_step.store) (simp add: s2_def)
  moreover have "?S s3 two_stored" unfolding e [symmetric] by (rule build_step.finish) (simp add: s3_def)
  ultimately show ?thesis by (meson rtranclp.rtrancl_into_rtrancl rtranclp.rtrancl_refl)
qed

lemma one_stage_per_digest_witness:
  "(\<exists>ts. suitable_ts ''dg'' 0 all_ok (tags both_finished) \<subseteq> {ts}) \<and> builders both_finished 0 = builders both_finished 1"
  using one_stage_per_digest [OF run_both_finished] by (auto simp: suitable_ts_def digest_ts_def both_finished_def)

lemma publishing_progress_witness:
  "\<exists>n \<le> 9. \<exists>s' i. (build_step ''dg'' 0 all_ok {} ^^ n) one_stored s' \<and> builders s' 1 = Finished i"
  using publishing_progress [OF run_one_stored, of 1 7] by (fastforce simp: one_stored_def dg_ok rejected_ts_def)

end
