(* ===== verification/Spec2Isabelle.thy ===== *)
theory Spec2Isabelle
  imports Parallel_Tasks Cleanup_Examples Diff_Filter Repo_Examples Host_Examples Build_Publish
begin

text \<open>
  A verification library for werf (Go): the cleanup of the container registry and of the host, the storage of stages and of their
  records in the registry, and the digests, the selection and the publishing of stages in a build.

  \<^bold>\<open>The program.\<close> werf builds images in stages. A stage is an image in a repo of a container registry under a tag of the digest of its
  inputs and a timestamp. Beside the stages the repo has records, which are images without content: a record for each
  managed image, for each commit that an image was published for, for the sources of imports, for custom tags, for rejected stages, for clients, servers and
  the last cleanup. A build looks a stage up by its digest, selects one of the stages found, and otherwise builds and publishes one under a lock of the
  digest. \<open>werf cleanup\<close> reads all stages and records, protects the stages that Kubernetes runs, that the Git history policies keep, that are young or on the
  keep list, then the relatives of these, and deletes the rest; \<open>werf purge\<close> deletes everything; \<open>werf host cleanup\<close> and \<open>werf host purge\<close> remove images
  and containers from the container backend of the host.

  \<^bold>\<open>The theories and the code they model\<close> (paths under \<open>src/pkg\<close>).
  \<^item> \<open>Werf_Prelude\<close>: Go's maps as association lists (\<open>go_map\<close>, the order of the list being the order of a \<open>range\<close> loop), errors (\<open>go_error\<close>, with the
    panics as values of their own), the collections of rewrite rules. \<open>Go_Strings\<close>: the functions of \<open>strings\<close>, \<open>strconv\<close> and \<open>fmt\<close> that the code uses.
  \<^item> \<open>Stage_Desc\<close>: \<open>image/stage.go\<close>, \<open>image/info.go\<close>, \<open>image/const.go\<close>: identifiers, descriptions, labels.
  \<^item> \<open>Stage_Manager\<close>: \<open>cleaning/stage_manager/manager.go\<close> and \<open>stages.go\<close>: the set of stages with their protection and the metadata of the images, the
    state of a cleanup. The locale \<open>protection_marks\<close> is what the cleanup relies on when it marks; it is interpreted for the stages of the repo (\<open>repo\<close>) and of the
    final repo (\<open>final\<close>).
  \<^item> \<open>Keep_Policy\<close>: \<open>config/meta_cleanup.go\<close>, \<open>raw_meta_cleanup.go\<close>. \<open>Git_References\<close>: \<open>cleaning/git_history_based_cleanup/reference_to_scan.go\<close>.
    \<open>History_Scanner\<close>: \<open>scanner.go\<close> beside it. \<open>Deployed_Images\<close>: \<open>cleaning/allow_list/kubernetes.go\<close> and the collection of the images of all contexts.
  \<^item> \<open>Storage_Calls\<close>: the deletions of \<open>cleaning/cleanup.go\<close> and \<open>purge.go\<close> as a trace of calls. \<open>Relatives\<close>: the protection of relatives (\<open>cleanup.go\<close>,
    862-869 and 1018-1117). \<open>Cleanup\<close>: every phase of \<open>cleanup.go\<close> and of \<open>purge.go\<close> over a state of the manager, the checksums of the import sources and the trace.
  \<^item> \<open>Slug_Map\<close>, \<open>Slug\<close>: \<open>slug/map.go\<close>, \<open>slug/slug.go\<close>.
  \<^item> \<open>Registry\<close>: \<open>docker_registry/api.go\<close>, \<open>errors.go\<close>, \<open>default.go\<close>, \<open>docker_registry_with_cache.go\<close>. \<open>Repo_Records\<close>, \<open>Repo_Storage\<close>:
    \<open>storage/repo_stages_storage.go\<close>, \<open>import_metadata.go\<close>, \<open>custom_tag_metadata.go\<close>, \<open>tags.go\<close>: the names of the records, and the operations as actions
    on a state of the registry.
  \<^item> \<open>Stage_Selection\<close>: the digest of a stage (\<open>build/build_phase.go\<close>) and the selection by age and by ancestry (\<open>build/stage/base.go\<close>, \<open>git_mapping.go\<close>,
    \<open>user_with_git_patch.go\<close>). \<open>Build_Publish\<close>: \<open>atomicBuildStageImage\<close> of \<open>build/build_phase.go\<close> as an interleaving of the steps of any number of builders
    (\<open>build_step\<close>), with and without \<open>WERF_DISABLE_PUBLISH_TAG_CACHE_SYNC\<close>.
  \<^item> \<open>Host_Backend\<close>, \<open>Host_GC\<close>, \<open>Host_Purge\<close>: \<open>host_cleaning/local_backend_cleaner.go\<close>, \<open>images.go\<close>, \<open>containers.go\<close>, \<open>local_purger.go\<close>, \<open>host_purge.go\<close>,
    \<open>volumeutils/volume_usage.go\<close>. A run is a function of the history of calls made so far, whose answers the host gives.
  \<^item> \<open>Diff_Parser\<close>: \<open>true_git/diff_parser.go\<close>. \<open>Parallel_Tasks\<close>: \<open>util/parallel/parallel.go\<close>: the distribution of the tasks and the interleaving of the workers
    (\<open>task_step\<close>).
\<close>

text \<open>
  \<^bold>\<open>What the lemmas show.\<close>
  \<^item> \<open>Cleanup_Safety\<close>, \<open>Cleanup_Properties\<close>: whatever the storage, the clusters and Git answer, and wherever the run stops, no stage that a policy keeps is deleted.
    \<open>Cleanup_Publishing\<close> states this for a published commit and that the cleanup returns; \<open>Cleanup_Exact\<close> has what is deleted, exactly, when the storage obeys.
    \<open>Relatives\<close> characterises the protection of relatives as a closure; \<open>History_Scanner\<close> the scan as the reachable commits, under the limits;
    \<open>Git_References\<close> the references that are scanned.
  \<^item> \<open>Repo_Tags\<close>, \<open>Stage_Tags\<close>: what is read back from tags. \<open>Repo_Refinement\<close>: the storage implements an abstract map from records to labels; the simulation of one
    operation becomes that of a sequence in the locale \<open>data_refinement\<close>, interpreted on the operations of the storage (\<open>records\<close>). \<open>Repo_Reading\<close>: what is
    read from the registry.
  \<^item> \<open>Host_GC_Safety\<close>, \<open>Host_GC_Exact\<close>, \<open>Host_GC_Runs\<close>: what the collection on the host may remove, in which order, and where it stops.
  \<^item> \<open>Diff_Filter\<close>: a diff that is made of files comes out filtered, however it is cut into pieces.
  \<^item> \<open>Cleanup_Examples\<close>, \<open>Repo_Examples\<close>, \<open>Host_Examples\<close>: small worlds to which the theorems are applied; a registry in memory that follows all its laws.

  \<^bold>\<open>Parameters and laws.\<close> Code that is not in the repository is a parameter: the registry client library (\<open>registry\<close>), the container backend and the disk
  (\<open>host\<close>), Git (\<open>git\<close> sources), Kubernetes, the hashes, the sorting functions of Go, of which the order of equal elements is left open
  (\<open>sort_ok\<close>, \<open>image_sorter_ok\<close>). Their laws are hypotheses.
  \<^item> \<open>registry_ok\<close> is the distribution API: a get that succeeds gives the image of the reference, a write sets it or changes nothing, the list has the tags, a deletion by
    digest takes the manifest with all its tags. Nothing is said about a get that fails: a reference may be listed and yet be damaged. \<open>damaged_only view reg B\<close> names the
    references \<open>B\<close> that may be damaged, and the properties say what becomes of these. \<open>records_unaliased\<close> says that no two records have the same full name.
  \<^item> The percentages of the volume are exact rational numbers, where Go computes with \<open>float64\<close>, and the sizes are 64-bit words. In a volume of no bytes
    Go divides by zero; the properties on the collection ask for another volume.
  \<^item> Loops without a bound are \<open>partial_function\<close>s: the search of the history (\<open>scan_loop\<close>), which returns in a repository with finitely many readable commits, and the
    reading of an index with its manifests (\<open>getRepoImageByDesc\<close>), whose overflow of the stack is a panic. There is no fuel.
  \<^item> The images of the git history phase and the deletions, which the code runs in parallel, are handled one after the other; \<open>Parallel_Tasks\<close> has the
    runner itself with all its interleavings.

  \<^bold>\<open>Not modelled.\<close> The commands and instructions of the stages, the conveyor, the container backends and the registries of vendors, the local storage, the lock servers,
  the configuration but for its cleanup section, giterminism, deploy and the command line: input and output, calls of other programs and
  libraries, and text. Of \<open>storage_manager.go\<close> only the selection and the lookups of a digest are here; the cache repos and secondary repos are not.
\<close>

end
